(* ===== verification/Prelude.thy ===== *)
theory Prelude
  imports Main "HOL-Library.Word"
begin

text \<open>
  Shared vocabulary of the development: the machine types of the C++ sources, the exceptions
  the code can throw as values of a datatype, conversions between the bytes of a
  \<^verbatim>\<open>std::string\<close> and unsigned octets, the standard-library routines the code uses
  (\<^verbatim>\<open>std::to_string\<close>, \<^verbatim>\<open>std::stoi\<close>, \<^verbatim>\<open>std::tolower\<close>,
  \<^verbatim>\<open>std::string::find\<close> and \<^verbatim>\<open>rfind\<close>), the fixed-width big-endian and
  little-endian integer encodings, and the list operation behind every
  "find the first element and update it in place" loop.
\<close>

unbundle bit_operations_syntax

named_theorems wire_simps \<open>length and head facts of the byte encodings\<close>
named_theorems store_simps \<open>frame facts of the store operations\<close>

type_synonym u8 = "8 word"
type_synonym u16 = "16 word"
type_synonym u32 = "32 word"
type_synonym u64 = "64 word"
type_synonym bytes = "u8 list"

section \<open>Exceptions as values\<close>

datatype exn =
    Runtime_error string
  | Json_type_error
  | Json_parse_error
  | Invalid_argument
  | Out_of_range
  | Undefined_behaviour

type_synonym 'a res = "exn + 'a"

text \<open>Sequencing: an exception skips the rest.\<close>

definition res_bind :: "'a res \<Rightarrow> ('a \<Rightarrow> 'b res) \<Rightarrow> 'b res" where
  "res_bind m f = (case m of Inl e \<Rightarrow> Inl e | Inr x \<Rightarrow> f x)"

lemma res_bind_simps [simp]: "res_bind (Inl e) f = Inl e" "res_bind (Inr x) f = f x"
  by (simp_all add: res_bind_def)

lemma res_bind_Inr: "res_bind m f = Inr y \<longleftrightarrow> (\<exists>x. m = Inr x \<and> f x = Inr y)"
  by (cases m) auto

text \<open>
  A loop that converts elements and pushes them onto a container: when a conversion throws, the
  elements pushed before it stay in the container.
\<close>

fun push_loop :: "('a \<Rightarrow> 'b res) \<Rightarrow> 'a list \<Rightarrow> 'b list \<Rightarrow> unit res \<times> 'b list" where
  "push_loop f [] acc = (Inr (), acc)"
| "push_loop f (x # xs) acc = (case f x of Inl e \<Rightarrow> (Inl e, acc) | Inr y \<Rightarrow> push_loop f xs (acc @ [y]))"

lemma push_loop_ok:
  "(\<And>x. x \<in> set xs \<Longrightarrow> f x = Inr (g x)) \<Longrightarrow> push_loop f xs acc = (Inr (), acc @ map g xs)"
  by (induction xs arbitrary: acc) auto

lemma push_loop_map:
  "(\<And>x. x \<in> set xs \<Longrightarrow> f (g x) = Inr x) \<Longrightarrow> push_loop f (map g xs) acc = (Inr (), acc @ xs)"
  by (induction xs arbitrary: acc) auto

lemma push_loop_Inr:
  "push_loop f xs acc = (Inr (), ys) \<Longrightarrow> \<exists>zs. ys = acc @ zs \<and> map f xs = map Inr zs"
  by (induction xs arbitrary: acc) (fastforce split: sum.splits)+

section \<open>Characters and octets\<close>

definition byte_of_char :: "char \<Rightarrow> u8" where
  "byte_of_char c = word_of_nat (of_char c)"

definition char_of_byte :: "u8 \<Rightarrow> char" where
  "char_of_byte b = char_of (unat b)"

lemma of_char_less_256: "of_char c < (256 :: nat)"
  using of_char_mod_256 [of c, where ?'a = nat] by (metis mod_less_divisor zero_less_numeral)

lemma unat_byte_of_char [simp]: "unat (byte_of_char c) = of_char c"
  using of_char_less_256 [of c]
  by (simp add: byte_of_char_def unat_of_nat)

lemma char_of_byte_of_char [simp]: "char_of_byte (byte_of_char c) = c"
  by (simp add: char_of_byte_def)

lemma byte_of_char_of_byte [simp]: "byte_of_char (char_of_byte b) = b"
proof -
  have "unat b < 256" using unsigned_less [of b, where ?'a = nat] by simp
  then show ?thesis by (simp add: byte_of_char_def char_of_byte_def)
qed

lemma byte_char_comp [simp]:
  "byte_of_char \<circ> char_of_byte = id" "char_of_byte \<circ> byte_of_char = id"
  by (auto simp: fun_eq_iff)

abbreviation bytes_of_string :: "string \<Rightarrow> bytes" where
  "bytes_of_string \<equiv> map byte_of_char"

abbreviation string_of_bytes :: "bytes \<Rightarrow> string" where
  "string_of_bytes \<equiv> map char_of_byte"

lemma string_of_bytes_of_string [simp]: "string_of_bytes (bytes_of_string s) = s"
  by (induction s) auto

lemma bytes_of_string_of_bytes [simp]: "bytes_of_string (string_of_bytes b) = b"
  by (induction b) auto

text \<open>\<^verbatim>\<open>std::tolower\<close> in the C locale, applied to every character.\<close>

definition tolower :: "char \<Rightarrow> char" where
  "tolower c = (let n = (of_char c :: nat) in if 65 \<le> n \<and> n \<le> 90 then char_of (n + 32) else c)"

lemma tolower_idem [simp]: "tolower (tolower c) = tolower c"
  by (auto simp: tolower_def Let_def)

abbreviation lower_string :: "string \<Rightarrow> string" where
  "lower_string \<equiv> map tolower"

lemma lower_string_idem [simp]: "lower_string (lower_string s) = lower_string s"
  by (induction s) auto

section \<open>Decimal text\<close>

definition digit_char :: "nat \<Rightarrow> char" where
  "digit_char d = char_of (48 + d)"

definition is_digit :: "char \<Rightarrow> bool" where
  "is_digit c \<longleftrightarrow> 48 \<le> (of_char c :: nat) \<and> (of_char c :: nat) \<le> 57"

definition digit_val :: "char \<Rightarrow> nat" where
  "digit_val c = of_char c - 48"

lemma digit_char_props:
  assumes "d < 10"
  shows "is_digit (digit_char d)" and "digit_val (digit_char d) = d"
  using assms by (simp_all add: is_digit_def digit_char_def digit_val_def)

text \<open>\<^verbatim>\<open>std::to_string\<close> on an unsigned value.\<close>

fun to_string :: "nat \<Rightarrow> string" where
  "to_string n = (if n < 10 then [digit_char n] else to_string (n div 10) @ [digit_char (n mod 10)])"

declare to_string.simps [simp del]

definition dec_value :: "nat \<Rightarrow> string \<Rightarrow> nat" where
  "dec_value acc s = foldl (\<lambda>a c. 10 * a + digit_val c) acc s"

lemma to_string_small: "n < 10 \<Longrightarrow> to_string n = [digit_char n]"
  by (simp add: to_string.simps [of n])

lemma to_string_big: "\<not> n < 10 \<Longrightarrow> to_string n = to_string (n div 10) @ [digit_char (n mod 10)]"
  by (simp add: to_string.simps [of n])

lemma to_string_not_Nil [simp]: "to_string n \<noteq> []"
  by (cases "n < 10") (simp_all add: to_string_small to_string_big)

lemma to_string_digits: "c \<in> set (to_string n) \<Longrightarrow> is_digit c"
proof (induction n rule: to_string.induct)
  case (1 n)
  then show ?case
    by (cases "n < 10") (auto simp: to_string_small to_string_big digit_char_props)
qed

lemma dec_value_to_string [simp]: "dec_value 0 (to_string n) = n"
proof (induction n rule: to_string.induct)
  case (1 n)
  then show ?case
    by (cases "n < 10") (simp_all add: to_string_small to_string_big digit_char_props dec_value_def)
qed

lemma to_string_inject [simp]: "to_string m = to_string n \<longleftrightarrow> m = n"
  by (metis dec_value_to_string)

text \<open>
  \<^verbatim>\<open>std::stoi\<close>: leading white space and a sign are skipped, at least one digit is
  required, what follows the digits is ignored, and a value outside \<^verbatim>\<open>int\<close> is an error.
\<close>

definition is_space :: "char \<Rightarrow> bool" where
  "is_space c \<longleftrightarrow> (let n = (of_char c :: nat) in n = 32 \<or> (9 \<le> n \<and> n \<le> 13))"

definition stoi :: "string \<Rightarrow> int res" where
  "stoi s =
     (let t = dropWhile is_space s;
          neg = (t \<noteq> [] \<and> hd t = CHR ''-'');
          signed = (t \<noteq> [] \<and> (hd t = CHR ''-'' \<or> hd t = CHR ''+''));
          digits = takeWhile is_digit (if signed then tl t else t);
          v = (if neg then - int (dec_value 0 digits) else int (dec_value 0 digits))
      in if digits = [] then Inl Invalid_argument
         else if v < - (2 ^ 31) \<or> 2 ^ 31 \<le> v then Inl Out_of_range
         else Inr v)"

lemma is_digit_not_space: "is_digit c \<Longrightarrow> \<not> is_space c"
  by (auto simp: is_digit_def is_space_def Let_def)

lemma is_digit_not_sign:
  assumes "is_digit c" shows "c \<noteq> CHR ''-''" and "c \<noteq> CHR ''+''" and "c \<noteq> CHR ''.''"
  using assms by (auto simp: is_digit_def)

lemma stoi_to_string:
  assumes "n < 2 ^ 31" and "r = [] \<or> \<not> is_digit (hd r)"
  shows "stoi (to_string n @ r) = Inr (int n)"
proof -
  obtain c cs where cs: "to_string n = c # cs" by (cases "to_string n") auto
  then have c: "is_digit c" using to_string_digits [of c n] by simp
  have "takeWhile is_digit (to_string n @ r) = to_string n"
    using assms(2) to_string_digits [of _ n] by (subst takeWhile_append2) (cases r; auto)+
  then have tw: "takeWhile is_digit (c # cs @ r) = c # cs" by (simp add: cs)
  have v: "dec_value 0 (c # cs) = n" using dec_value_to_string [of n] by (simp add: cs)
  show ?thesis
    using assms(1) c tw v
    by (simp add: stoi_def Let_def cs is_digit_not_space is_digit_not_sign)
qed

section \<open>Searching strings\<close>

text \<open>
  \<^verbatim>\<open>s.find(c)\<close> as the text before and after the first occurrence of the character, and
  \<^verbatim>\<open>s.rfind(c)\<close> likewise for the last one; \<^const>\<open>None\<close> is \<^verbatim>\<open>npos\<close>.
\<close>

fun split_first :: "'a \<Rightarrow> 'a list \<Rightarrow> ('a list \<times> 'a list) option" where
  "split_first c [] = None"
| "split_first c (x # xs) =
     (if x = c then Some ([], xs)
      else map_option (\<lambda>(a, b). (x # a, b)) (split_first c xs))"

definition split_last :: "'a \<Rightarrow> 'a list \<Rightarrow> ('a list \<times> 'a list) option" where
  "split_last c xs = map_option (\<lambda>(a, b). (rev b, rev a)) (split_first c (rev xs))"

lemma split_first_None [simp]: "split_first c xs = None \<longleftrightarrow> c \<notin> set xs"
  by (induction xs) auto

lemma split_first_Some:
  "split_first c xs = Some (a, b) \<longleftrightarrow> xs = a @ c # b \<and> c \<notin> set a"
proof (induction xs arbitrary: a b)
  case (Cons x xs)
  then show ?case by (cases a) auto
qed simp

lemma split_first_append [simp]:
  "c \<notin> set a \<Longrightarrow> split_first c (a @ c # b) = Some (a, b)"
  by (simp add: split_first_Some)

lemma split_last_Some:
  "split_last c xs = Some (a, b) \<longleftrightarrow> xs = a @ c # b \<and> c \<notin> set b"
proof -
  have "split_last c xs = Some (a, b) \<longleftrightarrow> split_first c (rev xs) = Some (rev b, rev a)"
    by (auto simp: split_last_def)
  also have "\<dots> \<longleftrightarrow> rev xs = rev b @ c # rev a \<and> c \<notin> set b"
    by (simp add: split_first_Some)
  also have "rev xs = rev b @ c # rev a \<longleftrightarrow> xs = a @ c # b"
    by (metis append.assoc append_Cons append_Nil rev.simps(2) rev_append rev_rev_ident)
  finally show ?thesis .
qed

lemma split_last_None [simp]: "split_last c xs = None \<longleftrightarrow> c \<notin> set xs"
  by (simp add: split_last_def)

section \<open>Fixed-width integer encodings\<close>

definition put_be16 :: "u16 \<Rightarrow> bytes" where
  "put_be16 v = [ucast (drop_bit 8 v), ucast v]"

definition get_be16 :: "u8 \<Rightarrow> u8 \<Rightarrow> u16" where
  "get_be16 a b = (push_bit 8 (ucast a) OR ucast b)"

definition put_be32 :: "u32 \<Rightarrow> bytes" where
  "put_be32 v = [ucast (drop_bit 24 v), ucast (drop_bit 16 v), ucast (drop_bit 8 v), ucast v]"

definition put_le32 :: "u32 \<Rightarrow> bytes" where
  "put_le32 v = [ucast v, ucast (drop_bit 8 v), ucast (drop_bit 16 v), ucast (drop_bit 24 v)]"

text \<open>The reading side of the two 32-bit layouts, as a client decodes them.\<close>

definition get_be32 :: "u8 \<Rightarrow> u8 \<Rightarrow> u8 \<Rightarrow> u8 \<Rightarrow> u32" where
  "get_be32 a b c d =
     (push_bit 24 (ucast a) OR push_bit 16 (ucast b) OR push_bit 8 (ucast c) OR ucast d)"

lemma length_put [wire_simps]:
  "length (put_be16 v) = 2" "length (put_be32 w) = 4" "length (put_le32 w) = 4"
  by (simp_all add: put_be16_def put_be32_def put_le32_def)

lemma get_be16_put: "get_be16 (ucast (drop_bit 8 v)) (ucast v) = v"
  by (rule bit_word_eqI) (auto simp: get_be16_def bit_simps not_less)

lemma get_be32_put:
  "get_be32 (ucast (drop_bit 24 v)) (ucast (drop_bit 16 v)) (ucast (drop_bit 8 v)) (ucast v) = v"
proof (rule bit_word_eqI)
  fix n :: nat
  assume "n < LENGTH(32)"
  then have "n < 8 \<or> (8 \<le> n \<and> n < 16) \<or> (16 \<le> n \<and> n < 24) \<or> (24 \<le> n \<and> n < 32)" by auto
  then show "bit (get_be32 (ucast (drop_bit 24 v)) (ucast (drop_bit 16 v)) (ucast (drop_bit 8 v)) (ucast v)) n
      = bit v n"
    by (auto simp: get_be32_def bit_simps)
qed

section \<open>Counters\<close>

lemma unat_max_word: "unat (- 1 :: 'a::len word) = 2 ^ LENGTH('a) - 1"
  by (simp add: unsigned_minus_1_eq_mask mask_eq_exp_minus_1)

lemma unat_of_nat_below: "n < 2 ^ LENGTH('a) \<Longrightarrow> unat (word_of_nat n :: 'a::len word) = n"
  by (simp add: unsigned_of_nat take_bit_nat_eq_self)

lemma unat_succ:
  fixes b :: "'a::len word"
  assumes "b \<noteq> - 1"
  shows "unat (b + 1) = unat b + 1"
proof -
  have "unat b \<noteq> 2 ^ LENGTH('a) - 1"
    using assms unat_max_word [where ?'a = 'a] by (metis word_unat_eq_iff)
  moreover have "unat b < 2 ^ LENGTH('a)" by (rule unsigned_less)
  ultimately have "unat b + 1 < 2 ^ LENGTH('a)" by linarith
  then show ?thesis by (simp add: unat_word_ariths)
qed

lemma word_less_succ:
  fixes b :: "'a::len word"
  shows "b \<noteq> - 1 \<Longrightarrow> b < b + 1"
  by (simp add: word_less_nat_alt unat_succ)

lemma unat_below_max: "unat (w :: 'a::len word) < 2 ^ LENGTH('a) - 1 \<Longrightarrow> w \<noteq> - 1"
  by (auto simp: unat_max_word)

section \<open>Updating the first match in place\<close>

text \<open>
  The loop \<^verbatim>\<open>for (auto& x : xs) { if (P(x)) { f(x); return; } }\<close>.
\<close>

fun update_first :: "('a \<Rightarrow> bool) \<Rightarrow> ('a \<Rightarrow> 'a) \<Rightarrow> 'a list \<Rightarrow> 'a list" where
  "update_first P f [] = []"
| "update_first P f (x # xs) = (if P x then f x # xs else x # update_first P f xs)"

lemma length_update_first [simp]: "length (update_first P f xs) = length xs"
  by (induction xs) auto

lemma update_first_no_match [simp]:
  "\<forall>x\<in>set xs. \<not> P x \<Longrightarrow> update_first P f xs = xs"
  by (induction xs) auto

lemma map_update_first_same:
  assumes "\<And>x. g (f x) = g x"
  shows "map g (update_first P f xs) = map g xs"
  using assms by (induction xs) auto

lemma find_update_first:
  assumes "\<And>x. Q (f x) = Q x"
  shows "find Q (update_first Q f xs) = map_option f (find Q xs)"
  using assms by (induction xs) auto

lemma find_update_other:
  assumes "\<And>x. Q (f x) = Q x" and "\<And>x. P x \<Longrightarrow> \<not> Q x"
  shows "find Q (update_first P f xs) = find Q xs"
  using assms by (induction xs) auto

lemma set_update_first: "set (update_first P f xs) \<subseteq> set xs \<union> f ` {x \<in> set xs. P x}"
  by (induction xs) auto

lemma update_first_in:
  "y \<in> set (update_first P f xs) \<Longrightarrow> y \<in> set xs \<or> (\<exists>x\<in>set xs. P x \<and> y = f x)"
  using set_update_first [of P f xs] by auto

lemma find_Some_in: "find P xs = Some x \<Longrightarrow> x \<in> set xs \<and> P x"
  by (induction xs) (auto split: if_splits)

lemma find_None_all: "find P xs = None \<longleftrightarrow> (\<forall>x\<in>set xs. \<not> P x)"
  by (induction xs) auto

lemma find_append: "find P (xs @ ys) = (case find P xs of None \<Rightarrow> find P ys | Some x \<Rightarrow> Some x)"
  by (induction xs) auto

lemma find_distinct:
  "distinct (map f xs) \<Longrightarrow> x \<in> set xs \<Longrightarrow> find (\<lambda>y. f y = f x) xs = Some x"
  by (induction xs) (auto simp: image_iff)

end
