(* ===== verification/Crypto.thy ===== *)
theory Crypto
  imports Prelude
begin

text \<open>
  Model of \<^verbatim>\<open>src/src/crypto.cpp\<close>. OpenSSL is not part of the repository: its calls are
  the fields of the record \<open>openssl\<close>, an argument of every definition that reaches it, and
  what the code relies on is the predicate \<open>openssl_laws\<close>. Everything the file adds on top
  is defined here: the checks around the calls, HMAC and HKDF over BLAKE2s, the clamping of
  fresh X25519 private keys, the AEAD wrappers, and the hexadecimal codec.
\<close>

section \<open>The OpenSSL interface\<close>

record openssl =
  md_ctx_new :: bool
  digest_updates :: "bytes list \<Rightarrow> bool"
  digest_final :: "bytes list \<Rightarrow> bytes option"
  new_raw_private_key :: "bytes \<Rightarrow> bool"
  new_raw_public_key :: "bytes \<Rightarrow> bool"
  get_raw_public_key :: "bytes \<Rightarrow> bytes option"
  pkey_derive :: "bytes \<Rightarrow> bytes \<Rightarrow> bytes option"
  cipher_ctx_new :: bool
  chacha_encrypt :: "bytes \<Rightarrow> bytes \<Rightarrow> bytes \<Rightarrow> bytes \<Rightarrow> (bytes \<times> bytes) option"
  chacha_decrypt :: "bytes \<Rightarrow> bytes \<Rightarrow> bytes \<Rightarrow> bytes \<Rightarrow> bytes \<Rightarrow> bytes option"
  bio_b64_encode :: "bytes \<Rightarrow> string"
  bio_b64_decode :: "string \<Rightarrow> bytes option"

text \<open>
  The documented behaviour the handshake and the record layer rely on: contexts are allocated,
  BLAKE2s digests have 32 octets, X25519 public keys and shared secrets have 32 octets and the
  two sides of an exchange agree, and ChaCha20-Poly1305 appends a 16-octet tag, opens what it
  sealed under the same key, nonce and associated data, and never changes the length.
\<close>

definition openssl_laws :: "openssl \<Rightarrow> bool" where
  "openssl_laws L \<longleftrightarrow>
     md_ctx_new L \<and> cipher_ctx_new L \<and>
     (\<forall>us. digest_updates L us) \<and>
     (\<forall>us. \<exists>d. digest_final L us = Some d \<and> length d = 32) \<and>
     (\<forall>a. length a = 32 \<longrightarrow> new_raw_private_key L a \<and> new_raw_public_key L a \<and>
        (\<exists>p. get_raw_public_key L a = Some p \<and> length p = 32)) \<and>
     (\<forall>a b p q. length a = 32 \<longrightarrow> length b = 32 \<longrightarrow>
        get_raw_public_key L a = Some p \<longrightarrow> get_raw_public_key L b = Some q \<longrightarrow>
        (\<exists>s. pkey_derive L a q = Some s \<and> pkey_derive L b p = Some s \<and> length s = 32)) \<and>
     (\<forall>k n ad pt. length k = 32 \<longrightarrow> length n = 12 \<longrightarrow>
        (\<exists>ct tag. chacha_encrypt L k n ad pt = Some (ct, tag) \<and> length ct = length pt \<and>
           length tag = 16 \<and> chacha_decrypt L k n ad ct tag = Some pt)) \<and>
     (\<forall>k n ad ct tag pt. chacha_decrypt L k n ad ct tag = Some pt \<longrightarrow> length pt = length ct)"

section \<open>Hashing\<close>

definition blake2s256 :: "openssl \<Rightarrow> bytes \<Rightarrow> bytes \<Rightarrow> bytes res" where
  "blake2s256 L a b =
     (let us = (if b = [] then [a] else [a, b]) in
      if \<not> md_ctx_new L then Inl (Runtime_error ''EVP_MD_CTX_new'')
      else if \<not> digest_updates L us then Inl (Runtime_error ''blake2s256'')
      else case digest_final L us of
             None \<Rightarrow> Inl (Runtime_error ''blake2s256 final'')
           | Some d \<Rightarrow> if length d = 32 then Inr d else Inl (Runtime_error ''blake2s256 final''))"

definition hmac_block :: nat where "hmac_block = 64"

definition hmac_blake2s :: "openssl \<Rightarrow> bytes \<Rightarrow> bytes \<Rightarrow> bytes res" where
  "hmac_blake2s L key data =
     (case (if hmac_block < length key then blake2s256 L key [] else Inr key) of
        Inl e \<Rightarrow> Inl e
      | Inr k \<Rightarrow>
          let kpad = k @ replicate (hmac_block - length k) 0;
              ipad = map (\<lambda>x. x XOR 0x36) kpad;
              opad = map (\<lambda>x. x XOR 0x5c) kpad
          in case blake2s256 L (ipad @ data) [] of
               Inl e \<Rightarrow> Inl e
             | Inr inner \<Rightarrow> blake2s256 L (opad @ inner) [])"

text \<open>
  The expansion loop of \<^verbatim>\<open>hkdf_blake2s\<close>: \<open>prev\<close> is empty before the first round
  (\<^verbatim>\<open>have_prev\<close> is false), and the 8-bit counter wraps as in the source.
\<close>

function hkdf_loop :: "openssl \<Rightarrow> bytes \<Rightarrow> bytes \<Rightarrow> u8 \<Rightarrow> nat \<Rightarrow> bytes res" where
  "hkdf_loop L prk prev counter remaining =
     (if remaining = 0 then Inr []
      else case hmac_blake2s L prk (prev @ [counter]) of
             Inl e \<Rightarrow> Inl e
           | Inr t \<Rightarrow>
               (let n = min 32 remaining in
                case hkdf_loop L prk t (counter + 1) (remaining - n) of
                  Inl e \<Rightarrow> Inl e
                | Inr rest \<Rightarrow> Inr (take n t @ rest)))"
  by pat_completeness auto
termination
  by (relation "measure (\<lambda>(L', prk, prev, counter, remaining). remaining)") auto

declare hkdf_loop.simps [simp del]

definition hkdf_blake2s :: "openssl \<Rightarrow> bytes \<Rightarrow> bytes \<Rightarrow> nat \<Rightarrow> bytes res" where
  "hkdf_blake2s L ikm salt n =
     (case hmac_blake2s L salt ikm of
        Inl e \<Rightarrow> Inl e
      | Inr prk \<Rightarrow> hkdf_loop L prk [] 1 n)"

section \<open>Randomness and X25519\<close>

text \<open>
  \<open>draw\<close> is what \<^verbatim>\<open>RAND_bytes\<close> delivered for this call: \<^const>\<open>None\<close> when it
  reported failure.
\<close>

definition random_bytes :: "nat \<Rightarrow> bytes option \<Rightarrow> bytes res" where
  "random_bytes n draw =
     (if n = 0 then Inr []
      else case draw of None \<Rightarrow> Inl (Runtime_error ''RAND_bytes'') | Some b \<Rightarrow> Inr b)"

definition clamp :: "bytes \<Rightarrow> bytes" where
  "clamp priv = (let p = priv[0 := (priv ! 0) AND 248] in p[31 := ((p ! 31) AND 127) OR 64])"

definition generate_x25519_private :: "bytes option \<Rightarrow> bytes res" where
  "generate_x25519_private draw =
     (case random_bytes 32 draw of Inl e \<Rightarrow> Inl e | Inr priv \<Rightarrow> Inr (clamp priv))"

definition x25519_public :: "openssl \<Rightarrow> bytes \<Rightarrow> bytes res" where
  "x25519_public L priv =
     (if \<not> new_raw_private_key L priv then Inl (Runtime_error ''EVP_PKEY_new_raw_private_key'')
      else case get_raw_public_key L priv of
             None \<Rightarrow> Inl (Runtime_error ''EVP_PKEY_get_raw_public_key'')
           | Some p \<Rightarrow> if length p = 32 then Inr p
                       else Inl (Runtime_error ''EVP_PKEY_get_raw_public_key''))"

definition x25519_shared :: "openssl \<Rightarrow> bytes \<Rightarrow> bytes \<Rightarrow> bytes res" where
  "x25519_shared L priv pub =
     (if \<not> new_raw_private_key L priv \<or> \<not> new_raw_public_key L pub
      then Inl (Runtime_error ''x25519 key import'')
      else case pkey_derive L priv pub of
             None \<Rightarrow> Inl (Runtime_error ''x25519 derive'')
           | Some s \<Rightarrow> if length s = 32 then Inr s else Inl (Runtime_error ''x25519 derive''))"

section \<open>AEAD\<close>

definition aead_seal :: "openssl \<Rightarrow> bytes \<Rightarrow> bytes \<Rightarrow> bytes \<Rightarrow> bytes \<Rightarrow> bytes res" where
  "aead_seal L key nonce ad pt =
     (if length nonce \<noteq> 12 then Inl (Runtime_error ''chacha20poly1305 nonce must be 12 bytes'')
      else if \<not> cipher_ctx_new L then Inl (Runtime_error ''EVP_CIPHER_CTX_new'')
      else case chacha_encrypt L key nonce ad pt of
             None \<Rightarrow> Inl (Runtime_error ''aead_seal'')
           | Some (ct, tag) \<Rightarrow> Inr (ct @ tag))"

definition aead_open :: "openssl \<Rightarrow> bytes \<Rightarrow> bytes \<Rightarrow> bytes \<Rightarrow> bytes \<Rightarrow> bytes option" where
  "aead_open L key nonce ad ct =
     (if length nonce \<noteq> 12 \<or> length ct < 16 then None
      else if \<not> cipher_ctx_new L then None
      else let n = length ct - 16 in chacha_decrypt L key nonce ad (take n ct) (drop n ct))"

section \<open>Text codecs\<close>

definition kHex :: string where
  "kHex = ''0123456789abcdef''"

definition hex_encode :: "bytes \<Rightarrow> string" where
  "hex_encode bs = concat (map (\<lambda>b. [kHex ! unat (drop_bit 4 b), kHex ! unat (b AND 0x0f)]) bs)"

definition nibble :: "char \<Rightarrow> int" where
  "nibble c =
     (let n = (of_char c :: int) in
      if 48 \<le> n \<and> n \<le> 57 then n - 48
      else if 97 \<le> n \<and> n \<le> 102 then n - 97 + 10
      else if 65 \<le> n \<and> n \<le> 70 then n - 65 + 10
      else -1)"

text \<open>
  The loop writes into the caller's buffer as it goes: on a bad digit the octets already decoded
  stay written. \<open>hex_decode_loop\<close> returns the flag and the buffer.
\<close>

fun hex_decode_loop :: "string \<Rightarrow> bytes \<Rightarrow> bool \<times> bytes" where
  "hex_decode_loop hex [] = (True, [])"
| "hex_decode_loop (a # b # hex) (o1 # os) =
     (let hi = nibble a; lo = nibble b in
      if hi < 0 \<or> lo < 0 then (False, o1 # os)
      else let (ok, os') = hex_decode_loop hex os
           in (ok, (push_bit 4 (word_of_int hi) OR word_of_int lo) # os'))"
| "hex_decode_loop hex (o1 # os) = (False, o1 # os)"

definition hex_decode :: "string \<Rightarrow> bytes \<Rightarrow> bool \<times> bytes" where
  "hex_decode hex out =
     (if length hex \<noteq> length out * 2 then (False, out) else hex_decode_loop hex out)"

definition b64_encode :: "openssl \<Rightarrow> bytes \<Rightarrow> string" where
  "b64_encode L bs = (if bs = [] then [] else bio_b64_encode L bs)"

definition b64_decode :: "openssl \<Rightarrow> string \<Rightarrow> bytes res" where
  "b64_decode L s =
     (if s = [] then Inr []
      else case bio_b64_decode L s of
             None \<Rightarrow> Inl (Runtime_error ''base64 decode'') | Some b \<Rightarrow> Inr b)"

section \<open>Hexadecimal: lemmas\<close>

lemma nibble_kHex_all: "list_all (\<lambda>n. nibble (kHex ! n) = int n) [0..<16]"
  by code_simp

lemma nibble_kHex: "n < 16 \<Longrightarrow> nibble (kHex ! n) = int n"
  using nibble_kHex_all by (simp only: list_all_iff set_upt) simp

lemma unat_high_nibble: "unat (drop_bit 4 (b :: u8)) < 16"
proof -
  have "unat b < 256" using unsigned_less [of b, where ?'a = nat] by simp
  moreover have "unat (drop_bit 4 b) = unat b div 16"
    by (simp only: unat_drop_bit_eq) (simp add: drop_bit_eq_div)
  ultimately show ?thesis by simp
qed

lemma unat_low_nibble: "unat ((b :: u8) AND 0x0f) < 16"
proof -
  have "unat (take_bit 4 b) = take_bit 4 (unat b)" by (rule unsigned_take_bit_eq)
  then have "unat (b AND 0x0f) = unat b mod 16"
    using take_bit_eq_mask [of 4 b] take_bit_eq_mod [of 4 "unat b"]
    by (simp add: mask_eq_exp_minus_1)
  then show ?thesis by simp
qed

lemma nibbles_join:
  fixes b :: u8
  shows "push_bit 4 (drop_bit 4 b) OR (b AND 0x0f) = b"
proof -
  have "push_bit 4 (drop_bit 4 b) OR (b AND mask 4) = b"
    by (rule bit_word_eqI) (auto simp: bit_simps)
  then show ?thesis by (simp add: mask_eq_exp_minus_1)
qed

lemma hex_encode_Nil [simp]: "hex_encode [] = []"
  by (simp add: hex_encode_def)

lemma hex_encode_Cons [simp]:
  "hex_encode (b # bs) = kHex ! unat (drop_bit 4 b) # kHex ! unat (b AND 0x0f) # hex_encode bs"
  by (simp add: hex_encode_def)

lemma length_hex_encode [simp]: "length (hex_encode bs) = 2 * length bs"
  by (induction bs) auto

lemma hex_decode_loop_encode:
  "length out = length bs \<Longrightarrow> hex_decode_loop (hex_encode bs) out = (True, bs)"
proof (induction bs arbitrary: out)
  case (Cons b bs)
  then obtain o1 os where "out = o1 # os" and "length os = length bs"
    by (cases out) auto
  with Cons.IH [of os] show ?case
    by (simp add: nibble_kHex unat_high_nibble unat_low_nibble nibbles_join)
qed simp

lemma hex_decode_loop_length: "length (snd (hex_decode_loop hex out)) = length out"
  by (induction hex out rule: hex_decode_loop.induct) (auto simp: Let_def split: prod.splits)

subsection \<open>The codec contract\<close>

text \<open>
  What the key formatter and the snapshot code need of a codec that writes into a buffer of
  known size: it inverts the encoder, never resizes the buffer, and accepts only text of
  exactly twice the buffer's length.
\<close>

locale octet_codec =
  fixes enc :: "bytes \<Rightarrow> string"
    and dec :: "string \<Rightarrow> bytes \<Rightarrow> bool \<times> bytes"
  assumes dec_enc: "length out = length b \<Longrightarrow> dec (enc b) out = (True, b)"
    and dec_length: "length (snd (dec s out)) = length out"
    and dec_size: "fst (dec s out) \<Longrightarrow> length s = 2 * length out"
    and enc_length: "length (enc b) = 2 * length b"
begin

lemma enc_inject: "length a = length b \<Longrightarrow> enc a = enc b \<longleftrightarrow> a = b"
  by (metis dec_enc prod.inject)

lemma dec_wrong_size: "length s \<noteq> 2 * length out \<Longrightarrow> \<not> fst (dec s out)"
  using dec_size by blast

text \<open>Text carrying a fixed prefix, cut off before decoding.\<close>

lemma prefixed_roundtrip:
  "length out = length b \<Longrightarrow> dec (drop (length p) (p @ enc b)) out = (True, b)"
  by (simp add: dec_enc)

end

interpretation hex: octet_codec hex_encode hex_decode
proof unfold_locales
  fix out b :: bytes
  assume "length out = length b"
  then show "hex_decode (hex_encode b) out = (True, b)"
    by (simp add: hex_decode_def hex_decode_loop_encode)
next
  show "\<And>s out. length (snd (hex_decode s out)) = length out"
    by (simp add: hex_decode_def hex_decode_loop_length)
next
  show "\<And>s out. fst (hex_decode s out) \<Longrightarrow> length s = 2 * length out"
    by (auto simp: hex_decode_def split: if_splits)
qed simp

lemma hex_encode_set: "c \<in> set (hex_encode bs) \<Longrightarrow> c \<in> set kHex"
proof (induction bs)
  case (Cons b bs)
  moreover have "unat (drop_bit 4 b) < length kHex" "unat (b AND 0x0f) < length kHex"
    using unat_high_nibble [of b] unat_low_nibble [of b] by (simp_all add: kHex_def)
  ultimately show ?case by (auto intro: nth_mem)
qed simp

section \<open>Under the OpenSSL laws\<close>

lemma blake2s256_ok:
  assumes "openssl_laws L"
  shows "\<exists>d. blake2s256 L a b = Inr d \<and> length d = 32"
proof -
  let ?us = "if b = [] then [a] else [a, b]"
  obtain d where "digest_final L ?us = Some d" "length d = 32"
    using assms unfolding openssl_laws_def by blast
  moreover have "md_ctx_new L" "digest_updates L ?us"
    using assms unfolding openssl_laws_def by blast+
  ultimately show ?thesis by (auto simp: blake2s256_def Let_def)
qed

lemma hmac_blake2s_ok:
  assumes "openssl_laws L"
  shows "\<exists>d. hmac_blake2s L key data = Inr d \<and> length d = 32"
proof -
  have "\<exists>k. (if hmac_block < length key then blake2s256 L key [] else Inr key) = Inr k"
    using blake2s256_ok [OF assms, of key "[]"] by auto
  then obtain k where k: "(if hmac_block < length key then blake2s256 L key [] else Inr key) = Inr k" ..
  let ?kpad = "k @ replicate (hmac_block - length k) 0"
  obtain i where i: "blake2s256 L (map (\<lambda>x. x XOR 0x36) ?kpad @ data) [] = Inr i"
    using blake2s256_ok [OF assms] by blast
  show ?thesis
    using blake2s256_ok [OF assms, of "map (\<lambda>x. x XOR 0x5c) ?kpad @ i" "[]"] k i
    by (simp add: hmac_blake2s_def Let_def)
qed

text \<open>The output blocks T(1), T(2), ... of RFC 5869, with the counter as a number.\<close>

fun rfc5869_block :: "openssl \<Rightarrow> bytes \<Rightarrow> nat \<Rightarrow> bytes" where
  "rfc5869_block L prk 0 = []"
| "rfc5869_block L prk (Suc i) =
     projr (hmac_blake2s L prk (rfc5869_block L prk i @ [word_of_nat (Suc i)]))"

lemma hmac_rfc5869_block:
  assumes "openssl_laws L"
  shows "hmac_blake2s L prk (rfc5869_block L prk i @ [word_of_nat (Suc i)]) = Inr (rfc5869_block L prk (Suc i))"
    and "length (rfc5869_block L prk (Suc i)) = 32"
  using hmac_blake2s_ok [OF assms, of prk "rfc5869_block L prk i @ [word_of_nat (Suc i)]"]
  by (auto simp del: of_nat_Suc)

declare rfc5869_block.simps(2) [simp del]

lemma hkdf_loop_blocks:
  assumes "openssl_laws L"
  shows "\<exists>m. n \<le> 32 * m \<and> hkdf_loop L prk (rfc5869_block L prk i) (word_of_nat (Suc i)) n =
    Inr (take n (concat (map (rfc5869_block L prk) [Suc i..<Suc i + m])))"
proof (induction n arbitrary: i rule: less_induct)
  case (less n)
  let ?T = "rfc5869_block L prk"
  show ?case
  proof (cases "n = 0")
    case True
    then show ?thesis by (auto simp: hkdf_loop.simps [of _ _ _ _ 0] intro: exI [of _ 0])
  next
    case False
    obtain m where m: "n - min 32 n \<le> 32 * m"
      "hkdf_loop L prk (?T (Suc i)) (word_of_nat (Suc (Suc i))) (n - min 32 n) =
        Inr (take (n - min 32 n) (concat (map ?T [Suc (Suc i)..<Suc (Suc i) + m])))"
      using less.IH [of "n - min 32 n" "Suc i"] False by auto
    note T = hmac_rfc5869_block [OF assms, of prk i]
    have c: "word_of_nat (Suc i) + 1 = (word_of_nat (Suc (Suc i)) :: u8)" by simp
    have "hkdf_loop L prk (?T i) (word_of_nat (Suc i)) n =
        Inr (take (min 32 n) (?T (Suc i)) @ take (n - min 32 n) (concat (map ?T [Suc (Suc i)..<Suc (Suc i) + m])))"
      using False
      by (simp only: hkdf_loop.simps [of L prk "?T i" "word_of_nat (Suc i)" n] T(1) c m(2) if_False sum.case Let_def)
    also have "take (min 32 n) (?T (Suc i)) @ take (n - min 32 n) (concat (map ?T [Suc (Suc i)..<Suc (Suc i) + m])) =
        take n (concat (map ?T (Suc i # [Suc (Suc i)..<Suc (Suc i) + m])))"
      using T(2) by (cases "n \<le> 32") (simp_all add: min_def)
    also have "Suc i # [Suc (Suc i)..<Suc (Suc i) + m] = [Suc i..<Suc i + Suc m]"
      by (simp add: upt_conv_Cons del: upt_Suc)
    finally show ?thesis using m(1) by (intro exI [of _ "Suc m"]) auto
  qed
qed

lemma hkdf_blocks:
  assumes "openssl_laws L"
  shows "\<exists>prk m out. hmac_blake2s L salt ikm = Inr prk \<and> n \<le> 32 * m \<and>
    hkdf_blake2s L ikm salt n = Inr out \<and> length out = n \<and>
    out = take n (concat (map (rfc5869_block L prk) [1..<1 + m]))"
proof -
  obtain prk where prk: "hmac_blake2s L salt ikm = Inr prk" using hmac_blake2s_ok [OF assms] by blast
  obtain m where m: "n \<le> 32 * m" "hkdf_loop L prk [] 1 n =
      Inr (take n (concat (map (rfc5869_block L prk) [1..<1 + m])))"
    using hkdf_loop_blocks [OF assms, of n prk 0] by auto
  have "length (concat (map (rfc5869_block L prk) [1..<1 + m])) = 32 * m"
    using hmac_rfc5869_block(2) [OF assms, of prk]
    by (induction m) (simp_all add: length_concat)
  then show ?thesis using prk m by (auto simp: hkdf_blake2s_def)
qed

lemma hkdf_ok:
  assumes "openssl_laws L"
  shows "\<exists>out. hkdf_blake2s L ikm salt n = Inr out \<and> length out = n"
  using hkdf_blocks [OF assms] by blast

text \<open>
  C22: Key derivation is HKDF as RFC 5869 defines it: for every output length the result is that
  many octets of T(1), T(2), ..., where each block is the HMAC, under the extracted key, of the
  previous block followed by its number.
\<close>

theorem hkdf_is_rfc5869:
  assumes "openssl_laws L"
  shows "\<exists>prk m out. hmac_blake2s L salt ikm = Inr prk \<and> n \<le> 32 * m \<and>
    hkdf_blake2s L ikm salt n = Inr out \<and> length out = n \<and>
    out = take n (concat (map (rfc5869_block L prk) [1..<1 + m]))"
  by (rule hkdf_blocks [OF assms])

lemma length_clamp [simp]: "length (clamp p) = length p"
  by (simp add: clamp_def Let_def)

lemma generate_x25519_private_ok:
  "length d = 32 \<Longrightarrow> generate_x25519_private (Some d) = Inr (clamp d) \<and> length (clamp d) = 32"
  by (simp add: generate_x25519_private_def random_bytes_def)

lemma x25519_public_ok:
  assumes "openssl_laws L" "length a = 32"
  shows "\<exists>p. x25519_public L a = Inr p \<and> get_raw_public_key L a = Some p \<and> length p = 32"
proof -
  obtain p where "new_raw_private_key L a" "get_raw_public_key L a = Some p" "length p = 32"
    using assms unfolding openssl_laws_def by blast
  then show ?thesis by (simp add: x25519_public_def)
qed

lemma openssl_laws_derive:
  assumes "openssl_laws L" "length a = 32" "length b = 32"
    and "get_raw_public_key L a = Some p" "get_raw_public_key L b = Some q"
  shows "\<exists>s. pkey_derive L a q = Some s \<and> pkey_derive L b p = Some s \<and> length s = 32"
  using assms(1) unfolding openssl_laws_def using assms(2-5) by simp

lemma x25519_shared_agree:
  assumes "openssl_laws L" "length a = 32" "length b = 32"
    and "x25519_public L a = Inr p" "x25519_public L b = Inr q"
  shows "\<exists>s. x25519_shared L a q = Inr s \<and> x25519_shared L b p = Inr s"
proof -
  have p: "get_raw_public_key L a = Some p" "length p = 32"
    and q: "get_raw_public_key L b = Some q" "length q = 32"
    using x25519_public_ok [OF assms(1,2)] x25519_public_ok [OF assms(1,3)] assms(4,5) by auto
  have imp: "new_raw_private_key L a" "new_raw_private_key L b" "new_raw_public_key L p" "new_raw_public_key L q"
    using assms(1-3) p(2) q(2) unfolding openssl_laws_def by simp_all
  obtain s where "pkey_derive L a q = Some s" "pkey_derive L b p = Some s" "length s = 32"
    using openssl_laws_derive [OF assms(1-3) p(1) q(1)] by blast
  with imp show ?thesis by (simp add: x25519_shared_def)
qed

lemma aead_open_length:
  assumes "openssl_laws L" "aead_open L k n ad ct = Some pt"
  shows "length pt + 16 = length ct"
proof -
  have "length q = length c" if "chacha_decrypt L k n ad c tag = Some q" for c tag q
    using assms(1) that by (simp add: openssl_laws_def)
  then show ?thesis using assms(2) by (fastforce simp: aead_open_def Let_def split: if_splits)
qed

lemma aead_seal_open:
  assumes "openssl_laws L" "length k = 32" "length n = 12"
  shows "\<exists>c. aead_seal L k n ad pt = Inr c \<and> length c = length pt + 16 \<and> aead_open L k n ad c = Some pt"
proof -
  obtain ct tag where "chacha_encrypt L k n ad pt = Some (ct, tag)" "length ct = length pt"
    "length tag = 16" "chacha_decrypt L k n ad ct tag = Some pt"
    using assms unfolding openssl_laws_def by blast
  moreover have "cipher_ctx_new L" using assms(1) unfolding openssl_laws_def by blast
  ultimately show ?thesis using assms(3) by (simp add: aead_seal_def aead_open_def Let_def)
qed

section \<open>A reference instance\<close>

text \<open>
  Functions that satisfy the laws (with no cryptographic strength), to show that they can hold
  together: digests of constant length, a commutative exclusive-or as key agreement, and a
  constant tag.
\<close>

definition ref_openssl :: openssl where
  "ref_openssl =
     \<lparr>md_ctx_new = True, digest_updates = (\<lambda>_. True),
      digest_final = (\<lambda>us. Some (take 32 (concat us @ replicate 32 0))),
      new_raw_private_key = (\<lambda>_. True), new_raw_public_key = (\<lambda>_. True),
      get_raw_public_key = Some, pkey_derive = (\<lambda>a p. Some (map2 (XOR) a p)),
      cipher_ctx_new = True, chacha_encrypt = (\<lambda>k n ad pt. Some (pt, replicate 16 7)),
      chacha_decrypt = (\<lambda>k n ad ct tag. if tag = replicate 16 7 then Some ct else None),
      bio_b64_encode = string_of_bytes, bio_b64_decode = (\<lambda>s. Some (bytes_of_string s))\<rparr>"

lemma map2_xor_commute: "length a = length b \<Longrightarrow> map2 (XOR) a b = map2 (XOR) b (a :: bytes)"
  by (induction a b rule: list_induct2) (simp_all add: xor.commute)

lemma ref_openssl_laws: "openssl_laws ref_openssl"
  unfolding openssl_laws_def
proof (intro conjI allI impI)
  fix a b p q :: bytes
  assume "length a = 32" "length b = 32"
    "get_raw_public_key ref_openssl a = Some p" "get_raw_public_key ref_openssl b = Some q"
  then have "p = a" "q = b" by (simp_all add: ref_openssl_def)
  moreover have "map2 (XOR) b a = map2 (XOR) a b"
    using \<open>length a = 32\<close> \<open>length b = 32\<close> by (intro map2_xor_commute) simp
  moreover note \<open>length a = 32\<close> \<open>length b = 32\<close>
  ultimately show "\<exists>s. pkey_derive ref_openssl a q = Some s \<and> pkey_derive ref_openssl b p = Some s \<and> length s = 32"
    by (intro exI [of _ "map2 (XOR) a b"]) (simp add: ref_openssl_def)
next
  fix k n ad pt :: bytes
  show "\<exists>ct tag. chacha_encrypt ref_openssl k n ad pt = Some (ct, tag) \<and> length ct = length pt \<and>
      length tag = 16 \<and> chacha_decrypt ref_openssl k n ad ct tag = Some pt"
    by (intro exI [of _ pt] exI [of _ "replicate 16 7"]) (simp add: ref_openssl_def)
qed (auto simp: ref_openssl_def split: if_splits)

lemma ref_x25519_public: "x25519_public ref_openssl (replicate 32 a) = Inr (replicate 32 a)"
  by (simp add: x25519_public_def ref_openssl_def)

theorem hkdf_is_rfc5869_witness:
  "\<exists>prk m out. hmac_blake2s ref_openssl [1] [2] = Inr prk \<and> 64 \<le> 32 * m \<and>
    hkdf_blake2s ref_openssl [2] [1] 64 = Inr out \<and> length out = 64 \<and>
    out = take 64 (concat (map (rfc5869_block ref_openssl prk) [1..<1 + m]))"
  by (rule hkdf_is_rfc5869 [OF ref_openssl_laws])

end
