(* ===== verification/Keys.thy ===== *)
theory Keys
  imports Crypto
begin

text \<open>
  Model of \<^verbatim>\<open>src/src/keys.cpp\<close>: the textual form of machine, node and disco keys, a
  prefix that names the kind followed by 64 hexadecimal digits. The lemmas rest on the codec
  contract of theory \<open>Crypto\<close>, interpreted there for \<open>hex_encode\<close> and \<open>hex_decode\<close>.
\<close>

datatype KeyKind = Machine | Node | Disco

fun prefix_for :: "KeyKind \<Rightarrow> string" where
  "prefix_for Machine = ''mkey:''"
| "prefix_for Node = ''nodekey:''"
| "prefix_for Disco = ''discokey:''"

definition format_key :: "KeyKind \<Rightarrow> bytes \<Rightarrow> string" where
  "format_key kind raw = prefix_for kind @ hex_encode raw"

definition parse_key :: "KeyKind \<Rightarrow> string \<Rightarrow> bytes \<Rightarrow> bool \<times> bytes" where
  "parse_key kind text out =
     (let prefix = prefix_for kind in
      if length text < length prefix \<or> take (length prefix) text \<noteq> prefix then (False, out)
      else hex_decode (drop (length prefix) text) out)"

definition zero_machine_key :: string where
  "zero_machine_key = format_key Machine (replicate 32 0)"

lemma prefix_for_clash:
  "k \<noteq> k' \<Longrightarrow> take (length (prefix_for k')) (prefix_for k @ xs) \<noteq> prefix_for k'"
  by (cases k; cases k') (auto simp: take_Cons')

lemma format_key_inject:
  assumes "length a = length b"
  shows "format_key k a = format_key k' b \<longleftrightarrow> k = k' \<and> a = b"
proof
  assume eq: "format_key k a = format_key k' b"
  then have "take (length (prefix_for k')) (prefix_for k @ hex_encode a) = prefix_for k'"
    by (simp add: format_key_def)
  then have "k = k'" using prefix_for_clash by blast
  with eq assms show "k = k' \<and> a = b" by (simp add: format_key_def hex.enc_inject)
qed simp

text \<open>
  A key that was formatted is parsed back exactly, for every kind and every 32-octet value,
  and text of one kind is rejected by the parser of any other kind without touching the caller's
  buffer.
\<close>

theorem parse_format_key:
  assumes "length raw = 32" and "length out = 32"
  shows "parse_key k' (format_key k raw) out = (if k = k' then (True, raw) else (False, out))"
proof (cases "k = k'")
  case True
  with assms show ?thesis
    using hex.prefixed_roundtrip [of out raw "prefix_for k'"]
    by (simp add: parse_key_def format_key_def)
next
  case False
  then show ?thesis
    using prefix_for_clash [OF False, of "hex_encode raw"]
    by (simp add: parse_key_def format_key_def Let_def)
qed

theorem parse_format_key_witness:
  "parse_key Node (format_key Machine (replicate 32 0xab)) (replicate 32 1) = (False, replicate 32 1)
   \<and> parse_key Machine (format_key Machine (replicate 32 0xab)) (replicate 32 1)
       = (True, replicate 32 0xab)"
  using parse_format_key [of "replicate 32 0xab" "replicate 32 1" Node Machine]
    parse_format_key [of "replicate 32 0xab" "replicate 32 1" Machine Machine]
  by simp

end
