(* ===== verification/Ip_Alloc.thy ===== *)
theory Ip_Alloc
  imports Prelude
begin

text \<open>
  Model of \<^verbatim>\<open>src/src/ip_alloc.cpp\<close>. The dotted-quad text conversions
  \<^verbatim>\<open>inet_pton(AF_INET)\<close> and \<^verbatim>\<open>inet_ntop(AF_INET)\<close> of the C library are written
  out; their IPv6 counterparts are the two functions of the record \<open>inet6\<close>, an argument of
  the definitions that call them. A shift by the full width of an \<^verbatim>\<open>unsigned\<close>, which the
  constructor performs for a prefix length of zero, is undefined behaviour in C++ and is the
  outcome \<open>Undefined_behaviour\<close> here.
\<close>

section \<open>Address text\<close>

record inet6 =
  inet_pton6 :: "string \<Rightarrow> bytes option"
  inet_ntop6 :: "bytes \<Rightarrow> string"

text \<open>
  RFC 4291 text form: printing a 16-octet address and reading it back is the identity, and
  whatever is read has 16 octets.
\<close>

definition inet6_laws :: "inet6 \<Rightarrow> bool" where
  "inet6_laws N \<longleftrightarrow>
     (\<forall>a. length a = 16 \<longrightarrow> inet_pton6 N (inet_ntop6 N a) = Some a) \<and>
     (\<forall>s a. inet_pton6 N s = Some a \<longrightarrow> length a = 16)"

text \<open>
  One field of a dotted quad: digits only, no superfluous leading zero, at most 255.
\<close>

definition inet_octet :: "string \<Rightarrow> u8 option" where
  "inet_octet s =
     (if s \<noteq> [] \<and> list_all is_digit s \<and> (hd s = CHR ''0'' \<longrightarrow> length s = 1) \<and> dec_value 0 s \<le> 255
      then Some (word_of_nat (dec_value 0 s)) else None)"

text \<open>The C string ends at the first NUL; the four octets come back in memory order.\<close>

definition inet_pton4 :: "string \<Rightarrow> bytes option" where
  "inet_pton4 str =
     (let s = takeWhile (\<lambda>c. c \<noteq> CHR 0x00) str in
      case split_first CHR ''.'' s of None \<Rightarrow> None | Some (a, s1) \<Rightarrow>
      case split_first CHR ''.'' s1 of None \<Rightarrow> None | Some (b, s2) \<Rightarrow>
      case split_first CHR ''.'' s2 of None \<Rightarrow> None | Some (c, d) \<Rightarrow>
      case (inet_octet a, inet_octet b, inet_octet c, inet_octet d) of
        (Some w, Some x, Some y, Some z) \<Rightarrow> Some [w, x, y, z]
      | _ \<Rightarrow> None)"

definition inet_ntop4 :: "u8 \<Rightarrow> u8 \<Rightarrow> u8 \<Rightarrow> u8 \<Rightarrow> string" where
  "inet_ntop4 a b c d =
     to_string (unat a) @ ''.'' @ to_string (unat b) @ ''.'' @
     to_string (unat c) @ ''.'' @ to_string (unat d)"

definition ntohl :: "bytes \<Rightarrow> u32" where
  "ntohl bs = get_be32 (bs ! 0) (bs ! 1) (bs ! 2) (bs ! 3)"

section \<open>The allocator\<close>

record IpAllocator =
  ipv4_cidr :: string
  ipv6_cidr :: string
  ipv4_base :: u32
  ipv4_prefix :: int
  ipv4_hosts :: u32
  ipv6_base :: bytes
  ipv6_prefix :: int

text \<open>\<^verbatim>\<open>Inr None\<close> is the return value \<^verbatim>\<open>false\<close>; \<^verbatim>\<open>std::stoi\<close> may throw.\<close>

definition parse_cidr :: "string \<Rightarrow> (bytes \<times> int) option res" where
  "parse_cidr cidr =
     (case split_first CHR ''/'' cidr of
        None \<Rightarrow> Inr None
      | Some (ip, rest) \<Rightarrow>
          (case stoi rest of
             Inl e \<Rightarrow> Inl e
           | Inr prefix \<Rightarrow>
               if prefix < 0 \<or> 32 < prefix then Inr None
               else Inr (map_option (\<lambda>a. (a, prefix)) (inet_pton4 ip))))"

definition parse_cidr6 :: "inet6 \<Rightarrow> string \<Rightarrow> (bytes \<times> int) option res" where
  "parse_cidr6 N cidr =
     (case split_first CHR ''/'' cidr of
        None \<Rightarrow> Inr None
      | Some (ip, rest) \<Rightarrow>
          (case stoi rest of
             Inl e \<Rightarrow> Inl e
           | Inr prefix \<Rightarrow>
               if prefix < 0 \<or> 128 < prefix then Inr None
               else Inr (map_option (\<lambda>a. (a, prefix))
                           (inet_pton6 N (takeWhile (\<lambda>c. c \<noteq> CHR 0x00) ip)))))"

definition ipv4_to_string :: "u32 \<Rightarrow> string" where
  "ipv4_to_string h =
     inet_ntop4 (ucast (drop_bit 24 h)) (ucast (drop_bit 16 h)) (ucast (drop_bit 8 h)) (ucast h)"

definition ipv6_to_string :: "inet6 \<Rightarrow> bytes \<Rightarrow> string" where
  "ipv6_to_string N raw = inet_ntop6 N raw"

definition ipv4_mask :: "int \<Rightarrow> u32" where
  "ipv4_mask prefix = (if prefix = 0 then 0 else push_bit (nat (32 - prefix)) (- 1))"

definition ipv4_host_count :: "int \<Rightarrow> u32" where
  "ipv4_host_count prefix =
     (if 32 \<le> prefix then 0 else push_bit (nat (32 - prefix)) 1 - 1)"

definition new_IpAllocator :: "inet6 \<Rightarrow> string \<Rightarrow> string \<Rightarrow> IpAllocator res" where
  "new_IpAllocator N v4 v6 =
     (case parse_cidr v4 of
        Inl e \<Rightarrow> Inl e
      | Inr None \<Rightarrow> Inl (Runtime_error (''invalid ipv4 prefix: '' @ v4))
      | Inr (Some (a4, prefix)) \<Rightarrow>
          if prefix = 0 then Inl Undefined_behaviour
          else
            (case parse_cidr6 N v6 of
               Inl e \<Rightarrow> Inl e
             | Inr None \<Rightarrow> Inl (Runtime_error (''invalid ipv6 prefix: '' @ v6))
             | Inr (Some (a6, prefix6)) \<Rightarrow>
                 Inr \<lparr>ipv4_cidr = v4, ipv6_cidr = v6,
                      ipv4_base = ntohl a4 AND ipv4_mask prefix,
                      ipv4_prefix = prefix,
                      ipv4_hosts = ipv4_host_count prefix,
                      ipv6_base = a6, ipv6_prefix = prefix6\<rparr>))"

definition max_index :: "IpAllocator \<Rightarrow> u32" where
  "max_index A = ipv4_hosts A"

definition address_for :: "inet6 \<Rightarrow> IpAllocator \<Rightarrow> u32 \<Rightarrow> (string \<times> string) res" where
  "address_for N A index =
     (if index = 0 \<or> ipv4_hosts A < index then Inl (Runtime_error ''ip index out of range'')
      else
        let v4 = ipv4_to_string (ipv4_base A + index);
            v6 = (ipv6_base A)[12 := ucast (drop_bit 24 index), 13 := ucast (drop_bit 16 index),
                                14 := ucast (drop_bit 8 index), 15 := ucast index]
        in Inr (v4, ipv6_to_string N v6))"

section \<open>Dotted quads: lemmas\<close>

lemma to_string_hd_zero: "hd (to_string n) = CHR ''0'' \<Longrightarrow> n = 0"
proof (induction n rule: to_string.induct)
  case (1 n)
  show ?case
  proof (cases "n < 10")
    case True
    with "1.prems" have "digit_val (digit_char n) = 0"
      by (simp add: to_string_small digit_val_def)
    with True show ?thesis by (simp add: digit_char_props)
  next
    case False
    with "1.prems" have "hd (to_string (n div 10)) = CHR ''0''" by (simp add: to_string_big)
    with "1.IH" False have "n div 10 = 0" by simp
    with False show ?thesis by simp
  qed
qed

lemma inet_octet_to_string [simp]: "inet_octet (to_string (unat (a :: u8))) = Some a"
proof -
  have bound: "unat a \<le> 255" using unsigned_less [of a, where ?'a = nat] by simp
  have "list_all is_digit (to_string (unat a))"
    by (auto simp: list_all_iff dest: to_string_digits)
  moreover have "hd (to_string (unat a)) = CHR ''0'' \<longrightarrow> length (to_string (unat a)) = 1"
    by (auto dest: to_string_hd_zero simp: to_string_small)
  ultimately show ?thesis using bound by (simp add: inet_octet_def)
qed

lemma to_string_no_dot: "CHR ''.'' \<notin> set (to_string n)"
  using to_string_digits is_digit_not_sign(3) by blast

lemma to_string_no_nul: "c \<in> set (to_string n) \<Longrightarrow> c \<noteq> CHR 0x00"
  by (auto dest!: to_string_digits simp: is_digit_def)

lemma inet_ntop4_no_nul: "takeWhile (\<lambda>c. c \<noteq> CHR 0x00) (inet_ntop4 a b c d) = inet_ntop4 a b c d"
  by (auto simp: takeWhile_eq_all_conv inet_ntop4_def dest: to_string_no_nul)

lemma inet_pton4_ntop4 [simp]: "inet_pton4 (inet_ntop4 a b c d) = Some [a, b, c, d]"
proof -
  have "split_first CHR ''.'' (inet_ntop4 a b c d) =
      Some (to_string (unat a),
        to_string (unat b) @ CHR ''.'' # to_string (unat c) @ CHR ''.'' # to_string (unat d))"
    unfolding inet_ntop4_def using split_first_append [OF to_string_no_dot] by simp
  then show ?thesis
    unfolding inet_pton4_def Let_def inet_ntop4_no_nul
    using split_first_append [OF to_string_no_dot] by simp
qed

lemma inet_pton4_ipv4_to_string [simp]: "inet_pton4 (ipv4_to_string h) = Some (put_be32 h)"
  by (simp add: ipv4_to_string_def put_be32_def)

lemma ntohl_put_be32 [simp]: "ntohl (put_be32 h) = h"
  by (simp add: ntohl_def put_be32_def get_be32_put)

lemma ipv4_to_string_inject [simp]: "ipv4_to_string a = ipv4_to_string b \<longleftrightarrow> a = b"
  by (metis inet_pton4_ipv4_to_string ntohl_put_be32 option.inject)

section \<open>The pool contract\<close>

text \<open>
  What the registry relies on: only indices from 1 up to the capacity have an address, all of
  them do, and an address belongs to a single index.
\<close>

locale address_pool =
  fixes addr :: "u32 \<Rightarrow> (string \<times> string) res"
    and capacity :: u32
  assumes addr_defined: "0 < i \<Longrightarrow> i \<le> capacity \<Longrightarrow> \<exists>p. addr i = Inr p"
    and addr_range: "addr i = Inr p \<Longrightarrow> 0 < i \<and> i \<le> capacity"
    and addr_unique: "addr i = Inr p \<Longrightarrow> addr j = Inr q \<Longrightarrow> fst p = fst q \<Longrightarrow> i = j"
begin

lemma addr_exhausted: "capacity < i \<Longrightarrow> \<exists>e. addr i = Inl e"
  using addr_range by (cases "addr i") force+

text \<open>An index above all those handed out gives an address nobody holds.\<close>

lemma addr_fresh:
  assumes "\<And>x. x \<in> set held \<Longrightarrow> \<exists>i < next. \<exists>p. addr i = Inr p \<and> fst p = x"
    and "addr next = Inr q"
  shows "fst q \<notin> set held"
proof
  assume "fst q \<in> set held"
  then obtain i p where "i < next" "addr i = Inr p" "fst p = fst q" using assms(1) by blast
  then have "i = next" using addr_unique assms(2) by blast
  with \<open>i < next\<close> show False by simp
qed

end

interpretation pool: address_pool "address_for N A" "ipv4_hosts A" for N A
proof unfold_locales
  fix i :: u32
  assume "0 < i" "i \<le> ipv4_hosts A"
  then show "\<exists>p. address_for N A i = Inr p" by (auto simp: address_for_def Let_def not_less)
next
  fix i :: u32 and p
  assume "address_for N A i = Inr p"
  then show "0 < i \<and> i \<le> ipv4_hosts A"
    by (auto simp: address_for_def Let_def word_gt_0 split: if_splits)
next
  fix i j :: u32 and p q
  assume "address_for N A i = Inr p" "address_for N A j = Inr q" "fst p = fst q"
  then show "i = j" by (auto simp: address_for_def Let_def split: if_splits)
qed

section \<open>Addresses stay inside the configured network\<close>

lemma bit_ipv4_mask:
  "0 < p \<Longrightarrow> p \<le> 32 \<Longrightarrow> n < 32 \<Longrightarrow> bit (ipv4_mask p) n \<longleftrightarrow> nat (32 - p) \<le> n"
  by (auto simp: ipv4_mask_def bit_simps)

lemma ipv4_host_count_mask: "0 < p \<Longrightarrow> p \<le> 32 \<Longrightarrow> ipv4_host_count p = mask (nat (32 - p))"
  by (auto simp: ipv4_host_count_def mask_eq_exp_minus_1 push_bit_eq_mult)

lemma unat_mask32:
  assumes "k \<le> 32"
  shows "unat (mask k :: u32) = 2 ^ k - 1"
proof -
  have "(2 :: nat) ^ k \<le> 2 ^ 32" using assms by (intro power_increasing) auto
  then have "(mask k :: nat) < 2 ^ 32"
    by (simp add: mask_eq_exp_minus_1 less_eq_Suc_le [symmetric])
  then have "unat (word_of_nat (mask k) :: u32) = mask k" by (simp add: unat_of_nat)
  then show ?thesis by (simp add: of_nat_mask_eq mask_eq_exp_minus_1)
qed

lemma le_mask_no_high_bit:
  fixes i :: u32
  assumes "i \<le> mask k" "k \<le> 32" "bit i n"
  shows "n < k"
proof (rule ccontr)
  assume "\<not> n < k"
  have "unat i \<le> 2 ^ k - 1"
    using assms(1) by (simp only: word_le_nat_alt unat_mask32 [OF assms(2)])
  then have "unat i < 2 ^ k" by (simp add: le_imp_less_Suc less_eq_Suc_le Suc_leI le_diff_conv2)
  also have "(2 :: nat) ^ k \<le> 2 ^ n" using \<open>\<not> n < k\<close> by (intro power_increasing) auto
  finally have "\<not> bit (unat i) n" by (simp add: bit_iff_odd)
  with assms(3) show False by (simp add: bit_unsigned_iff)
qed

lemma host_in_network:
  fixes x i :: u32
  assumes p: "0 < p" "p \<le> 32" and i: "i \<le> ipv4_host_count p"
  defines "base \<equiv> x AND ipv4_mask p"
  shows "base + i = base OR i"
proof -
  let ?k = "nat (32 - p)"
  have k: "?k \<le> 32" using p by simp
  have hi: "bit i n \<Longrightarrow> n < ?k" for n
    using le_mask_no_high_bit [OF _ k] i p by (simp add: ipv4_host_count_mask)
  have lo: "bit base n \<Longrightarrow> ?k \<le> n" for n
    using p bit_imp_le_length [of base n] by (auto simp: base_def bit_and_iff bit_ipv4_mask)
  have "base AND i = 0"
    by (rule bit_word_eqI) (use hi lo in \<open>fastforce simp: bit_simps\<close>)
  then show "base + i = base OR i" by (rule disjunctive_add_eq_or)
qed

lemma parse_cidr_prefix: "parse_cidr c = Inr (Some (a, p)) \<Longrightarrow> 0 \<le> p \<and> p \<le> 32"
  by (auto simp: parse_cidr_def split: option.splits sum.splits if_splits)

lemma new_IpAllocator_parsed:
  assumes "new_IpAllocator N v4 v6 = Inr A"
  obtains a p a6 p6 where "parse_cidr v4 = Inr (Some (a, p))" "0 < p" "p \<le> 32"
    "parse_cidr6 N v6 = Inr (Some (a6, p6))" "ipv4_base A = ntohl a AND ipv4_mask p"
    "ipv4_hosts A = ipv4_host_count p" "ipv6_base A = a6"
  using assms parse_cidr_prefix [of v4]
  by (fastforce simp: new_IpAllocator_def split: sum.splits option.splits if_splits prod.splits)

lemma parse_cidr6_octets: "inet6_laws N \<Longrightarrow> parse_cidr6 N c = Inr (Some (a, p)) \<Longrightarrow> length a = 16"
  by (auto simp: parse_cidr6_def inet6_laws_def split: option.splits sum.splits if_splits)

lemma host_octets:
  assumes "length (a :: bytes) = 16"
  shows "a[12 := ucast (drop_bit 24 i), 13 := ucast (drop_bit 16 i), 14 := ucast (drop_bit 8 i), 15 := ucast (i :: u32)] =
    take 12 a @ put_be32 i"
  by (rule nth_equalityI) (use assms in \<open>auto simp: put_be32_def nth_append nth_list_update nth_Cons' less_Suc_eq\<close>)

text \<open>
  What masking means in numbers: the base agrees with the configured address in its quotient by
  the size of the network and has no remainder.
\<close>

lemma network_number:
  fixes x i :: u32
  assumes p: "0 < p" "p \<le> 32" and i: "i \<le> ipv4_host_count p"
  defines "h \<equiv> (x AND ipv4_mask p) + i" and "n \<equiv> (2 :: nat) ^ nat (32 - p)"
  shows "unat h div n = unat x div n" and "unat h mod n = unat i"
proof -
  let ?k = "nat (32 - p)"
  have k: "?k \<le> 32" using p by simp
  have hi: "bit i m \<Longrightarrow> m < ?k" for m
    using le_mask_no_high_bit [OF _ k] i p by (simp add: ipv4_host_count_mask)
  have h: "h = (x AND ipv4_mask p) OR i" unfolding h_def by (rule host_in_network [OF p i])
  have len: "bit (y :: u32) m \<Longrightarrow> m < 32" for y m using bit_imp_le_length [of y m] by simp
  have "drop_bit ?k h = drop_bit ?k x"
    by (rule bit_word_eqI) (use p in \<open>auto simp: h bit_simps bit_ipv4_mask dest: hi len\<close>)
  then have "unat (drop_bit ?k h) = unat (drop_bit ?k x)" by simp
  then show "unat h div n = unat x div n"
    by (simp add: n_def unat_drop_bit_eq flip: drop_bit_eq_div)
  have "take_bit ?k h = i"
    by (rule bit_word_eqI) (use p in \<open>auto simp: h bit_simps bit_ipv4_mask dest: hi\<close>)
  then have "unat (take_bit ?k h) = unat i" by simp
  then show "unat h mod n = unat i"
    by (simp add: n_def unsigned_take_bit_eq flip: take_bit_eq_mod)
qed

lemma host_count_bound:
  fixes i :: u32
  assumes "0 < p" "p \<le> 32"
  shows "i \<le> ipv4_host_count p \<longleftrightarrow> unat i < 2 ^ nat (32 - p)"
proof -
  have "nat (32 - p) \<le> 32" using assms by simp
  then have "unat (ipv4_host_count p) = 2 ^ nat (32 - p) - 1"
    using assms by (simp only: ipv4_host_count_mask unat_mask32)
  moreover have "0 < n \<Longrightarrow> m \<le> n - 1 \<longleftrightarrow> m < n" for m n :: nat by auto
  ultimately show ?thesis by (simp add: word_le_nat_alt)
qed

text \<open>
  C25: For an allocator built from two CIDR strings, an index is given addresses exactly when it is
  a host number of the configured IPv4 network: positive and below the size of the network. The
  IPv4 text then reads back as an address of that network (same quotient by the network's size as
  the configured address) whose host number is the index, and the IPv6 text reads back as the
  first twelve octets of the configured IPv6 address followed by the index; it therefore lies in
  the configured IPv6 network when that has a prefix of at most 96 bits, which the code does not
  check.
\<close>

theorem address_for_in_network:
  assumes N: "inet6_laws N" and A: "new_IpAllocator N v4 v6 = Inr A"
  shows "\<exists>a p a6 p6. parse_cidr v4 = Inr (Some (a, p)) \<and> parse_cidr6 N v6 = Inr (Some (a6, p6)) \<and>
     ((\<exists>t. address_for N A i = Inr t) \<longleftrightarrow> 0 < unat i \<and> unat i < 2 ^ nat (32 - p)) \<and>
     (\<forall>t4 t6. address_for N A i = Inr (t4, t6) \<longrightarrow>
       (\<exists>h. inet_pton4 t4 = Some (put_be32 h) \<and>
          unat h div 2 ^ nat (32 - p) = unat (ntohl a) div 2 ^ nat (32 - p) \<and>
          unat h mod 2 ^ nat (32 - p) = unat i) \<and>
       inet_pton6 N t6 = Some (take 12 a6 @ put_be32 i))"
proof -
  obtain a p a6 p6 where c: "parse_cidr v4 = Inr (Some (a, p))" "0 < p" "p \<le> 32"
    "parse_cidr6 N v6 = Inr (Some (a6, p6))" "ipv4_base A = ntohl a AND ipv4_mask p"
    "ipv4_hosts A = ipv4_host_count p" "ipv6_base A = a6"
    using new_IpAllocator_parsed [OF A] by blast
  have dom: "(\<exists>t. address_for N A i = Inr t) \<longleftrightarrow> 0 < unat i \<and> unat i < 2 ^ nat (32 - p)"
    using pool.addr_defined [of i A N] pool.addr_range [of N A i] host_count_bound [OF c(2,3), of i]
    by (auto simp: c(6) unat_gt_0 word_gt_0)
  have l: "length a6 = 16" using N parse_cidr6_octets [OF N c(4)] by simp
  have addresses: "(\<exists>h. inet_pton4 t4 = Some (put_be32 h) \<and> unat h div 2 ^ nat (32 - p) = unat (ntohl a) div 2 ^ nat (32 - p) \<and>
       unat h mod 2 ^ nat (32 - p) = unat i) \<and> inet_pton6 N t6 = Some (take 12 a6 @ put_be32 i)"
    if "address_for N A i = Inr (t4, t6)" for t4 t6
  proof -
    have "i \<le> ipv4_host_count p" using pool.addr_range [OF that] by (simp add: c(6))
    note net = network_number [OF c(2,3) this, of "ntohl a"]
    have t: "t4 = ipv4_to_string (ipv4_base A + i)" "t6 = inet_ntop6 N (take 12 a6 @ put_be32 i)"
      using that l by (auto simp: address_for_def Let_def ipv6_to_string_def c(7) host_octets split: if_splits)
    show ?thesis using net t l N by (auto simp: c(5) inet6_laws_def put_be32_def)
  qed
  show ?thesis using c(1,4) dom addresses by blast
qed

definition hex_inet6 :: inet6 where
  "hex_inet6 = \<lparr>inet_pton6 = (\<lambda>s. if length s = 16 then Some (bytes_of_string s) else None), inet_ntop6 = string_of_bytes\<rparr>"

lemma hex_inet6_laws: "inet6_laws hex_inet6"
  by (auto simp: inet6_laws_def hex_inet6_def)

definition cgnat :: IpAllocator where
  "cgnat = \<lparr>ipv4_cidr = ''100.64.0.0/16'', ipv6_cidr = ''fd7a:115c:a1e0::/48'',
     ipv4_base = 0x64400000, ipv4_prefix = 16, ipv4_hosts = 0xffff,
     ipv6_base = bytes_of_string ''fd7a:115c:a1e0::'', ipv6_prefix = 48\<rparr>"

lemma new_cgnat: "new_IpAllocator hex_inet6 ''100.64.0.0/16'' ''fd7a:115c:a1e0::/48'' = Inr cgnat"
  by code_simp

theorem address_for_in_network_witness:
  "\<exists>t4 t6 h. address_for hex_inet6 cgnat 300 = Inr (t4, t6) \<and> inet_pton4 t4 = Some (put_be32 h) \<and>
     unat h div 2 ^ 16 = unat (0x64400000 :: u32) div 2 ^ 16 \<and> unat h mod 2 ^ 16 = 300 \<and>
     inet_pton6 hex_inet6 t6 = Some (bytes_of_string ''fd7a:115c:a1'' @ [0, 0, 1, 44])"
proof -
  have v4: "parse_cidr ''100.64.0.0/16'' = Inr (Some ([100, 64, 0, 0], 16))" by code_simp
  have v6: "parse_cidr6 hex_inet6 ''fd7a:115c:a1e0::/48'' = Inr (Some (bytes_of_string ''fd7a:115c:a1e0::'', 48))"
    by code_simp
  have o: "ntohl [100, 64, 0, 0] = 0x64400000" "put_be32 300 = [0, 0, 1, 44]" "unat (300 :: u32) = 300"
    "take 12 (bytes_of_string ''fd7a:115c:a1e0::'') = bytes_of_string ''fd7a:115c:a1''"
    by code_simp+
  have n: "nat (32 - 16) = 16" "(300 :: nat) < 2 ^ 16" by simp_all
  show ?thesis
    using address_for_in_network [OF hex_inet6_laws new_cgnat, of 300] n
    unfolding v4 v6 by (auto simp only: sum.inject option.inject prod.inject o n simp_thms split_paired_Ex) blast
qed

lemma address_for_cgnat_1: "map_sum id fst (address_for hex_inet6 cgnat 1) = Inr ''100.64.0.1''"
  by code_simp

text \<open>
  The allocator hands out an address for exactly the indices 1 to the host count, and two
  different indices never share an IPv4 text nor, with a faithful IPv6 printer and a 16-octet
  base, an IPv6 text.
\<close>

theorem address_for_unique:
  assumes "inet6_laws N" and "length (ipv6_base A) = 16"
  shows "((\<exists>p. address_for N A i = Inr p) \<longleftrightarrow> 0 < i \<and> i \<le> ipv4_hosts A) \<and>
    (\<forall>p q. i \<noteq> j \<longrightarrow> address_for N A i = Inr p \<longrightarrow> address_for N A j = Inr q \<longrightarrow>
       fst p \<noteq> fst q \<and> snd p \<noteq> snd q)"
proof (intro conjI allI impI iffI)
  show "\<exists>p. address_for N A i = Inr p \<Longrightarrow> 0 < i" "\<exists>p. address_for N A i = Inr p \<Longrightarrow> i \<le> ipv4_hosts A"
    using pool.addr_range by blast+
  show "0 < i \<and> i \<le> ipv4_hosts A \<Longrightarrow> \<exists>p. address_for N A i = Inr p"
    using pool.addr_defined by blast
  fix p q
  assume ne: "i \<noteq> j" and pi: "address_for N A i = Inr p" and pj: "address_for N A j = Inr q"
  show "fst p \<noteq> fst q" using ne pool.addr_unique [OF pi pj] by blast
  let ?v6 = "\<lambda>k. (ipv6_base A)[12 := ucast (drop_bit 24 k), 13 := ucast (drop_bit 16 k),
     14 := ucast (drop_bit 8 k), 15 := ucast (k :: u32)] :: bytes"
  have v6: "snd p = inet_ntop6 N (?v6 i)" "snd q = inet_ntop6 N (?v6 j)"
    using pi pj by (auto simp: address_for_def Let_def ipv6_to_string_def split: if_splits)
  have tail: "get_be32 (?v6 k ! 12) (?v6 k ! 13) (?v6 k ! 14) (?v6 k ! 15) = k" for k
    using assms(2) by (simp add: get_be32_put)
  show "snd p \<noteq> snd q"
  proof
    assume "snd p = snd q"
    then have "inet_pton6 N (inet_ntop6 N (?v6 i)) = inet_pton6 N (inet_ntop6 N (?v6 j))"
      by (simp add: v6)
    then have "?v6 i = ?v6 j" using assms by (simp add: inet6_laws_def)
    with tail [of i] tail [of j] have "i = j" by metis
    with ne show False ..
  qed
qed

theorem address_for_unique_witness:
  "\<exists>p q. address_for hex_inet6 cgnat 7 = Inr p \<and> address_for hex_inet6 cgnat 8 = Inr q \<and>
     fst p \<noteq> fst q \<and> snd p \<noteq> snd q"
proof -
  have l: "length (ipv6_base cgnat) = 16" by (simp add: cgnat_def)
  have h: "(7 :: u32) \<le> ipv4_hosts cgnat" "(8 :: u32) \<le> ipv4_hosts cgnat" by (simp_all add: cgnat_def)
  obtain p where p: "address_for hex_inet6 cgnat 7 = Inr p"
    using pool.addr_defined [OF _ h(1), of hex_inet6] by auto
  obtain q where q: "address_for hex_inet6 cgnat 8 = Inr q"
    using pool.addr_defined [OF _ h(2), of hex_inet6] by auto
  have "(7 :: u32) \<noteq> 8" by simp
  then show ?thesis
    using p q address_for_unique [OF hex_inet6_laws l, of 7 8] by blast
qed

end
