(* ===== verification/Json.thy ===== *)
theory Json
  imports Prelude "HOL-Library.Countable" "HOL-Library.Finite_Map" "HOL-Library.Char_ord" "HOL-Library.List_Lexorder"
begin

text \<open>
  The JSON values the program builds and inspects. The library nlohmann/json is fetched at build
  time and is not part of the repository: text parsing, text printing and the typed conversions
  \<^verbatim>\<open>get<T>()\<close> are the fields of the record \<open>nlohmann\<close>, an argument of the definitions
  that use them, with their documented behaviour in \<open>nl_laws\<close>. The value type itself is the
  JSON data model; an object is a finite map, since the library keeps it in a \<^verbatim>\<open>std::map\<close>.
\<close>

datatype json =
    JNull
  | JBool bool
  | JInt int
  | JFloat u64
  | JStr string
  | JArr "json list"
  | JObj "(string, json) fmap"

record nlohmann =
  nl_parse :: "string \<Rightarrow> json option"
  nl_read :: "string \<Rightarrow> json option"
  nl_dump :: "json \<Rightarrow> string option"
  nl_dump2 :: "json \<Rightarrow> string option"
  nl_get_string :: "json \<Rightarrow> string option"
  nl_get_bool :: "json \<Rightarrow> bool option"
  nl_get_int :: "json \<Rightarrow> u32 option"
  nl_get_strings :: "json \<Rightarrow> string list option"

text \<open>
  Typed conversions return the value when the JSON type matches and throw
  \<^verbatim>\<open>type_error.302\<close> (here \<^const>\<open>None\<close>) when a string or a Boolean is asked of another
  type. A number in the range of \<^verbatim>\<open>int\<close> converts to that \<^verbatim>\<open>int\<close>; the result of
  the conversion is a 32-bit value in any case.
\<close>

definition nl_laws :: "nlohmann \<Rightarrow> bool" where
  "nl_laws J \<longleftrightarrow>
     (\<forall>s. nl_get_string J (JStr s) = Some s) \<and>
     (\<forall>j. (\<forall>s. j \<noteq> JStr s) \<longrightarrow> nl_get_string J j = None) \<and>
     (\<forall>b. nl_get_bool J (JBool b) = Some b) \<and>
     (\<forall>j. (\<forall>b. j \<noteq> JBool b) \<longrightarrow> nl_get_bool J j = None) \<and>
     (\<forall>i. - (2 ^ 31) \<le> i \<and> i < 2 ^ 31 \<longrightarrow> nl_get_int J (JInt i) = Some (word_of_int i)) \<and>
     (\<forall>ss. nl_get_strings J (JArr (map JStr ss)) = Some ss)"

lemma nl_lawsD [simp]:
  assumes "nl_laws J"
  shows "nl_get_string J (JStr s) = Some s" "nl_get_bool J (JBool b) = Some b"
    "nl_get_strings J (JArr (map JStr ss)) = Some ss"
  using assms by (simp_all add: nl_laws_def)

lemma nl_laws_int:
  assumes "nl_laws J" and "- (2 ^ 31) \<le> i" and "i < 2 ^ 31"
  shows "nl_get_int J (JInt i) = Some (word_of_int i)"
  using assms unfolding nl_laws_def by blast

section \<open>Objects and observers\<close>

definition obj :: "(string \<times> json) list \<Rightarrow> json" where
  "obj kvs = JObj (fmap_of_list kvs)"

fun is_object :: "json \<Rightarrow> bool" where
  "is_object (JObj m) = True"
| "is_object _ = False"

fun is_array :: "json \<Rightarrow> bool" where
  "is_array (JArr xs) = True"
| "is_array _ = False"

fun is_string :: "json \<Rightarrow> bool" where
  "is_string (JStr s) = True"
| "is_string _ = False"

fun json_find :: "json \<Rightarrow> string \<Rightarrow> json option" where
  "json_find (JObj m) k = fmlookup m k"
| "json_find _ k = None"

definition json_contains :: "json \<Rightarrow> string \<Rightarrow> bool" where
  "json_contains j k \<longleftrightarrow> json_find j k \<noteq> None"

text \<open>
  \<^verbatim>\<open>j.value(key, default)\<close>: the default when an object lacks the key, the converted
  member when it has it, an exception when the conversion fails or \<open>j\<close> is no object.
\<close>

definition json_value :: "(json \<Rightarrow> 'a option) \<Rightarrow> json \<Rightarrow> string \<Rightarrow> 'a \<Rightarrow> 'a res" where
  "json_value get j k d =
     (if \<not> is_object j then Inl Json_type_error
      else case json_find j k of
             None \<Rightarrow> Inr d
           | Some v \<Rightarrow> (case get v of None \<Rightarrow> Inl Json_type_error | Some x \<Rightarrow> Inr x))"

text \<open>Range-based iteration: elements of an array, members of an object in key order, nothing
  for null, and the value itself for any other type.\<close>

fun json_items :: "json \<Rightarrow> json list" where
  "json_items (JArr xs) = xs"
| "json_items (JObj m) = map snd (sorted_list_of_fmap m)"
| "json_items JNull = []"
| "json_items j = [j]"

lemma is_object_obj [simp]: "is_object (obj kvs)"
  by (simp add: obj_def)

lemma json_find_obj [simp]: "json_find (obj kvs) k = map_of kvs k"
  by (simp add: obj_def fmlookup_of_list)

lemma json_contains_obj [simp]: "json_contains (obj kvs) k \<longleftrightarrow> map_of kvs k \<noteq> None"
  by (simp add: json_contains_def)

lemma json_value_obj:
  "json_value get (obj kvs) k d =
     (case map_of kvs k of
        None \<Rightarrow> Inr d
      | Some v \<Rightarrow> (case get v of None \<Rightarrow> Inl Json_type_error | Some x \<Rightarrow> Inr x))"
  by (simp add: json_value_def)

lemma json_value_found:
  "map_of kvs k = Some v \<Longrightarrow> get v = Some x \<Longrightarrow> json_value get (obj kvs) k d = Inr x"
  by (simp add: json_value_obj)

lemma json_find_not_object: "\<not> is_object j \<Longrightarrow> json_find j k = None"
  by (cases j) auto

lemma json_value_not_object [simp]: "\<not> is_object j \<Longrightarrow> json_value get j k d = Inl Json_type_error"
  by (simp add: json_value_def)

section \<open>A reference instance\<close>

text \<open>
  A concrete library that satisfies the laws: a value is printed as the decimal number that
  enumerates it. It serves to show that the hypotheses of the theorems can be met.
\<close>

instance json :: countable
  by countable_datatype

fun ref_get_string :: "json \<Rightarrow> string option" where
  "ref_get_string (JStr s) = Some s"
| "ref_get_string _ = None"

fun ref_get_bool :: "json \<Rightarrow> bool option" where
  "ref_get_bool (JBool b) = Some b"
| "ref_get_bool _ = None"

fun ref_get_int :: "json \<Rightarrow> u32 option" where
  "ref_get_int (JInt i) = Some (word_of_int i)"
| "ref_get_int (JBool b) = Some (if b then 1 else 0)"
| "ref_get_int _ = None"

fun ref_get_strings :: "json \<Rightarrow> string list option" where
  "ref_get_strings (JArr xs) = those (map ref_get_string xs)"
| "ref_get_strings _ = None"

definition ref_text :: "json \<Rightarrow> string" where
  "ref_text j = to_string (to_nat j)"

definition ref_json :: nlohmann where
  "ref_json =
     \<lparr>nl_parse = (\<lambda>t. Some (from_nat (dec_value 0 (takeWhile is_digit t)))),
      nl_read = (\<lambda>t. Some (from_nat (dec_value 0 (takeWhile is_digit t)))),
      nl_dump = (\<lambda>j. Some (ref_text j)), nl_dump2 = (\<lambda>j. Some (ref_text j)),
      nl_get_string = ref_get_string, nl_get_bool = ref_get_bool, nl_get_int = ref_get_int,
      nl_get_strings = ref_get_strings\<rparr>"

lemma those_map_ref: "those (map (ref_get_string \<circ> JStr) ss) = Some ss"
  by (induction ss) auto

lemma ref_get_string_None: "(\<forall>s. j \<noteq> JStr s) \<Longrightarrow> ref_get_string j = None"
  by (cases j) auto

lemma ref_get_bool_None: "(\<forall>b. j \<noteq> JBool b) \<Longrightarrow> ref_get_bool j = None"
  by (cases j) auto

lemma ref_json_laws: "nl_laws ref_json"
  by (simp add: nl_laws_def ref_json_def those_map_ref ref_get_string_None ref_get_bool_None)

lemma ref_text_digits [simp]: "takeWhile is_digit (ref_text j) = ref_text j"
  by (auto simp: takeWhile_eq_all_conv ref_text_def dest: to_string_digits)

lemma ref_text_newline [simp]: "takeWhile is_digit (ref_text j @ [CHR 0x0A]) = ref_text j"
  by (subst takeWhile_append2) (auto simp: ref_text_def is_digit_def dest: to_string_digits)

lemma ref_json_simps [simp]:
  "nl_dump ref_json j = Some (ref_text j)" "nl_dump2 ref_json j = Some (ref_text j)"
  "nl_parse ref_json (ref_text j) = Some j" "nl_read ref_json (ref_text j @ [CHR 0x0A]) = Some j"
  "nl_get_string ref_json = ref_get_string" "nl_get_bool ref_json = ref_get_bool"
  "nl_get_int ref_json = ref_get_int" "nl_get_strings ref_json = ref_get_strings"
  by (simp_all add: ref_json_def) (simp_all add: ref_text_def)

lemma ref_text_not_Nil [simp]: "ref_text j \<noteq> []"
  by (simp add: ref_text_def)

end
