(* ===== verification/State.thy ===== *)
theory State
  imports Keys Ip_Alloc Json
begin

text \<open>
  Model of \<^verbatim>\<open>src/src/state.cpp\<close>: the store that holds preauth keys and registered
  nodes, its JSON snapshot, and the state file. A public method runs under the store's mutex
  and is one function of the store and the \<open>world\<close> (the file system and the calls of the
  persist hook), returning its result or exception together with the new store and world: what
  was changed before an exception stays changed. \<^verbatim>\<open>consume_preauth\<close> is not one critical
  section in the source; its three phases are separate definitions here.
\<close>

section \<open>Data\<close>

record PreauthKey =
  pk_key :: string
  pk_reusable :: bool
  pk_ephemeral :: bool
  pk_used :: bool
  pk_expires_unix :: int
  pk_token :: string
  pk_shared :: bool

record PreauthClaim =
  pc_ephemeral :: bool
  pc_token :: string
  pc_shared :: bool

record NodeState =
  nd_id :: u64
  nd_stable_id :: string
  nd_hostname :: string
  nd_machine_key :: string
  nd_node_key :: string
  nd_disco_key :: string
  nd_ipv4 :: string
  nd_ipv6 :: string
  nd_endpoints :: "string list"
  nd_online :: bool
  nd_ephemeral :: bool
  nd_token :: string
  nd_shared :: bool

record Store =
  st_path :: string
  st_alloc :: IpAllocator
  st_noise_private :: bytes
  st_next_node_id :: u64
  st_next_ip_index :: u32
  st_keys :: "PreauthKey list"
  st_nodes :: "NodeState list"
  st_persist_hook :: bool

text \<open>
  The outside world: the files, which of them can be opened for reading and for writing and which
  path a rename can replace, how many characters the device still takes for a file
  (\<^const>\<open>None\<close> when there is room), the calls of the persist hook so far, and the exception the
  hook throws when it is given a text (a \<^verbatim>\<open>std::function\<close> of the host, it may throw).
\<close>

record world =
  w_files :: "string \<Rightarrow> string option"
  w_can_read :: "string \<Rightarrow> bool"
  w_can_open :: "string \<Rightarrow> bool"
  w_can_rename :: "string \<Rightarrow> bool"
  w_room :: "string \<Rightarrow> nat option"
  w_hook_calls :: "string list"
  w_hook_throws :: "string \<Rightarrow> exn option"

text \<open>What an input stream on a path finds: nothing when the file is missing or cannot be opened.\<close>

definition readable :: "world \<Rightarrow> string \<Rightarrow> string option" where
  "readable w p = (if w_can_read w p then w_files w p else None)"

type_synonym 'a op = "'a res \<times> Store \<times> world"

section \<open>Helpers\<close>

definition random_token :: "bytes option \<Rightarrow> string res" where
  "random_token draw = res_bind (random_bytes 32 draw) (\<lambda>raw. Inr (''wbkey-'' @ hex_encode raw))"

definition key_from_json :: "nlohmann \<Rightarrow> json \<Rightarrow> PreauthKey res" where
  "key_from_json J k =
     res_bind (json_value (nl_get_string J) k ''key'' []) (\<lambda>key.
     res_bind (json_value (nl_get_bool J) k ''reusable'' True) (\<lambda>reusable.
     res_bind (json_value (nl_get_bool J) k ''ephemeral'' False) (\<lambda>ephemeral.
     res_bind (json_value (nl_get_bool J) k ''used'' False) (\<lambda>used.
     res_bind (json_value (nl_get_int J) k ''expires_unix'' 0) (\<lambda>expires.
     res_bind (json_value (nl_get_string J) k ''token'' []) (\<lambda>token.
     res_bind (json_value (nl_get_bool J) k ''shared'' (token = [])) (\<lambda>shared.
     Inr \<lparr>pk_key = key, pk_reusable = reusable, pk_ephemeral = ephemeral, pk_used = used,
          pk_expires_unix = sint expires, pk_token = token, pk_shared = shared\<rparr>)))))))"

definition resolve_shared :: "string \<Rightarrow> bool option \<Rightarrow> bool" where
  "resolve_shared token shared = (case shared of None \<Rightarrow> token = [] | Some b \<Rightarrow> b)"

definition user_profile :: json where
  "user_profile = obj [(''ID'', JInt 1), (''DisplayName'', JStr ''wirebone''),
     (''ProfilePicURL'', JStr '''')]"

definition login_profile :: json where
  "login_profile = obj [(''ID'', JInt 1), (''Provider'', JStr ''wirebone''),
     (''LoginName'', JStr ''wirebone@local''), (''DisplayName'', JStr ''wirebone''),
     (''ProfilePicURL'', JStr '''')]"

section \<open>Snapshots\<close>

definition key_to_json :: "PreauthKey \<Rightarrow> json" where
  "key_to_json k = obj
     [(''key'', JStr (pk_key k)), (''reusable'', JBool (pk_reusable k)),
      (''ephemeral'', JBool (pk_ephemeral k)), (''used'', JBool (pk_used k)),
      (''expires_unix'', JInt (pk_expires_unix k)), (''token'', JStr (pk_token k)),
      (''shared'', JBool (pk_shared k))]"

definition node_to_json :: "NodeState \<Rightarrow> json" where
  "node_to_json n = obj
     [(''id'', JInt (uint (nd_id n))), (''stable_id'', JStr (nd_stable_id n)),
      (''hostname'', JStr (nd_hostname n)), (''machine_key'', JStr (nd_machine_key n)),
      (''node_key'', JStr (nd_node_key n)), (''disco_key'', JStr (nd_disco_key n)),
      (''ipv4'', JStr (nd_ipv4 n)), (''ipv6'', JStr (nd_ipv6 n)),
      (''endpoints'', JArr (map JStr (nd_endpoints n))), (''ephemeral'', JBool (nd_ephemeral n)),
      (''online'', JBool (nd_online n)), (''token'', JStr (nd_token n)),
      (''shared'', JBool (nd_shared n))]"

definition snapshot_locked :: "Store \<Rightarrow> json" where
  "snapshot_locked s = obj
     [(''noise_private'', JStr (hex_encode (st_noise_private s))),
      (''next_node_id'', JInt (uint (st_next_node_id s))),
      (''next_ip_index'', JInt (uint (st_next_ip_index s))),
      (''preauth_keys'', JArr (map key_to_json (st_keys s))),
      (''nodes'', JArr (map node_to_json (st_nodes s)))]"

text \<open>The default arguments \<^verbatim>\<open>0\<close> and \<^verbatim>\<open>1\<close> make \<^verbatim>\<open>value\<close> convert to
  \<^verbatim>\<open>int\<close>; the assignment to a 64-bit field then sign-extends.\<close>

definition node_from_json :: "nlohmann \<Rightarrow> json \<Rightarrow> NodeState res" where
  "node_from_json J n =
     res_bind (json_value (nl_get_int J) n ''id'' 0) (\<lambda>nid.
     res_bind (json_value (nl_get_string J) n ''stable_id'' []) (\<lambda>stable_id.
     res_bind (json_value (nl_get_string J) n ''hostname'' []) (\<lambda>hostname.
     res_bind (json_value (nl_get_string J) n ''machine_key'' []) (\<lambda>machine_key.
     res_bind (json_value (nl_get_string J) n ''node_key'' []) (\<lambda>node_key.
     res_bind (json_value (nl_get_string J) n ''disco_key'' []) (\<lambda>disco_key.
     res_bind (json_value (nl_get_string J) n ''ipv4'' []) (\<lambda>ipv4.
     res_bind (json_value (nl_get_string J) n ''ipv6'' []) (\<lambda>ipv6.
     res_bind (json_value (nl_get_bool J) n ''ephemeral'' False) (\<lambda>ephemeral.
     res_bind (json_value (nl_get_bool J) n ''online'' False) (\<lambda>online.
     res_bind (json_value (nl_get_string J) n ''token'' []) (\<lambda>token.
     res_bind (json_value (nl_get_bool J) n ''shared'' (token = [])) (\<lambda>shared.
     res_bind (case json_find n ''endpoints'' of
                 None \<Rightarrow> Inr []
               | Some e \<Rightarrow> (case nl_get_strings J e of None \<Rightarrow> Inl Json_type_error | Some ss \<Rightarrow> Inr ss))
       (\<lambda>endpoints.
     Inr \<lparr>nd_id = scast nid, nd_stable_id = stable_id, nd_hostname = hostname,
          nd_machine_key = machine_key, nd_node_key = node_key, nd_disco_key = disco_key,
          nd_ipv4 = ipv4, nd_ipv6 = ipv6, nd_endpoints = endpoints, nd_online = online,
          nd_ephemeral = ephemeral, nd_token = token, nd_shared = shared\<rparr>)))))))))))))"

text \<open>The members are assigned one after the other, so an exception leaves a partial import.\<close>

definition import_noise :: "nlohmann \<Rightarrow> json \<Rightarrow> Store \<Rightarrow> Store res" where
  "import_noise J j s =
     (case json_find j ''noise_private'' of
        None \<Rightarrow> Inr s
      | Some v \<Rightarrow>
          (case nl_get_string J v of
             None \<Rightarrow> Inl Json_type_error
           | Some h \<Rightarrow>
               let (ok, priv) = hex_decode h (replicate 32 0)
               in Inr (if ok then s\<lparr>st_noise_private := priv\<rparr> else s)))"

definition member_items :: "json \<Rightarrow> string \<Rightarrow> json list" where
  "member_items j k = (case json_find j k of None \<Rightarrow> [] | Some v \<Rightarrow> json_items v)"

definition apply_snapshot_locked :: "nlohmann \<Rightarrow> json \<Rightarrow> Store \<Rightarrow> unit res \<times> Store" where
  "apply_snapshot_locked J j s =
     (case import_noise J j s of Inl e \<Rightarrow> (Inl e, s) | Inr s1 \<Rightarrow>
      case json_value (nl_get_int J) j ''next_node_id'' 1 of Inl e \<Rightarrow> (Inl e, s1) | Inr nid \<Rightarrow>
      let s2 = s1\<lparr>st_next_node_id := scast nid\<rparr> in
      case json_value (nl_get_int J) j ''next_ip_index'' 1 of Inl e \<Rightarrow> (Inl e, s2) | Inr ip \<Rightarrow>
      let s3 = s2\<lparr>st_next_ip_index := ip\<rparr> in
      case push_loop (key_from_json J) (member_items j ''preauth_keys'') [] of (r4, ks) \<Rightarrow>
      let s4 = s3\<lparr>st_keys := ks\<rparr> in
      case r4 of Inl e \<Rightarrow> (Inl e, s4) | Inr _ \<Rightarrow>
      case push_loop (node_from_json J) (member_items j ''nodes'') [] of (r5, ns) \<Rightarrow>
      (r5, s4\<lparr>st_nodes := ns\<rparr>))"

section \<open>Persistence\<close>

text \<open>
  Saving issues file operations one after the other, and a crash may stop it between any two of
  them. Writing to a full device is not an error of the stream that the code looks at: what did
  not fit is lost and the rename happens all the same. The operations take effect in the order in
  which they are issued: the code never calls \<^verbatim>\<open>fsync\<close>, and that a power failure may keep a
  later operation and lose an earlier one is not modelled.
\<close>

datatype file_op = Truncate string | Append string string | Rename string string

fun file_op_step :: "file_op \<Rightarrow> (string \<Rightarrow> string option) \<Rightarrow> string \<Rightarrow> string option" where
  "file_op_step (Truncate p) fs = fs(p := Some [])"
| "file_op_step (Append p t) fs = fs(p := map_option (\<lambda>old. old @ t) (fs p))"
| "file_op_step (Rename p q) fs = fs(q := fs p, p := None)"

definition written :: "world \<Rightarrow> string \<Rightarrow> string \<Rightarrow> string" where
  "written w p t = (case w_room w p of None \<Rightarrow> t | Some n \<Rightarrow> take n t)"

definition write_plan :: "nlohmann \<Rightarrow> string \<Rightarrow> json \<Rightarrow> world \<Rightarrow> unit res \<times> file_op list" where
  "write_plan J path j w =
     (let tmp = path @ ''.tmp'' in
      if \<not> w_can_open w tmp then (Inl (Runtime_error (''cannot write state file '' @ tmp)), [])
      else
        case nl_dump2 J j of
          None \<Rightarrow> (Inl Json_type_error, [Truncate tmp])
        | Some text \<Rightarrow>
            let ops = [Truncate tmp, Append tmp (written w tmp (text @ [CHR 0x0A]))] in
            if \<not> w_can_rename w path
            then (Inl (Runtime_error (''cannot replace state file '' @ path)), ops)
            else (Inr (), ops @ [Rename tmp path]))"

definition write_state :: "nlohmann \<Rightarrow> string \<Rightarrow> json \<Rightarrow> world \<Rightarrow> unit res \<times> world" where
  "write_state J path j w =
     (case write_plan J path j w of (r, ops) \<Rightarrow> (r, w\<lparr>w_files := fold file_op_step ops (w_files w)\<rparr>))"

definition save_locked :: "nlohmann \<Rightarrow> Store \<Rightarrow> world \<Rightarrow> unit res \<times> world" where
  "save_locked J s w =
     (let j = snapshot_locked s in
      case (if st_path s = [] then (Inr (), w) else write_state J (st_path s) j w) of
        (Inl e, w1) \<Rightarrow> (Inl e, w1)
      | (Inr _, w1) \<Rightarrow>
          if st_persist_hook s
          then (case nl_dump J j of
                  None \<Rightarrow> (Inl Json_type_error, w1)
                | Some text \<Rightarrow>
                    (case w_hook_throws w1 text of None \<Rightarrow> Inr () | Some e \<Rightarrow> Inl e,
                     w1\<lparr>w_hook_calls := w_hook_calls w1 @ [text]\<rparr>))
          else (Inr (), w1))"

text \<open>The tail of every mutating method: save, then return a value.\<close>

definition save_and_return :: "nlohmann \<Rightarrow> 'a \<Rightarrow> Store \<Rightarrow> world \<Rightarrow> 'a op" where
  "save_and_return J x s w =
     (case save_locked J s w of (Inl e, w1) \<Rightarrow> (Inl e, s, w1) | (Inr _, w1) \<Rightarrow> (Inr x, s, w1))"

definition load_or_init :: "nlohmann \<Rightarrow> bytes option \<Rightarrow> Store \<Rightarrow> world \<Rightarrow> unit op" where
  "load_or_init J draw s w =
     (case (case (if st_path s = [] then None else readable w (st_path s)) of
              None \<Rightarrow> (Inr (), s)
            | Some text \<Rightarrow>
                if text = [] then (Inr (), s)
                else (case nl_read J text of
                        None \<Rightarrow> (Inl Json_parse_error, s)
                      | Some j \<Rightarrow> apply_snapshot_locked J j s)) of
        (Inl e, s1) \<Rightarrow> (Inl e, s1, w)
      | (Inr _, s1) \<Rightarrow>
          if st_noise_private s1 = replicate 32 0
          then (case generate_x25519_private draw of
                  Inl e \<Rightarrow> (Inl e, s1, w)
                | Inr priv \<Rightarrow> save_and_return J () (s1\<lparr>st_noise_private := priv\<rparr>) w)
          else (Inr (), s1, w))"

text \<open>The constructor: when it throws there is no object.\<close>

definition new_Store ::
  "nlohmann \<Rightarrow> inet6 \<Rightarrow> string \<Rightarrow> string \<Rightarrow> string \<Rightarrow> bytes option \<Rightarrow> world \<Rightarrow> Store res \<times> world" where
  "new_Store J N path v4 v6 draw w =
     (case new_IpAllocator N v4 v6 of
        Inl e \<Rightarrow> (Inl e, w)
      | Inr A \<Rightarrow>
          (case load_or_init J draw
                  \<lparr>st_path = path, st_alloc = A, st_noise_private = replicate 32 0,
                   st_next_node_id = 1, st_next_ip_index = 1, st_keys = [], st_nodes = [],
                   st_persist_hook = False\<rparr> w of
             (Inl e, s, w1) \<Rightarrow> (Inl e, w1)
           | (Inr _, s, w1) \<Rightarrow> (Inr s, w1)))"

definition dump_json :: "nlohmann \<Rightarrow> Store \<Rightarrow> string res" where
  "dump_json J s = (case nl_dump J (snapshot_locked s) of
     None \<Rightarrow> Inl Json_type_error | Some t \<Rightarrow> Inr t)"

definition load_json :: "nlohmann \<Rightarrow> string \<Rightarrow> Store \<Rightarrow> unit res \<times> Store" where
  "load_json J text s =
     (case nl_parse J (if text = [] then ''{}'' else text) of
        None \<Rightarrow> (Inl Json_parse_error, s)
      | Some j \<Rightarrow> apply_snapshot_locked J j s)"

definition set_persist_hook :: "bool \<Rightarrow> Store \<Rightarrow> Store" where
  "set_persist_hook h s = s\<lparr>st_persist_hook := h\<rparr>"

definition persist :: "nlohmann \<Rightarrow> Store \<Rightarrow> world \<Rightarrow> unit op" where
  "persist J s w = save_and_return J () s w"

definition noise_public_text :: "openssl \<Rightarrow> Store \<Rightarrow> string res" where
  "noise_public_text L s =
     res_bind (x25519_public L (st_noise_private s)) (\<lambda>p. Inr (format_key Machine p))"

section \<open>Preauth keys\<close>

text \<open>The expiry is a sum of two \<^verbatim>\<open>int64_t\<close> values, which must not overflow.\<close>

definition create_preauth_key ::
  "nlohmann \<Rightarrow> bytes option \<Rightarrow> int \<Rightarrow> bool \<Rightarrow> bool \<Rightarrow> int \<Rightarrow> string \<Rightarrow> bool option \<Rightarrow>
   Store \<Rightarrow> world \<Rightarrow> string op" where
  "create_preauth_key J draw now reusable ephemeral expiration token shared s w =
     (case random_token draw of
        Inl e \<Rightarrow> (Inl e, s, w)
      | Inr key \<Rightarrow>
          if 0 < expiration \<and> 2 ^ 63 \<le> now + expiration then (Inl Undefined_behaviour, s, w)
          else
          let k = \<lparr>pk_key = key, pk_reusable = reusable, pk_ephemeral = ephemeral, pk_used = False,
                   pk_expires_unix = (if 0 < expiration then now + expiration else 0),
                   pk_token = token, pk_shared = resolve_shared token shared\<rparr>
          in save_and_return J key (s\<lparr>st_keys := st_keys s @ [k]\<rparr>) w)"

text \<open>
  \<^verbatim>\<open>reload_keys_from_disk\<close>: the file is read and parsed before the mutex is taken; the
  parsed keys then replace the ones in memory.
\<close>

definition reload_read :: "nlohmann \<Rightarrow> Store \<Rightarrow> world \<Rightarrow> json option" where
  "reload_read J s w =
     (if st_path s = [] then None
      else case readable w (st_path s) of
             None \<Rightarrow> None
           | Some text \<Rightarrow>
               (case nl_read J text of
                  None \<Rightarrow> None
                | Some j \<Rightarrow> json_find j ''preauth_keys''))"

definition reload_install :: "nlohmann \<Rightarrow> json option \<Rightarrow> Store \<Rightarrow> unit res \<times> Store" where
  "reload_install J ks s =
     (case ks of
        None \<Rightarrow> (Inr (), s)
      | Some v \<Rightarrow> (case push_loop (key_from_json J) (json_items v) [] of
                     (r, keys) \<Rightarrow> (r, s\<lparr>st_keys := keys\<rparr>)))"

definition reload_keys_from_disk :: "nlohmann \<Rightarrow> Store \<Rightarrow> world \<Rightarrow> unit res \<times> Store" where
  "reload_keys_from_disk J s w = reload_install J (reload_read J s w) s"

text \<open>The critical section of \<^verbatim>\<open>consume_preauth\<close>: \<open>Inr None\<close> is a refusal.\<close>

definition claim_of :: "PreauthKey \<Rightarrow> PreauthClaim" where
  "claim_of k = \<lparr>pc_ephemeral = pk_ephemeral k, pc_token = pk_token k, pc_shared = pk_shared k\<rparr>"

definition consume_locked ::
  "nlohmann \<Rightarrow> int \<Rightarrow> string \<Rightarrow> Store \<Rightarrow> world \<Rightarrow> PreauthClaim option op" where
  "consume_locked J now key s w =
     (case find (\<lambda>k. pk_key k = key) (st_keys s) of
        None \<Rightarrow> (Inr None, s, w)
      | Some k \<Rightarrow>
          if pk_expires_unix k \<noteq> 0 \<and> pk_expires_unix k < now then (Inr None, s, w)
          else if \<not> pk_reusable k \<and> pk_used k then (Inr None, s, w)
          else save_and_return J (Some (claim_of k))
                 (s\<lparr>st_keys := update_first (\<lambda>k. pk_key k = key) (\<lambda>k. k\<lparr>pk_used := True\<rparr>) (st_keys s)\<rparr>) w)"

definition consume_preauth ::
  "nlohmann \<Rightarrow> int \<Rightarrow> string \<Rightarrow> Store \<Rightarrow> world \<Rightarrow> PreauthClaim option op" where
  "consume_preauth J now key s w =
     (case reload_keys_from_disk J s w of
        (Inl e, s1) \<Rightarrow> (Inl e, s1, w)
      | (Inr _, s1) \<Rightarrow> consume_locked J now key s1 w)"

text \<open>The older overload, which reports only the ephemeral flag.\<close>

definition consume_preauth_ephemeral ::
  "nlohmann \<Rightarrow> int \<Rightarrow> string \<Rightarrow> Store \<Rightarrow> world \<Rightarrow> bool option op" where
  "consume_preauth_ephemeral J now key s w =
     (case consume_preauth J now key s w of
        (r, s1, w1) \<Rightarrow> (res_bind r (\<lambda>c. Inr (map_option pc_ephemeral c)), s1, w1))"

section \<open>Nodes\<close>

definition register_node ::
  "nlohmann \<Rightarrow> inet6 \<Rightarrow> string \<Rightarrow> string \<Rightarrow> string \<Rightarrow> bool \<Rightarrow> string \<Rightarrow> bool \<Rightarrow>
   Store \<Rightarrow> world \<Rightarrow> NodeState op" where
  "register_node J N machine_key node_key hostname ephemeral token shared s w =
     (let renew = (\<lambda>n. n\<lparr>nd_node_key := node_key,
                         nd_hostname := (if hostname \<noteq> [] then hostname else nd_hostname n),
                         nd_ephemeral := ephemeral\<rparr>)
      in case find (\<lambda>n. nd_machine_key n = machine_key) (st_nodes s) of
        Some n \<Rightarrow>
          save_and_return J (renew n)
            (s\<lparr>st_nodes := update_first (\<lambda>n. nd_machine_key n = machine_key) renew (st_nodes s)\<rparr>) w
      | None \<Rightarrow>
          let nid = st_next_node_id s;
              stable_id = to_string (unat nid);
              s1 = s\<lparr>st_next_node_id := nid + 1, st_next_ip_index := st_next_ip_index s + 1\<rparr>
          in case address_for N (st_alloc s) (st_next_ip_index s) of
               Inl e \<Rightarrow> (Inl e, s1, w)
             | Inr (v4, v6) \<Rightarrow>
                 let n = \<lparr>nd_id = nid, nd_stable_id = stable_id,
                          nd_hostname = (if hostname = [] then ''node-'' @ stable_id else hostname),
                          nd_machine_key = machine_key, nd_node_key = node_key, nd_disco_key = [],
                          nd_ipv4 = v4, nd_ipv6 = v6, nd_endpoints = [], nd_online = False,
                          nd_ephemeral = ephemeral, nd_token = token, nd_shared = shared\<rparr>
                 in save_and_return J n (s1\<lparr>st_nodes := st_nodes s1 @ [n]\<rparr>) w)"

definition find_by_machine :: "string \<Rightarrow> Store \<Rightarrow> NodeState option" where
  "find_by_machine machine_key s = find (\<lambda>n. nd_machine_key n = machine_key) (st_nodes s)"

definition find_by_node :: "string \<Rightarrow> Store \<Rightarrow> NodeState option" where
  "find_by_node node_key s = find (\<lambda>n. nd_node_key n = node_key) (st_nodes s)"

definition update_map_info ::
  "nlohmann \<Rightarrow> string \<Rightarrow> string \<Rightarrow> string \<Rightarrow> string \<Rightarrow> string list \<Rightarrow> Store \<Rightarrow> world \<Rightarrow> unit op" where
  "update_map_info J machine_key node_key disco_key hostname endpoints s w =
     (let upd = (\<lambda>n. n\<lparr>nd_node_key := (if node_key \<noteq> [] then node_key else nd_node_key n),
                       nd_disco_key := (if disco_key \<noteq> [] then disco_key else nd_disco_key n),
                       nd_hostname := (if hostname \<noteq> [] then hostname else nd_hostname n),
                       nd_endpoints := endpoints, nd_online := True\<rparr>)
      in case find (\<lambda>n. nd_machine_key n = machine_key) (st_nodes s) of
           None \<Rightarrow> (Inr (), s, w)
         | Some _ \<Rightarrow>
             save_and_return J ()
               (s\<lparr>st_nodes := update_first (\<lambda>n. nd_machine_key n = machine_key) upd (st_nodes s)\<rparr>) w)"

definition set_online :: "string \<Rightarrow> bool \<Rightarrow> Store \<Rightarrow> Store" where
  "set_online machine_key online s =
     s\<lparr>st_nodes := update_first (\<lambda>n. nd_machine_key n = machine_key) (\<lambda>n. n\<lparr>nd_online := online\<rparr>)
                     (st_nodes s)\<rparr>"

end
