(* ===== verification/State_Correct.thy ===== *)
theory State_Correct
  imports State
begin

text \<open>
  Correctness of the store: what saving does to the state file, the snapshot round trip and its
  limits, how often a preauth key can be used (sequentially, and when two requests interleave),
  the registry contract that the coordinator relies on, and the uniqueness invariant of the
  registered nodes.
\<close>

section \<open>Saving\<close>

lemma save_and_return_store [store_simps, simp]: "fst (snd (save_and_return J x s w)) = s"
  by (simp add: save_and_return_def split: prod.splits sum.splits)

lemma save_and_return_cases:
  assumes "save_and_return J x s w = (r, s', w')"
  shows "s' = s" and "r = Inr y \<Longrightarrow> y = x \<and> save_locked J s w = (Inr (), w')"
  using assms by (auto simp: save_and_return_def split: prod.splits sum.splits)

lemma save_and_return_Inr:
  "save_and_return J x s w = (Inr y, s', w') \<longleftrightarrow> y = x \<and> s' = s \<and> save_locked J s w = (Inr (), w')"
  by (auto simp: save_and_return_def split: prod.splits sum.splits)

text \<open>
  The text produced for a snapshot reads back as that snapshot: the documented behaviour of
  printing and parsing JSON, for the values the store writes.
\<close>

definition snapshot_text_laws :: "nlohmann \<Rightarrow> bool" where
  "snapshot_text_laws J \<longleftrightarrow>
     (\<forall>s t. nl_dump2 J (snapshot_locked s) = Some t \<longrightarrow>
        nl_read J (t @ [CHR 0x0A]) = Some (snapshot_locked s)) \<and>
     (\<forall>s t. nl_dump J (snapshot_locked s) = Some t \<longrightarrow>
        t \<noteq> [] \<and> nl_parse J t = Some (snapshot_locked s))"

lemma tmp_not_path [simp]: "p @ ''.tmp'' \<noteq> p" "p \<noteq> p @ ''.tmp''"
  by auto

text \<open>The device takes everything the next save writes.\<close>

abbreviation has_room :: "world \<Rightarrow> Store \<Rightarrow> bool" where
  "has_room w s \<equiv> w_room w (st_path s @ ''.tmp'') = None"

lemma write_state_eq:
  "write_state J path j w =
     (let tmp = path @ ''.tmp'' in
      if \<not> w_can_open w tmp then (Inl (Runtime_error (''cannot write state file '' @ tmp)), w)
      else case nl_dump2 J j of
             None \<Rightarrow> (Inl Json_type_error, w\<lparr>w_files := (w_files w)(tmp := Some [])\<rparr>)
           | Some text \<Rightarrow>
               let out = written w tmp (text @ [CHR 0x0A]) in
               if \<not> w_can_rename w path
               then (Inl (Runtime_error (''cannot replace state file '' @ path)), w\<lparr>w_files := (w_files w)(tmp := Some out)\<rparr>)
               else (Inr (), w\<lparr>w_files := (w_files w)(path := Some out, tmp := None)\<rparr>))"
  by (auto simp: write_state_def write_plan_def Let_def fun_eq_iff split: option.split)

lemma save_locked_keeps_devices:
  assumes "save_locked J s w = (r, w1)"
  shows "w_room w1 = w_room w" "w_can_open w1 = w_can_open w" "w_can_rename w1 = w_can_rename w"
    "w_can_read w1 = w_can_read w"
  using assms
  by (auto simp: save_locked_def write_state_eq Let_def split: if_splits option.splits prod.splits sum.splits)

lemma save_and_return_room:
  assumes "save_and_return J x s w = (r, s', w1)"
  shows "w_room w1 = w_room w" "w_can_read w1 = w_can_read w"
  using assms by (auto simp: save_and_return_def dest: save_locked_keeps_devices(1,4) split: prod.splits sum.splits)

lemma new_Store_room:
  assumes "new_Store J N path v4 v6 draw w = (r, w1)"
  shows "w_room w1 = w_room w" "w_can_read w1 = w_can_read w"
  using assms by (auto simp: new_Store_def load_or_init_def dest: save_and_return_room split: sum.splits prod.splits if_splits)

lemma room_and_read:
  "save_and_return J x s w = (q, s', w1) \<Longrightarrow> w_room w1 = w_room w \<and> w_can_read w1 = w_can_read w"
  "new_Store J N path v4 v6 draw w = (p, w1) \<Longrightarrow> w_room w1 = w_room w \<and> w_can_read w1 = w_can_read w"
  using save_and_return_room new_Store_room by metis+

lemma save_locked_stores:
  assumes "save_locked J s w = (Inr (), w1)" and "st_path s \<noteq> []"
  shows "\<exists>t. nl_dump2 J (snapshot_locked s) = Some t \<and>
    w_files w1 (st_path s) = Some (written w (st_path s @ ''.tmp'') (t @ [CHR 0x0A]))"
  using assms
  by (auto simp: save_locked_def write_state_eq Let_def split: if_splits option.splits)

lemma save_locked_file:
  assumes "save_locked J s w = (Inr (), w1)" and "st_path s \<noteq> []" and "has_room w s"
  shows "\<exists>t. nl_dump2 J (snapshot_locked s) = Some t \<and> w_files w1 (st_path s) = Some (t @ [CHR 0x0A])"
  using save_locked_stores [OF assms(1,2)] assms(3) by (simp add: written_def)

lemma save_locked_no_path:
  assumes "save_locked J s w = (r, w1)" and "st_path s = []"
  shows "w_files w1 = w_files w"
  using assms by (auto simp: save_locked_def Let_def split: if_splits option.splits)

lemma reload_read_after_save:
  assumes "snapshot_text_laws J" and "save_locked J s w = (Inr (), w1)" and "has_room w s"
  shows "reload_read J s w1 =
    (if st_path s = [] \<or> \<not> w_can_read w (st_path s) then None else Some (JArr (map key_to_json (st_keys s))))"
  using assms save_locked_file [OF assms(2)] save_locked_keeps_devices(4) [OF assms(2)]
  by (auto simp: reload_read_def readable_def snapshot_text_laws_def snapshot_locked_def)

lemma write_plan_cases [consumes 1, case_names closed unprintable unrenamed complete]:
  assumes "write_plan J path j w = (r, ops)"
  obtains (closed) e where "r = Inl e" "ops = []"
  | (unprintable) e where "r = Inl e" "ops = [Truncate (path @ ''.tmp'')]"
  | (unrenamed) e t where "r = Inl e" "ops = [Truncate (path @ ''.tmp''), Append (path @ ''.tmp'') t]"
  | (complete) t where "r = Inr ()" "nl_dump2 J j = Some t"
      "ops = [Truncate (path @ ''.tmp''), Append (path @ ''.tmp'') (written w (path @ ''.tmp'') (t @ [CHR 0x0A])),
              Rename (path @ ''.tmp'') path]"
  using assms by (auto simp: write_plan_def Let_def split: if_splits option.splits)

text \<open>
  C17: Saving replaces the state file by a rename. Wherever a crash stops the sequence of file
  operations, and however the save ends, the file at the configured path holds either its
  previous content or the complete text of the new snapshot, and no file other than it and its
  temporary sibling changes; a save that reports success has installed the new text. The device
  has to have room for the text.
\<close>

theorem save_locked_atomic:
  assumes "st_path s \<noteq> []" and "has_room w s"
    and "write_plan J (st_path s) (snapshot_locked s) w = (r, ops)"
    and "fs = fold file_op_step (take n ops) (w_files w)"
  shows "(fs (st_path s) = w_files w (st_path s) \<or>
      (\<exists>t. nl_dump2 J (snapshot_locked s) = Some t \<and> fs (st_path s) = Some (t @ [CHR 0x0A]))) \<and>
    (\<forall>p. p \<noteq> st_path s \<longrightarrow> p \<noteq> st_path s @ ''.tmp'' \<longrightarrow> fs p = w_files w p) \<and>
    (length ops \<le> n \<longrightarrow>
      write_state J (st_path s) (snapshot_locked s) w = (r, w\<lparr>w_files := fs\<rparr>) \<and>
      (r = Inr () \<longrightarrow> (\<exists>t. nl_dump2 J (snapshot_locked s) = Some t \<and> fs (st_path s) = Some (t @ [CHR 0x0A]))))"
  using assms(3)
proof (cases rule: write_plan_cases)
  case (complete t)
  then show ?thesis
    using assms by (cases n; cases "n - 1"; cases "n - 2") (auto simp: written_def write_state_def)
qed (use assms in \<open>cases n; cases "n - 1"; auto simp: write_state_def\<close>)+

text \<open>
  C36: Without that room the old state is lost: the code does not look at the state of the stream
  after writing. On a full device a save reports success and leaves an empty state file, which the
  next start takes for a fresh installation. That start succeeds, on every pair of address ranges
  it would accept and with any drawn octets: its store has no nodes and no preauth keys, both
  counters begin again at 1 and the Noise identity is a new one. (The library has to be able to
  print the state of a fresh installation.)
\<close>

theorem full_device_loses_state:
  assumes "st_path s \<noteq> []" "\<not> st_persist_hook s" "nl_dump2 J (snapshot_locked s) = Some t"
    and "w_can_open w (st_path s @ ''.tmp'')" "w_can_rename w (st_path s)" "w_room w (st_path s @ ''.tmp'') = Some 0"
    and "\<And>s'. st_keys s' = [] \<Longrightarrow> st_nodes s' = [] \<Longrightarrow> nl_dump2 J (snapshot_locked s') \<noteq> None"
    and "new_IpAllocator N v4 v6 = Inr A"
  shows "\<exists>w1 s2 w2. save_locked J s w = (Inr (), w1) \<and> w_files w1 (st_path s) = Some [] \<and>
    new_Store J N (st_path s) v4 v6 (Some d) w1 = (Inr s2, w2) \<and>
    st_nodes s2 = [] \<and> st_keys s2 = [] \<and> st_next_node_id s2 = 1 \<and> st_next_ip_index s2 = 1 \<and>
    st_noise_private s2 = clamp d"
proof -
  let ?w1 = "w\<lparr>w_files := (w_files w)(st_path s := Some [], st_path s @ ''.tmp'' := None)\<rparr>"
  have sv: "save_locked J s w = (Inr (), ?w1)"
    using assms(1-6) by (simp add: save_locked_def write_state_eq written_def)
  let ?s2 = "\<lparr>st_path = st_path s, st_alloc = A, st_noise_private = clamp d, st_next_node_id = 1,
      st_next_ip_index = 1, st_keys = [], st_nodes = [], st_persist_hook = False\<rparr>"
  obtain t2 where "nl_dump2 J (snapshot_locked ?s2) = Some t2"
    using assms(7) [of ?s2] by auto
  then have "fst (save_locked J ?s2 ?w1) = Inr ()"
    using assms by (simp add: save_locked_def write_state_eq written_def Let_def)
  then obtain w2 where "save_locked J ?s2 ?w1 = (Inr (), w2)" by (metis prod.collapse)
  then have "new_Store J N (st_path s) v4 v6 (Some d) ?w1 = (Inr ?s2, w2)"
    using assms(1,8)
    by (simp add: new_Store_def load_or_init_def readable_def generate_x25519_private_def random_bytes_def
        save_and_return_def)
  with sv show ?thesis by force
qed

section \<open>Snapshot round trip\<close>

definition int32_range :: "int \<Rightarrow> bool" where
  "int32_range i \<longleftrightarrow> - (2 ^ 31) \<le> i \<and> i < 2 ^ 31"

definition snapshot_fits :: "Store \<Rightarrow> bool" where
  "snapshot_fits s \<longleftrightarrow>
     length (st_noise_private s) = 32 \<and>
     int32_range (uint (st_next_node_id s)) \<and> int32_range (uint (st_next_ip_index s)) \<and>
     (\<forall>k\<in>set (st_keys s). int32_range (pk_expires_unix k)) \<and>
     (\<forall>n\<in>set (st_nodes s). int32_range (uint (nd_id n)))"

lemma get_int_fits: "nl_laws J \<Longrightarrow> int32_range i \<Longrightarrow> nl_get_int J (JInt i) = Some (word_of_int i)"
  by (simp add: int32_range_def nl_laws_int)

lemma sint_of_int32: "int32_range i \<Longrightarrow> sint (word_of_int i :: u32) = i"
  by (simp add: int32_range_def signed_of_int signed_take_bit_int_eq_self)

lemma scast_of_int32:
  fixes x :: u64
  assumes "int32_range (uint x)"
  shows "scast (ucast x :: u32) = x"
proof -
  have "sint (ucast x :: u32) = uint x"
    using sint_of_int32 [OF assms] by simp
  then show ?thesis by (simp add: scast_eq)
qed

lemma key_json_roundtrip:
  "nl_laws J \<Longrightarrow> int32_range (pk_expires_unix k) \<Longrightarrow> key_from_json J (key_to_json k) = Inr k"
  by (simp add: key_from_json_def key_to_json_def json_value_obj get_int_fits sint_of_int32)

lemma node_json_roundtrip:
  "nl_laws J \<Longrightarrow> int32_range (uint (nd_id n)) \<Longrightarrow> node_from_json J (node_to_json n) = Inr n"
  by (simp add: node_from_json_def node_to_json_def json_value_obj get_int_fits scast_of_int32)

lemma import_noise_snapshot:
  assumes "nl_laws J" and "length (st_noise_private s) = 32"
  shows "import_noise J (snapshot_locked s) s0 = Inr (s0\<lparr>st_noise_private := st_noise_private s\<rparr>)"
  using assms hex.dec_enc [of "replicate 32 0" "st_noise_private s"]
  by (simp add: import_noise_def snapshot_locked_def)

lemma apply_snapshot_roundtrip:
  assumes "nl_laws J" and "snapshot_fits s"
  shows "apply_snapshot_locked J (snapshot_locked s) s0 =
    (Inr (), s0\<lparr>st_noise_private := st_noise_private s, st_next_node_id := st_next_node_id s,
        st_next_ip_index := st_next_ip_index s, st_keys := st_keys s, st_nodes := st_nodes s\<rparr>)"
proof -
  have ks: "push_loop (key_from_json J) (map key_to_json (st_keys s)) [] = (Inr (), st_keys s)"
    using push_loop_map [of "st_keys s" "key_from_json J" key_to_json "[]"] assms
    by (simp add: key_json_roundtrip snapshot_fits_def)
  have ns: "push_loop (node_from_json J) (map node_to_json (st_nodes s)) [] = (Inr (), st_nodes s)"
    using push_loop_map [of "st_nodes s" "node_from_json J" node_to_json "[]"] assms
    by (simp add: node_json_roundtrip snapshot_fits_def)
  have fits: "length (st_noise_private s) = 32" "int32_range (uint (st_next_node_id s))"
    "int32_range (uint (st_next_ip_index s))"
    using assms(2) by (simp_all add: snapshot_fits_def)
  have items: "member_items (snapshot_locked s) ''preauth_keys'' = map key_to_json (st_keys s)"
    "member_items (snapshot_locked s) ''nodes'' = map node_to_json (st_nodes s)"
    by (simp_all add: member_items_def snapshot_locked_def)
  have "json_value (nl_get_int J) (snapshot_locked s) ''next_node_id'' 1 =
      Inr (word_of_int (uint (st_next_node_id s)))"
    "json_value (nl_get_int J) (snapshot_locked s) ''next_ip_index'' 1 = Inr (st_next_ip_index s)"
    using assms(1) fits by (simp_all add: snapshot_locked_def json_value_obj get_int_fits)
  then show ?thesis
    using assms(1) fits
    by (simp add: apply_snapshot_locked_def import_noise_snapshot items ks ns scast_of_int32)
qed

lemma dump_load_json:
  assumes "nl_laws J" and "snapshot_text_laws J" and "snapshot_fits s"
    and "dump_json J s = Inr t"
  shows "load_json J t s0 =
    (Inr (), s0\<lparr>st_noise_private := st_noise_private s, st_next_node_id := st_next_node_id s,
        st_next_ip_index := st_next_ip_index s, st_keys := st_keys s, st_nodes := st_nodes s\<rparr>)"
proof -
  have "t \<noteq> [] \<and> nl_parse J t = Some (snapshot_locked s)"
    using assms(2,4) by (auto simp: dump_json_def snapshot_text_laws_def split: option.splits)
  then show ?thesis using apply_snapshot_roundtrip [OF assms(1,3)] by (simp add: load_json_def)
qed

text \<open>Starting on the file that a save left behind.\<close>

lemma new_Store_after_save:
  assumes laws: "nl_laws J" "snapshot_text_laws J" and fits: "snapshot_fits s"
    and saved: "save_locked J s w = (Inr (), w1)" "st_path s \<noteq> []" "has_room w s"
    and read: "w_can_read w (st_path s)"
    and key: "st_noise_private s \<noteq> replicate 32 0"
    and alloc: "new_IpAllocator N v4 v6 = Inr (st_alloc s)"
  shows "new_Store J N (st_path s) v4 v6 draw w1 = (Inr (s\<lparr>st_persist_hook := False\<rparr>), w1)"
proof -
  obtain t where t: "nl_dump2 J (snapshot_locked s) = Some t" "w_files w1 (st_path s) = Some (t @ [CHR 0x0A])"
    using save_locked_file [OF saved] by blast
  then have "nl_read J (t @ [CHR 0x0A]) = Some (snapshot_locked s)"
    using laws(2) by (simp add: snapshot_text_laws_def)
  with t(2) key apply_snapshot_roundtrip [OF laws(1) fits] saved(2) alloc read save_locked_keeps_devices(4) [OF saved(1)]
  show ?thesis by (simp add: new_Store_def load_or_init_def readable_def)
qed

text \<open>
  A coordinator that is stopped after a save and started again on the same file and address
  ranges has the same nodes, preauth keys, counters and Noise identity as before; only the
  persist hook has to be installed again. Counters, ids and expiry times have to be in the range
  of a 32-bit \<^verbatim>\<open>int\<close>.
\<close>

theorem restart_restores:
  assumes "nl_laws J" "snapshot_text_laws J" "snapshot_fits s"
    and "save_locked J s w = (Inr (), w1)" "st_path s \<noteq> []" "has_room w s" "w_can_read w (st_path s)"
    and "st_noise_private s \<noteq> replicate 32 0" "new_IpAllocator N v4 v6 = Inr (st_alloc s)"
  shows "new_Store J N (st_path s) v4 v6 draw w1 = (Inr (s\<lparr>st_persist_hook := False\<rparr>), w1)"
  by (rule new_Store_after_save [OF assms])

text \<open>
  Exporting the state and importing the text into any other store restores the private
  noise key, both counters, every preauth key and every node exactly, provided the counters,
  node ids and expiry times lie in the range of a 32-bit \<^verbatim>\<open>int\<close>.
\<close>

theorem export_import_roundtrip:
  assumes "nl_laws J" and "snapshot_text_laws J" and "snapshot_fits s"
    and "dump_json J s = Inr t"
  shows "load_json J t s0 =
    (Inr (), s0\<lparr>st_noise_private := st_noise_private s, st_next_node_id := st_next_node_id s,
        st_next_ip_index := st_next_ip_index s, st_keys := st_keys s, st_nodes := st_nodes s\<rparr>)"
  using dump_load_json [OF assms] .

text \<open>
  C39: Outside that range the round trip is impossible, whatever the JSON library does: a preauth
  key whose expiry does not fit a 32-bit \<^verbatim>\<open>int\<close> (any time after 19 January 2038) is never
  read back with the expiry it was written with.
\<close>

theorem far_expiry_not_restored:
  assumes "\<not> int32_range (pk_expires_unix k)" and "key_from_json J (key_to_json k) = Inr k'"
  shows "pk_expires_unix k' \<noteq> pk_expires_unix k"
proof -
  obtain x :: u32 where "pk_expires_unix k' = sint x"
    using assms(2) by (auto simp: key_from_json_def res_bind_Inr)
  moreover have "int32_range (sint x)"
    using sint_ge [of x] sint_lt [of x] by (simp add: int32_range_def)
  ultimately show ?thesis using assms(1) by auto
qed

section \<open>Using preauth keys\<close>

definition usable :: "int \<Rightarrow> PreauthKey \<Rightarrow> bool" where
  "usable now k \<longleftrightarrow> (pk_expires_unix k = 0 \<or> now \<le> pk_expires_unix k) \<and> (pk_reusable k \<or> \<not> pk_used k)"

abbreviation find_key :: "string \<Rightarrow> Store \<Rightarrow> PreauthKey option" where
  "find_key key s \<equiv> find (\<lambda>k. pk_key k = key) (st_keys s)"

abbreviation mark_used :: "string \<Rightarrow> Store \<Rightarrow> Store" where
  "mark_used key s \<equiv>
     s\<lparr>st_keys := update_first (\<lambda>k. pk_key k = key) (\<lambda>k. k\<lparr>pk_used := True\<rparr>) (st_keys s)\<rparr>"

lemma consume_locked_eq:
  "consume_locked J now key s w =
     (case find_key key s of
        Some k \<Rightarrow> if usable now k then save_and_return J (Some (claim_of k)) (mark_used key s) w
                  else (Inr None, s, w)
      | None \<Rightarrow> (Inr None, s, w))"
  by (auto simp: consume_locked_def usable_def split: option.splits)

lemma find_key_mark_used: "find_key key (mark_used key s) = map_option (\<lambda>k. k\<lparr>pk_used := True\<rparr>) (find_key key s)"
  by (simp add: find_update_first)

lemma consume_locked_success:
  assumes "consume_locked J now key s w = (Inr (Some c), s1, w1)"
  shows "\<exists>k. find_key key s = Some k \<and> usable now k \<and> c = claim_of k \<and> s1 = mark_used key s \<and>
    save_locked J (mark_used key s) w = (Inr (), w1)"
  using assms by (auto simp: consume_locked_eq save_and_return_Inr split: option.splits if_splits)

lemma reload_install_keys:
  assumes "nl_laws J" and "\<forall>k\<in>set ks. int32_range (pk_expires_unix k)"
  shows "reload_install J (Some (JArr (map key_to_json ks))) s = (Inr (), s\<lparr>st_keys := ks\<rparr>)"
  using push_loop_map [of ks "key_from_json J" key_to_json "[]"] assms
  by (simp add: reload_install_def key_json_roundtrip)

lemma reload_after_save:
  assumes "nl_laws J" "snapshot_text_laws J" "save_locked J s w = (Inr (), w1)"
    and "\<forall>k\<in>set (st_keys s). int32_range (pk_expires_unix k)" "has_room w s"
  shows "reload_keys_from_disk J s w1 = (Inr (), s)"
  using reload_install_keys [OF assms(1,4), of s]
  by (simp add: reload_keys_from_disk_def reload_read_after_save [OF assms(2,3,5)] reload_install_def)

lemma consume_preauth_success:
  assumes "consume_preauth J now key s w = (Inr (Some c), s1, w1)"
  shows "\<exists>s0 k. reload_keys_from_disk J s w = (Inr (), s0) \<and> find_key key s0 = Some k \<and>
     usable now k \<and> c = claim_of k \<and> s1 = mark_used key s0 \<and> save_locked J s1 w = (Inr (), w1)"
  using assms
  by (auto simp: consume_preauth_def dest!: consume_locked_success split: prod.splits sum.splits)

text \<open>
  C5: A preauth key is honoured only if it exists, is not expired and, when it is one-shot, has
  not been used before. When it is honoured the caller receives exactly the key's group and
  flags, and a one-shot key is refused at every later time: the use survives the reload of the
  key list from disk that precedes each attempt, provided the device had room for the save.
\<close>

theorem one_shot_key_once:
  assumes "nl_laws J" and "snapshot_text_laws J"
    and "consume_preauth J now key s w = (Inr (Some c), s1, w1)"
    and "find_key key s1 = Some k" and "\<not> pk_reusable k"
    and "\<forall>k\<in>set (st_keys s1). int32_range (pk_expires_unix k)" and "has_room w s1"
  shows "c = claim_of k \<and> consume_preauth J later key s1 w1 = (Inr None, s1, w1)"
proof -
  obtain s0 k0 where k0: "find_key key s0 = Some k0" "c = claim_of k0" "s1 = mark_used key s0"
    and saved: "save_locked J s1 w = (Inr (), w1)"
    using consume_preauth_success [OF assms(3)] by blast
  have k: "k = k0\<lparr>pk_used := True\<rparr>"
    using assms(4) k0(1) find_key_mark_used [of key s0] by (simp add: k0(3))
  have "reload_keys_from_disk J s1 w1 = (Inr (), s1)"
    using reload_after_save [OF assms(1,2) saved assms(6,7)] .
  then show ?thesis
    using assms(4,5) k k0(2) by (simp add: consume_preauth_def consume_locked_eq usable_def claim_of_def)
qed

text \<open>
  C33: \<^verbatim>\<open>consume_preauth\<close> reads the state file before it takes the mutex. If another
  request uses a one-shot key between that read and the installation of the keys read, the stale
  list overwrites the record of the use and the key is honoured a second time.
\<close>

theorem stale_reload_double_use:
  assumes "nl_laws J"
    and "reload_read J s w = Some (JArr (map key_to_json (st_keys s)))"
    and "\<forall>k\<in>set (st_keys s). int32_range (pk_expires_unix k)"
    and "consume_preauth J now key s w = (Inr (Some c), s1, w1)"
    and "reload_install J (reload_read J s w) s1 = (Inr (), s2)"
    and "save_locked J (mark_used key s2) w1 = (Inr (), w2)"
  shows "consume_locked J now key s2 w1 = (Inr (Some c), mark_used key s2, w2)"
proof -
  have "reload_keys_from_disk J s w = (Inr (), s)"
    using reload_install_keys [OF assms(1,3), of s] by (simp add: reload_keys_from_disk_def assms(2))
  then obtain k where "find_key key s = Some k" "usable now k" "c = claim_of k"
    using consume_preauth_success [OF assms(4)] by auto
  moreover have "st_keys s2 = st_keys s"
    using assms(5) reload_install_keys [OF assms(1,3), of s1] by (simp add: assms(2)) auto
  ultimately show ?thesis
    using assms(6) by (simp add: consume_locked_eq save_and_return_def)
qed

text \<open>
  Every save writes the key list held in memory. A key that another process has added to the
  state file, and that this process has not reloaded, is lost by the next save: the process then
  refuses it for ever.
\<close>

theorem save_loses_foreign_key:
  assumes "nl_laws J" and "snapshot_text_laws J"
    and "\<forall>k\<in>set (st_keys s). int32_range (pk_expires_unix k)"
    and "find_key key s = None" and "save_locked J s w = (Inr (), w1)" and "has_room w s"
  shows "consume_preauth J now key s w1 = (Inr None, s, w1)"
  using reload_after_save [OF assms(1,2,5,3,6)] assms(4)
  by (simp add: consume_preauth_def consume_locked_eq)

section \<open>The registry contract\<close>

text \<open>What a registration fixes for good: ids, addresses and the mesh group.\<close>

definition identity :: "NodeState \<Rightarrow> u64 \<times> string \<times> string \<times> string \<times> string \<times> string \<times> bool" where
  "identity n = (nd_id n, nd_stable_id n, nd_machine_key n, nd_ipv4 n, nd_ipv6 n, nd_token n, nd_shared n)"

lemma identity_update [simp]:
  "identity (n\<lparr>nd_node_key := a\<rparr>) = identity n"
  "identity (n\<lparr>nd_hostname := a\<rparr>) = identity n"
  "identity (n\<lparr>nd_disco_key := a\<rparr>) = identity n"
  "identity (n\<lparr>nd_endpoints := eps\<rparr>) = identity n"
  "identity (n\<lparr>nd_online := b\<rparr>) = identity n"
  "identity (n\<lparr>nd_ephemeral := b\<rparr>) = identity n"
  by (simp_all add: identity_def)

locale node_registry =
  fixes lookup :: "string \<Rightarrow> 's \<Rightarrow> NodeState option"
    and register :: "string \<Rightarrow> string \<Rightarrow> string \<Rightarrow> bool \<Rightarrow> string \<Rightarrow> bool \<Rightarrow> 's \<Rightarrow> 'w \<Rightarrow> NodeState res \<times> 's \<times> 'w"
  assumes register_lookup: "register m nk h e t sh s w = (Inr n, s', w') \<Longrightarrow> lookup m s' = Some n"
    and register_other: "register m nk h e t sh s w = (r, s', w') \<Longrightarrow> m' \<noteq> m \<Longrightarrow> lookup m' s' = lookup m' s"
    and register_known: "lookup m s = Some n0 \<Longrightarrow> register m nk h e t sh s w = (r, s', w') \<Longrightarrow>
      \<exists>n1. lookup m s' = Some n1 \<and> identity n1 = identity n0 \<and> nd_node_key n1 = nk"
    and register_new: "lookup m s = None \<Longrightarrow> register m nk h e t sh s w = (Inr n, s', w') \<Longrightarrow>
      nd_machine_key n = m \<and> nd_node_key n = nk \<and> nd_token n = t \<and> nd_shared n = sh \<and> nd_ephemeral n = e"
begin

lemma register_keeps_identity:
  assumes "register m nk h e t sh s w = (r, s', w')" and "lookup m0 s = Some n0"
  shows "\<exists>n1. lookup m0 s' = Some n1 \<and> identity n1 = identity n0"
  using assms(2) register_other [OF assms(1), of m0] register_known [OF _ assms(1), of n0]
  by (cases "m0 = m") auto

text \<open>A list of registration requests, run one after the other whatever their outcome.\<close>

fun register_all :: "(string \<times> string \<times> string \<times> bool \<times> string \<times> bool) list \<Rightarrow> 's \<Rightarrow> 'w \<Rightarrow> 's \<times> 'w" where
  "register_all [] s w = (s, w)"
| "register_all ((m, nk, h, e, t, sh) # rs) s w =
     (case register m nk h e t sh s w of (r, s', w') \<Rightarrow> register_all rs s' w')"

lemma register_all_identity:
  "lookup m0 s = Some n0 \<Longrightarrow> register_all rs s w = (s', w') \<Longrightarrow>
   \<exists>n1. lookup m0 s' = Some n1 \<and> identity n1 = identity n0"
proof (induction rs arbitrary: s w n0)
  case (Cons q rs)
  obtain m nk h e t sh where q: "q = (m, nk, h, e, t, sh)" by (cases q) auto
  obtain r s1 w1 where step: "register m nk h e t sh s w = (r, s1, w1)"
    by (cases "register m nk h e t sh s w") auto
  then obtain n1 where "lookup m0 s1 = Some n1" "identity n1 = identity n0"
    using register_keeps_identity Cons.prems(1) by blast
  then show ?case using Cons.IH [of s1 n1 w1] Cons.prems(2) step by (simp add: q)
qed simp

end

lemma find_by_machine_update:
  assumes "\<And>n. nd_machine_key (f n) = nd_machine_key n"
  shows "find_by_machine m' (s\<lparr>st_nodes := update_first (\<lambda>n. nd_machine_key n = m) f (st_nodes s)\<rparr>) =
    (if m' = m then map_option f (find_by_machine m s) else find_by_machine m' s)"
  using assms by (simp add: find_by_machine_def find_update_first find_update_other)

lemma register_node_known:
  assumes "find_by_machine m s = Some n"
  shows "register_node J N m nk h e t sh s w =
    (let renew = (\<lambda>n. n\<lparr>nd_node_key := nk, nd_hostname := (if h \<noteq> [] then h else nd_hostname n), nd_ephemeral := e\<rparr>)
     in save_and_return J (renew n)
          (s\<lparr>st_nodes := update_first (\<lambda>n. nd_machine_key n = m) renew (st_nodes s)\<rparr>) w)"
  using assms by (simp add: register_node_def find_by_machine_def Let_def)

definition fresh_node :: "string \<Rightarrow> string \<Rightarrow> string \<Rightarrow> bool \<Rightarrow> string \<Rightarrow> bool \<Rightarrow> string \<times> string \<Rightarrow> Store \<Rightarrow> NodeState" where
  "fresh_node m nk h e t sh p s =
     \<lparr>nd_id = st_next_node_id s, nd_stable_id = to_string (unat (st_next_node_id s)),
      nd_hostname = (if h = [] then ''node-'' @ to_string (unat (st_next_node_id s)) else h),
      nd_machine_key = m, nd_node_key = nk, nd_disco_key = [], nd_ipv4 = fst p, nd_ipv6 = snd p,
      nd_endpoints = [], nd_online = False, nd_ephemeral = e, nd_token = t, nd_shared = sh\<rparr>"

definition bump_counters :: "Store \<Rightarrow> Store" where
  "bump_counters s = s\<lparr>st_next_node_id := st_next_node_id s + 1, st_next_ip_index := st_next_ip_index s + 1\<rparr>"

lemma register_node_new:
  assumes "find_by_machine m s = None"
  shows "register_node J N m nk h e t sh s w =
    (case address_for N (st_alloc s) (st_next_ip_index s) of
       Inl x \<Rightarrow> (Inl x, bump_counters s, w)
     | Inr p \<Rightarrow> save_and_return J (fresh_node m nk h e t sh p s)
                 ((bump_counters s)\<lparr>st_nodes := st_nodes s @ [fresh_node m nk h e t sh p s]\<rparr>) w)"
  using assms
  by (auto simp: register_node_def find_by_machine_def Let_def bump_counters_def fresh_node_def split: sum.split)

interpretation registry: node_registry find_by_machine "register_node J N" for J N
proof unfold_locales
  fix m nk h t :: string and e sh :: bool and s s' :: Store and w w' :: world and n :: NodeState
  assume reg: "register_node J N m nk h e t sh s w = (Inr n, s', w')"
  show "find_by_machine m s' = Some n"
  proof (cases "find_by_machine m s")
    case None
    then show ?thesis
      using reg by (auto simp: register_node_new save_and_return_Inr find_by_machine_def find_append
          fresh_node_def split: sum.splits)
  next
    case (Some n0)
    then show ?thesis
      using reg by (auto simp: register_node_known save_and_return_Inr find_by_machine_update Let_def)
  qed
next
  fix m m' nk h t :: string and e sh :: bool and s s' :: Store and w w' :: world and r
  assume reg: "register_node J N m nk h e t sh s w = (r, s', w')" and "m' \<noteq> m"
  show "find_by_machine m' s' = find_by_machine m' s"
  proof (cases "find_by_machine m s")
    case None
    then show ?thesis
      using reg \<open>m' \<noteq> m\<close>
      by (auto simp: register_node_new find_by_machine_def find_append bump_counters_def
          fresh_node_def dest!: save_and_return_cases(1) split: sum.splits option.splits)
  next
    case (Some n0)
    then show ?thesis
      using reg \<open>m' \<noteq> m\<close>
      by (auto simp: register_node_known find_by_machine_update Let_def dest!: save_and_return_cases(1))
  qed
next
  fix m nk h t :: string and e sh :: bool and s s' :: Store and w w' :: world and r n0
  assume "find_by_machine m s = Some n0" and "register_node J N m nk h e t sh s w = (r, s', w')"
  then show "\<exists>n1. find_by_machine m s' = Some n1 \<and> identity n1 = identity n0 \<and> nd_node_key n1 = nk"
    by (auto simp: register_node_known find_by_machine_update Let_def dest!: save_and_return_cases(1))
next
  fix m nk h t :: string and e sh :: bool and s s' :: Store and w w' :: world and n
  assume "find_by_machine m s = None" and "register_node J N m nk h e t sh s w = (Inr n, s', w')"
  then show "nd_machine_key n = m \<and> nd_node_key n = nk \<and> nd_token n = t \<and> nd_shared n = sh \<and> nd_ephemeral n = e"
    by (auto simp: register_node_new save_and_return_Inr fresh_node_def split: sum.splits)
qed

text \<open>
  Once a machine is registered, no sequence of registration requests, from that machine or
  from others, with whatever token they carry, changes its node id, its addresses or its mesh
  group: a client cannot move itself or another node to a different group by registering again.
\<close>

theorem registration_fixes_group:
  assumes "find_by_machine m s = Some n0" and "node_registry.register_all (register_node J N) rs s w = (s', w')"
  shows "\<exists>n1. find_by_machine m s' = Some n1 \<and> nd_id n1 = nd_id n0 \<and> nd_ipv4 n1 = nd_ipv4 n0 \<and>
    nd_ipv6 n1 = nd_ipv6 n0 \<and> nd_token n1 = nd_token n0 \<and> nd_shared n1 = nd_shared n0"
  using registry.register_all_identity [OF assms] by (auto simp: identity_def)

section \<open>Uniqueness of nodes\<close>

definition store_inv :: "inet6 \<Rightarrow> Store \<Rightarrow> bool" where
  "store_inv N s \<longleftrightarrow>
     distinct (map nd_machine_key (st_nodes s)) \<and>
     distinct (map nd_id (st_nodes s)) \<and>
     distinct (map nd_ipv4 (st_nodes s)) \<and>
     (\<forall>n\<in>set (st_nodes s). nd_id n < st_next_node_id s \<and>
        (\<exists>i < st_next_ip_index s. address_for N (st_alloc s) i = Inr (nd_ipv4 n, nd_ipv6 n)))"

lemma store_inv_cong:
  assumes "map identity (st_nodes s') = map identity (st_nodes s)"
    and "st_next_node_id s' = st_next_node_id s" "st_next_ip_index s' = st_next_ip_index s"
    and "st_alloc s' = st_alloc s"
  shows "store_inv N s' \<longleftrightarrow> store_inv N s"
proof -
  have proj: "map (f \<circ> identity) (st_nodes s') = map (f \<circ> identity) (st_nodes s)" for f
    using arg_cong [OF assms(1), of "map f"] by simp
  have "map nd_machine_key (st_nodes s') = map nd_machine_key (st_nodes s)"
    "map nd_id (st_nodes s') = map nd_id (st_nodes s)"
    "map nd_ipv4 (st_nodes s') = map nd_ipv4 (st_nodes s)"
    using proj [of "\<lambda>(a, b, c, d, e, f, g). c"] proj [of "\<lambda>(a, b, c, d, e, f, g). a"]
      proj [of "\<lambda>(a, b, c, d, e, f, g). d"] by (simp_all add: comp_def identity_def)
  moreover have "(\<lambda>n. (nd_id n, nd_ipv4 n, nd_ipv6 n)) ` set (st_nodes s') =
      (\<lambda>n. (nd_id n, nd_ipv4 n, nd_ipv6 n)) ` set (st_nodes s)"
    using arg_cong [OF proj [of "\<lambda>(a, b, c, d, e, f, g). (a, d, e)"], of set]
    by (simp add: comp_def identity_def)
  then have "(\<forall>n\<in>set (st_nodes s'). P (nd_id n, nd_ipv4 n, nd_ipv6 n)) \<longleftrightarrow>
      (\<forall>n\<in>set (st_nodes s). P (nd_id n, nd_ipv4 n, nd_ipv6 n))" for P
    by (metis (mono_tags, lifting) imageE imageI)
  from this [of "\<lambda>(a, d, e). a < st_next_node_id s \<and>
      (\<exists>i < st_next_ip_index s. address_for N (st_alloc s) i = Inr (d, e))"]
  have "(\<forall>n\<in>set (st_nodes s'). nd_id n < st_next_node_id s \<and>
        (\<exists>i < st_next_ip_index s. address_for N (st_alloc s) i = Inr (nd_ipv4 n, nd_ipv6 n))) \<longleftrightarrow>
      (\<forall>n\<in>set (st_nodes s). nd_id n < st_next_node_id s \<and>
        (\<exists>i < st_next_ip_index s. address_for N (st_alloc s) i = Inr (nd_ipv4 n, nd_ipv6 n)))"
    by simp
  ultimately show ?thesis using assms(2-4) by (simp add: store_inv_def)
qed

lemma store_inv_bump:
  assumes "store_inv N s" and "st_next_node_id s \<noteq> - 1" and "st_next_ip_index s \<noteq> - 1"
  shows "store_inv N (bump_counters s)"
  using assms word_less_succ [of "st_next_node_id s"] word_less_succ [of "st_next_ip_index s"]
  unfolding store_inv_def bump_counters_def
  by simp (meson order_less_trans)

lemma store_inv_add:
  assumes inv: "store_inv N s" and wrap: "st_next_node_id s \<noteq> - 1" "st_next_ip_index s \<noteq> - 1"
    and new: "find_by_machine m s = None" and p: "address_for N (st_alloc s) (st_next_ip_index s) = Inr p"
  shows "store_inv N ((bump_counters s)\<lparr>st_nodes := st_nodes s @ [fresh_node m nk h e t sh p s]\<rparr>)"
proof -
  let ?n = "fresh_node m nk h e t sh p s"
  have old: "store_inv N (bump_counters s)" by (rule store_inv_bump [OF inv wrap])
  have "nd_machine_key ?n \<notin> set (map nd_machine_key (st_nodes s))"
    using new by (auto simp: find_by_machine_def find_None_all fresh_node_def)
  moreover have "nd_id ?n \<notin> set (map nd_id (st_nodes s))"
    using inv by (auto simp: store_inv_def fresh_node_def)
  moreover have "fst p \<notin> set (map nd_ipv4 (st_nodes s))"
    using inv pool.addr_fresh [OF _ p, of "map nd_ipv4 (st_nodes s)"]
    by (force simp: store_inv_def)
  moreover have "nd_id ?n < st_next_node_id s + 1" "st_next_ip_index s < st_next_ip_index s + 1"
    using wrap by (simp_all add: fresh_node_def word_less_succ)
  ultimately show ?thesis
    using old p by (auto simp: store_inv_def bump_counters_def fresh_node_def)
qed

lemma register_node_inv:
  assumes "store_inv N s" and "st_next_node_id s \<noteq> - 1" and "st_next_ip_index s \<noteq> - 1"
    and reg: "register_node J N m nk h e t sh s w = (r, s', w')"
  shows "store_inv N s'"
proof (cases "find_by_machine m s")
  case None
  then show ?thesis
    using reg assms(1-3)
    by (auto simp: register_node_new store_inv_bump store_inv_add dest!: save_and_return_cases(1)
        split: sum.splits)
next
  case (Some n)
  with reg have "s' = s\<lparr>st_nodes := st_nodes s'\<rparr>" "map identity (st_nodes s') = map identity (st_nodes s)"
    by (auto simp: register_node_known Let_def map_update_first_same dest!: save_and_return_cases(1))
  then show ?thesis
    using assms(1) store_inv_cong [of s' s N] by (metis Store.select_convs(2,4,5) Store.surjective Store.update_convs(7))
qed

text \<open>
  Operations other than a first registration leave the identities of the nodes and the counters
  alone.
\<close>

definition same_registry :: "Store \<Rightarrow> Store \<Rightarrow> bool" where
  "same_registry s s' \<longleftrightarrow> map identity (st_nodes s') = map identity (st_nodes s) \<and>
     st_next_node_id s' = st_next_node_id s \<and> st_next_ip_index s' = st_next_ip_index s \<and>
     st_alloc s' = st_alloc s"

lemma same_registry_refl [simp]: "same_registry s s"
  by (simp add: same_registry_def)

lemma same_registry_inv: "same_registry s s' \<Longrightarrow> store_inv N s' \<longleftrightarrow> store_inv N s"
  unfolding same_registry_def by (rule store_inv_cong) simp_all

lemma same_registry_keys [simp]: "same_registry s (s\<lparr>st_keys := ks\<rparr>)"
  by (simp add: same_registry_def)

lemma same_registry_update:
  "(\<And>n. identity (f n) = identity n) \<Longrightarrow> same_registry s (s\<lparr>st_nodes := update_first P f (st_nodes s)\<rparr>)"
  by (simp add: same_registry_def map_update_first_same)

lemma set_persist_hook_registry: "same_registry s (set_persist_hook b s)"
  by (simp add: same_registry_def set_persist_hook_def)

lemma create_preauth_key_registry:
  "create_preauth_key J d now re ep ex t sh s w = (r, s', w') \<Longrightarrow> same_registry s s'"
  by (auto simp: create_preauth_key_def Let_def dest!: save_and_return_cases(1) split: sum.splits if_splits)

lemma reload_install_registry: "reload_install J ks s = (r, s') \<Longrightarrow> same_registry s s'"
  by (auto simp: reload_install_def split: option.splits prod.splits)

lemma reload_keys_registry: "reload_keys_from_disk J s w = (r, s') \<Longrightarrow> same_registry s s'"
  unfolding reload_keys_from_disk_def by (rule reload_install_registry)

lemma consume_locked_registry: "consume_locked J now key s w = (r, s', w') \<Longrightarrow> same_registry s s'"
  by (auto simp: consume_locked_eq dest!: save_and_return_cases(1) split: option.splits if_splits)

lemma consume_preauth_registry:
  assumes "consume_preauth J now key s w = (r, s', w')"
  shows "same_registry s s'"
proof -
  obtain r1 s1 where r1: "reload_keys_from_disk J s w = (r1, s1)" by fastforce
  have "same_registry s1 s'"
    using assms r1 by (auto simp: consume_preauth_def dest: consume_locked_registry split: sum.splits)
  with reload_keys_registry [OF r1] show ?thesis by (simp add: same_registry_def)
qed

lemma update_map_info_registry:
  "update_map_info J m nk dk h eps s w = (r, s', w') \<Longrightarrow> same_registry s s'"
  by (auto simp: update_map_info_def Let_def intro!: same_registry_update
      dest!: save_and_return_cases(1) split: option.splits)

lemma set_online_registry: "same_registry s (set_online m b s)"
  unfolding set_online_def by (rule same_registry_update) simp

lemma register_node_counters:
  assumes "register_node J N m nk h e t sh s w = (r, s', w')"
  shows "(st_next_node_id s' = st_next_node_id s \<and> st_next_ip_index s' = st_next_ip_index s) \<or>
    (st_next_node_id s' = st_next_node_id s + 1 \<and> st_next_ip_index s' = st_next_ip_index s + 1)"
  using assms
  by (cases "find_by_machine m s")
    (auto simp: register_node_new register_node_known bump_counters_def Let_def
      dest!: save_and_return_cases(1) split: sum.splits)

text \<open>
  The calls a coordinator makes on its store, in any order, and what other processes do to the
  files and devices in between.
\<close>

datatype store_call =
    Create "bytes option" int bool bool int string "bool option"
  | Consume int string
  | Register string string string bool string bool
  | Update_map string string string string "string list"
  | Online string bool
  | Persist
  | Hook bool
  | Outside world

fun store_call_step :: "nlohmann \<Rightarrow> inet6 \<Rightarrow> store_call \<Rightarrow> Store \<times> world \<Rightarrow> Store \<times> world" where
  "store_call_step J N (Create d now re ep ex t sh) (s, w) = snd (create_preauth_key J d now re ep ex t sh s w)"
| "store_call_step J N (Consume now key) (s, w) = snd (consume_preauth J now key s w)"
| "store_call_step J N (Register m nk h e t sh) (s, w) = snd (register_node J N m nk h e t sh s w)"
| "store_call_step J N (Update_map m nk dk h eps) (s, w) = snd (update_map_info J m nk dk h eps s w)"
| "store_call_step J N (Online m b) (s, w) = (set_online m b s, w)"
| "store_call_step J N Persist (s, w) = snd (persist J s w)"
| "store_call_step J N (Hook b) (s, w) = (set_persist_hook b s, w)"
| "store_call_step J N (Outside w') (s, w) = (s, w')"

fun run_calls :: "nlohmann \<Rightarrow> inet6 \<Rightarrow> store_call list \<Rightarrow> Store \<times> world \<Rightarrow> Store \<times> world" where
  "run_calls J N [] sw = sw"
| "run_calls J N (c # cs) sw = run_calls J N cs (store_call_step J N c sw)"

definition below :: "nat \<Rightarrow> Store \<Rightarrow> bool" where
  "below k s \<longleftrightarrow> unat (st_next_node_id s) < k \<and> unat (st_next_ip_index s) < k"

lemma below_mono: "below k s \<Longrightarrow> k \<le> l \<Longrightarrow> below l s"
  by (simp add: below_def)

lemma store_call_step_cases:
  assumes "store_call_step J N c (s, w) = (s', w')"
  shows "same_registry s s' \<or> (\<exists>r m nk h e t sh. register_node J N m nk h e t sh s w = (r, s', w'))"
proof (cases c)
  case Create
  with assms show ?thesis by (auto simp: prod_eq_iff intro: create_preauth_key_registry)
next
  case Consume
  with assms show ?thesis by (auto simp: prod_eq_iff intro: consume_preauth_registry)
next
  case (Register m nk h e t sh)
  then have "register_node J N m nk h e t sh s w = (fst (register_node J N m nk h e t sh s w), s', w')"
    using assms by (simp add: prod_eq_iff)
  then show ?thesis by blast
next
  case Update_map
  with assms show ?thesis by (auto simp: prod_eq_iff intro: update_map_info_registry)
next
  case Online
  with assms show ?thesis by (auto simp: set_online_registry)
next
  case Persist
  with assms show ?thesis by (auto simp: persist_def prod_eq_iff)
next
  case Hook
  with assms show ?thesis by (auto simp: set_persist_hook_registry)
next
  case Outside
  with assms show ?thesis by simp
qed

lemma registry_change_inv:
  assumes "same_registry s s' \<or> (\<exists>r m nk h e t sh. register_node J N m nk h e t sh s w = (r, s', w'))"
    and "store_inv N s" and "below k s" and "k < 2 ^ 32"
  shows "store_inv N s' \<and> below (Suc k) s'"
  using assms(1)
proof
  assume "same_registry s s'"
  with assms(2,3) show ?thesis by (simp add: same_registry_inv) (simp add: same_registry_def below_def)
next
  assume "\<exists>r m nk h e t sh. register_node J N m nk h e t sh s w = (r, s', w')"
  then obtain r m nk h e t sh where reg: "register_node J N m nk h e t sh s w = (r, s', w')" by blast
  have ne: "st_next_node_id s \<noteq> - 1" "st_next_ip_index s \<noteq> - 1"
    using assms(3,4) by (auto simp: below_def intro!: unat_below_max)
  have "below (Suc k) s'"
    using register_node_counters [OF reg] assms(3) unat_succ [OF ne(1)] unat_succ [OF ne(2)]
    by (auto simp: below_def)
  with register_node_inv [OF assms(2) ne reg] show ?thesis by simp
qed

lemma run_calls_inv:
  assumes "store_inv N s" and "below k s" and "k + length cs \<le> 2 ^ 32"
  shows "store_inv N (fst (run_calls J N cs (s, w))) \<and> below (k + length cs) (fst (run_calls J N cs (s, w)))"
  using assms
proof (induction cs arbitrary: k s w)
  case (Cons c cs)
  obtain s' w' where step: "store_call_step J N c (s, w) = (s', w')" by fastforce
  have "store_inv N s'" "below (Suc k) s'"
    using registry_change_inv [OF store_call_step_cases [OF step] Cons.prems(1,2)] Cons.prems(3) by auto
  then show ?case using Cons.IH [of s' "Suc k" w'] Cons.prems(3) by (simp add: step)
qed simp

text \<open>
  After any sequence of fewer than \<open>2\<^sup>32 - 2\<close> calls on a store that starts without nodes
  and with its counters at 1, no two nodes share a machine key, a node id or an IPv4 address, and
  every node holds the pair of addresses that the allocator assigns to some index already used.
\<close>

theorem nodes_stay_unique:
  assumes "st_nodes s = []" and "st_next_node_id s = 1" and "st_next_ip_index s = 1"
    and "length cs \<le> 2 ^ 32 - 2"
  shows "store_inv N (fst (run_calls J N cs (s, w)))"
proof -
  have "store_inv N s" "below 2 s" using assms(1-3) by (simp_all add: store_inv_def below_def)
  with run_calls_inv [of N s 2 cs J w] assms(4) show ?thesis by simp
qed

text \<open>
  When the address pool is exhausted a first registration throws, adds no node and leaves
  the state file alone, but both counters have already advanced.
\<close>

theorem register_exhausted:
  assumes "find_by_machine m s = None" and "ipv4_hosts (st_alloc s) < st_next_ip_index s"
  shows "\<exists>x. register_node J N m nk h e t sh s w = (Inl x, bump_counters s, w)"
  using pool.addr_exhausted [OF assms(2), of N] assms(1) by (auto simp: register_node_new)

section \<open>Demonstration store\<close>

text \<open>
  A store with one unused one-shot key, saved to its file: the concrete input at which the
  hypotheses of the theorems of this theory are met.
\<close>

definition demo_key :: PreauthKey where
  "demo_key = \<lparr>pk_key = ''wbkey-1'', pk_reusable = False, pk_ephemeral = False, pk_used = False,
     pk_expires_unix = 0, pk_token = ''alpha'', pk_shared = False\<rparr>"

definition demo_store :: Store where
  "demo_store = \<lparr>st_path = ''state.json'', st_alloc = cgnat, st_noise_private = replicate 32 8,
     st_next_node_id = 1, st_next_ip_index = 1, st_keys = [demo_key], st_nodes = [],
     st_persist_hook = False\<rparr>"

definition demo_world :: world where
  "demo_world =
     \<lparr>w_files = (\<lambda>_. None)(''state.json'' := Some (ref_text (snapshot_locked demo_store) @ [CHR 0x0A])),
      w_can_read = (\<lambda>_. True), w_can_open = (\<lambda>_. True), w_can_rename = (\<lambda>_. True), w_room = (\<lambda>_. None),
      w_hook_calls = [], w_hook_throws = (\<lambda>_. None)\<rparr>"

lemma ref_snapshot_text_laws: "snapshot_text_laws ref_json"
  by (simp add: snapshot_text_laws_def)

lemma ref_save:
  assumes "w_can_open w (st_path s @ ''.tmp'')" and "w_can_rename w (st_path s)" and "\<not> st_persist_hook s"
  shows "fst (save_locked ref_json s w) = Inr ()"
    and "w_can_open (snd (save_locked ref_json s w)) = w_can_open w"
    and "w_can_rename (snd (save_locked ref_json s w)) = w_can_rename w"
    and "w_room (snd (save_locked ref_json s w)) = w_room w"
  using assms by (auto simp: save_locked_def write_state_eq Let_def)

lemma demo_room [simp]: "w_room demo_world p = None" "w_can_read demo_world p"
  by (simp_all add: demo_world_def)

lemma demo_save:
  "st_path s = ''state.json'' \<Longrightarrow> \<not> st_persist_hook s \<Longrightarrow>
   save_locked ref_json s demo_world = (Inr (), snd (save_locked ref_json s demo_world))"
  using ref_save(1) [of demo_world s] by (simp add: prod_eq_iff demo_world_def)

lemma demo_reload_read:
  "reload_read ref_json demo_store demo_world = Some (JArr (map key_to_json (st_keys demo_store)))"
  by (simp add: reload_read_def readable_def demo_world_def demo_store_def snapshot_locked_def)

lemma demo_in_range: "\<forall>k\<in>set (st_keys demo_store). int32_range (pk_expires_unix k)"
  by (simp add: demo_store_def demo_key_def int32_range_def)

lemma demo_consume:
  "consume_preauth ref_json 100 ''wbkey-1'' demo_store demo_world =
     (Inr (Some (claim_of demo_key)), mark_used ''wbkey-1'' demo_store,
      snd (save_locked ref_json (mark_used ''wbkey-1'' demo_store) demo_world))"
proof -
  have "reload_keys_from_disk ref_json demo_store demo_world = (Inr (), demo_store)"
    using reload_install_keys [OF ref_json_laws demo_in_range, of demo_store]
    by (simp add: reload_keys_from_disk_def demo_reload_read)
  moreover have "usable 100 demo_key" by (simp add: usable_def demo_key_def)
  moreover have "find_key ''wbkey-1'' demo_store = Some demo_key"
    by (simp add: demo_store_def demo_key_def)
  ultimately show ?thesis
    using demo_save [of "mark_used ''wbkey-1'' demo_store"]
    by (simp add: consume_preauth_def consume_locked_eq save_and_return_Inr) (simp add: demo_store_def)
qed

lemma demo_plan:
  "write_plan ref_json ''state.json'' j demo_world =
     (Inr (), [Truncate ''state.json.tmp'', Append ''state.json.tmp'' (ref_text j @ [CHR 0x0A]),
               Rename ''state.json.tmp'' ''state.json''])"
  by (simp add: write_plan_def written_def demo_world_def Let_def)

lemma demo_path [simp]: "st_path demo_store = ''state.json''"
  by (simp add: demo_store_def)

theorem save_locked_atomic_witness:
  "\<exists>fs t. fs = fold file_op_step [Truncate ''state.json.tmp'', Append ''state.json.tmp'' (ref_text (snapshot_locked demo_store) @ [CHR 0x0A]),
       Rename ''state.json.tmp'' ''state.json''] (w_files demo_world) \<and>
     nl_dump2 ref_json (snapshot_locked demo_store) = Some t \<and> fs ''state.json'' = Some (t @ [CHR 0x0A]) \<and>
     fs ''other'' = w_files demo_world ''other''"
  using save_locked_atomic [OF _ _ demo_plan [of "snapshot_locked demo_store", folded demo_path] refl, of 3] by auto

theorem full_device_loses_state_witness:
  "\<exists>w1 s2 w2. st_keys demo_store = [demo_key] \<and>
     save_locked ref_json demo_store (demo_world\<lparr>w_room := (\<lambda>_. Some 0)\<rparr>) = (Inr (), w1) \<and>
     w_files w1 ''state.json'' = Some [] \<and>
     new_Store ref_json hex_inet6 ''state.json'' ''100.64.0.0/16'' ''fd7a:115c:a1e0::/48'' (Some (replicate 32 1)) w1 =
       (Inr s2, w2) \<and> st_keys s2 = []"
proof -
  have "\<not> st_persist_hook demo_store" "st_keys demo_store = [demo_key]" by (simp_all add: demo_store_def)
  then show ?thesis
    using full_device_loses_state [of demo_store ref_json _ "demo_world\<lparr>w_room := (\<lambda>_. Some 0)\<rparr>",
        OF _ _ _ _ _ _ _ new_cgnat, where d = "replicate 32 1"]
    by (auto simp: demo_world_def)
qed

lemma demo_fits: "snapshot_fits demo_store"
  by (simp add: snapshot_fits_def demo_store_def demo_key_def int32_range_def)

theorem restart_restores_witness:
  "\<exists>w1. save_locked ref_json demo_store demo_world = (Inr (), w1) \<and>
     new_Store ref_json hex_inet6 ''state.json'' ''100.64.0.0/16'' ''fd7a:115c:a1e0::/48'' None w1 = (Inr demo_store, w1)"
proof -
  obtain w1 where s: "save_locked ref_json demo_store demo_world = (Inr (), w1)"
    using demo_save [of demo_store] by (auto simp: demo_store_def)
  have "st_path demo_store \<noteq> []" "st_noise_private demo_store \<noteq> replicate 32 0" "st_alloc demo_store = cgnat"
    by (simp_all add: demo_store_def replicate_eq_replicate)
  then show ?thesis
    using s restart_restores [OF ref_json_laws ref_snapshot_text_laws demo_fits s _ demo_room, of hex_inet6] new_cgnat
    by (auto simp: demo_store_def)
qed

theorem export_import_roundtrip_witness:
  "\<exists>t. dump_json ref_json demo_store = Inr t \<and>
     load_json ref_json t (demo_store\<lparr>st_keys := []\<rparr>) = (Inr (), demo_store)"
proof -
  have d: "dump_json ref_json demo_store = Inr (ref_text (snapshot_locked demo_store))"
    by (simp add: dump_json_def)
  show ?thesis
    using d export_import_roundtrip [OF ref_json_laws ref_snapshot_text_laws demo_fits d,
        of "demo_store\<lparr>st_keys := []\<rparr>"]
    by (auto simp: demo_store_def)
qed

definition late_key :: PreauthKey where
  "late_key = demo_key\<lparr>pk_expires_unix := 2 ^ 31\<rparr>"

theorem far_expiry_not_restored_witness:
  "\<exists>k'. key_from_json ref_json (key_to_json late_key) = Inr k' \<and>
     pk_expires_unix k' \<noteq> pk_expires_unix late_key"
proof -
  have r: "\<not> int32_range (pk_expires_unix late_key)" by (simp add: late_key_def int32_range_def)
  obtain k' where k': "key_from_json ref_json (key_to_json late_key) = Inr k'"
    by (simp add: key_from_json_def key_to_json_def json_value_obj)
  show ?thesis using k' far_expiry_not_restored [OF r k'] by blast
qed

theorem one_shot_key_once_witness:
  "\<exists>c s1 w1. consume_preauth ref_json 100 ''wbkey-1'' demo_store demo_world = (Inr (Some c), s1, w1) \<and>
     consume_preauth ref_json 200 ''wbkey-1'' s1 w1 = (Inr None, s1, w1)"
proof -
  let ?s1 = "mark_used ''wbkey-1'' demo_store"
  have k: "find_key ''wbkey-1'' ?s1 = Some (demo_key\<lparr>pk_used := True\<rparr>)"
    "\<not> pk_reusable (demo_key\<lparr>pk_used := True\<rparr>)"
    "\<forall>k\<in>set (st_keys ?s1). int32_range (pk_expires_unix k)"
    by (simp_all add: demo_store_def demo_key_def int32_range_def)
  show ?thesis
    using demo_consume
      one_shot_key_once [OF ref_json_laws ref_snapshot_text_laws demo_consume k demo_room(1), of 200]
    by blast
qed

theorem stale_reload_double_use_witness:
  "\<exists>c s1 w1 s2 s3 w2. consume_preauth ref_json 100 ''wbkey-1'' demo_store demo_world = (Inr (Some c), s1, w1) \<and>
     reload_install ref_json (reload_read ref_json demo_store demo_world) s1 = (Inr (), s2) \<and>
     consume_locked ref_json 100 ''wbkey-1'' s2 w1 = (Inr (Some c), s3, w2)"
proof -
  let ?s1 = "mark_used ''wbkey-1'' demo_store"
  let ?w1 = "snd (save_locked ref_json ?s1 demo_world)"
  let ?s2 = "?s1\<lparr>st_keys := st_keys demo_store\<rparr>"
  have inst: "reload_install ref_json (reload_read ref_json demo_store demo_world) ?s1 = (Inr (), ?s2)"
    using reload_install_keys [OF ref_json_laws demo_in_range, of ?s1] by (simp only: demo_reload_read)
  have save: "save_locked ref_json (mark_used ''wbkey-1'' ?s2) ?w1 =
      (Inr (), snd (save_locked ref_json (mark_used ''wbkey-1'' ?s2) ?w1))"
    using ref_save(1) [of ?w1 "mark_used ''wbkey-1'' ?s2"] ref_save(2,3) [of demo_world ?s1]
    by (simp add: prod_eq_iff demo_world_def demo_store_def)
  show ?thesis
    using demo_consume inst
      stale_reload_double_use [OF ref_json_laws demo_reload_read demo_in_range demo_consume inst save]
    by blast
qed

theorem save_loses_foreign_key_witness:
  "\<exists>w1. save_locked ref_json demo_store demo_world = (Inr (), w1) \<and>
     consume_preauth ref_json 5 ''wbkey-cli'' demo_store w1 = (Inr None, demo_store, w1)"
proof -
  have s: "save_locked ref_json demo_store demo_world = (Inr (), snd (save_locked ref_json demo_store demo_world))"
    by (rule demo_save) (simp_all add: demo_store_def)
  have n: "find_key ''wbkey-cli'' demo_store = None" by (simp add: demo_store_def demo_key_def)
  show ?thesis
    using s save_loses_foreign_key [OF ref_json_laws ref_snapshot_text_laws demo_in_range n s demo_room(1), of 5]
    by blast
qed

definition demo_node :: NodeState where
  "demo_node = fresh_node ''mkey:aa'' ''nodekey:bb'' ''alice'' False ''alpha'' False
     (''100.64.0.1'', ''fd7a::1'') demo_store"

theorem registration_fixes_group_witness:
  "\<exists>s' w' n1. node_registry.register_all (register_node ref_json hex_inet6)
       [(''mkey:aa'', ''nodekey:cc'', ''bob'', True, ''beta'', True)]
       (demo_store\<lparr>st_nodes := [demo_node]\<rparr>) demo_world = (s', w') \<and>
     find_by_machine ''mkey:aa'' s' = Some n1 \<and> nd_token n1 = ''alpha'' \<and> \<not> nd_shared n1"
proof -
  let ?s = "demo_store\<lparr>st_nodes := [demo_node]\<rparr>"
  let ?rs = "[(''mkey:aa'', ''nodekey:cc'', ''bob'', True, ''beta'', True)]"
  have f: "find_by_machine ''mkey:aa'' ?s = Some demo_node"
    by (simp add: find_by_machine_def demo_node_def fresh_node_def)
  obtain s' w' where r: "node_registry.register_all (register_node ref_json hex_inet6) ?rs ?s demo_world = (s', w')"
    by fastforce
  show ?thesis using r registration_fixes_group [OF f r] by (auto simp: demo_node_def fresh_node_def)
qed

theorem nodes_stay_unique_witness:
  "store_inv hex_inet6 (fst (run_calls ref_json hex_inet6
     [Register ''mkey:aa'' ''nodekey:bb'' ''alice'' False ''alpha'' False,
      Register ''mkey:cc'' ''nodekey:dd'' [] False ''beta'' False,
      Online ''mkey:aa'' True, Consume 7 ''wbkey-1''] (demo_store, demo_world)))"
  by (rule nodes_stay_unique) (simp_all add: demo_store_def)

theorem register_exhausted_witness:
  "\<exists>x. register_node ref_json hex_inet6 ''mkey:aa'' ''nodekey:bb'' ''alice'' False ''alpha'' False
     (demo_store\<lparr>st_next_ip_index := 0x10000\<rparr>) demo_world =
     (Inl x, bump_counters (demo_store\<lparr>st_next_ip_index := 0x10000\<rparr>), demo_world)"
  by (rule register_exhausted) (simp_all add: demo_store_def find_by_machine_def cgnat_def)

end
