(* ===== verification/Calendar.thy ===== *)
theory Calendar
  imports Prelude
begin

text \<open>
  Model of \<^verbatim>\<open>rfc3339_now\<close> of \<^verbatim>\<open>src/src/netmap.cpp\<close> with the two functions of the C library
  it calls: \<^verbatim>\<open>gmtime_r\<close>, which breaks a time into calendar fields (\<^verbatim>\<open>tm_year\<close> counts from 1900,
  \<^verbatim>\<open>tm_mon\<close> from 0), and \<^verbatim>\<open>strftime\<close> with the format of the code. The argument is the
  time in seconds since 1970 that the system clock showed. The clock counts nanoseconds in 64
  bits, so the time lies within 292 years of 1970 and the year has four digits.
\<close>

section \<open>Breaking a time down\<close>

definition leap :: "int \<Rightarrow> bool" where
  "leap y \<longleftrightarrow> 4 dvd y \<and> (\<not> 100 dvd y \<or> 400 dvd y)"

definition days_in_year :: "int \<Rightarrow> nat" where
  "days_in_year y = (if leap y then 366 else 365)"

definition month_lengths :: "int \<Rightarrow> nat list" where
  "month_lengths y = [31, if leap y then 29 else 28, 31, 30, 31, 30, 31, 31, 30, 31, 30, 31]"

record tm =
  tm_year :: int
  tm_mon :: nat
  tm_mday :: nat
  tm_hour :: nat
  tm_min :: nat
  tm_sec :: nat

text \<open>The year and the day in it, counting on from the first of January of \<open>y\<close>.\<close>

function year_loop :: "int \<Rightarrow> nat \<Rightarrow> int \<times> nat" where
  "year_loop y d = (if d < days_in_year y then (y, d) else year_loop (y + 1) (d - days_in_year y))"
  by pat_completeness auto
termination
  by (relation "measure snd") (auto simp: days_in_year_def)

declare year_loop.simps [simp del]

fun month_loop :: "nat list \<Rightarrow> nat \<Rightarrow> nat \<times> nat" where
  "month_loop [] d = (0, d)"
| "month_loop (l # ls) d =
     (if d < l then (0, d) else case month_loop ls (d - l) of (m, r) \<Rightarrow> (m + 1, r))"

text \<open>The calendar repeats after 400 years, which have 146097 days.\<close>

definition gmtime_r :: "int \<Rightarrow> tm" where
  "gmtime_r t =
     (let days = t div 86400; secs = nat (t mod 86400);
          (y, yday) = year_loop (1970 + 400 * (days div 146097)) (nat (days mod 146097));
          (m, d) = month_loop (month_lengths y) yday
      in \<lparr>tm_year = y - 1900, tm_mon = m, tm_mday = d + 1,
          tm_hour = secs div 3600, tm_min = secs div 60 mod 60, tm_sec = secs mod 60\<rparr>)"

section \<open>Text\<close>

definition two_digits :: "nat \<Rightarrow> string" where
  "two_digits n = [digit_char (n div 10), digit_char (n mod 10)]"

definition strftime :: "tm \<Rightarrow> string" where
  "strftime b =
     (let y = tm_year b + 1900 in (if y < 0 then ''-'' else []) @ to_string (nat \<bar>y\<bar>)) @ ''-'' @
     two_digits (tm_mon b + 1) @ ''-'' @ two_digits (tm_mday b) @ ''T'' @ two_digits (tm_hour b) @ '':'' @
     two_digits (tm_min b) @ '':'' @ two_digits (tm_sec b) @ ''Z''"

definition rfc3339_now :: "int \<Rightarrow> string" where
  "rfc3339_now t = strftime (gmtime_r t)"

section \<open>A reader\<close>

text \<open>
  What a client does with the text: the fields by position, and the days since 1970 by the
  closed formula of the Gregorian calendar.
\<close>

definition days_before_year :: "int \<Rightarrow> int" where
  "days_before_year y = 365 * (y - 1970) + (y - 1) div 4 - (y - 1) div 100 + (y - 1) div 400 - 477"

definition days_from_civil :: "int \<Rightarrow> nat \<Rightarrow> nat \<Rightarrow> int" where
  "days_from_civil y m d = days_before_year y + int (sum_list (take (m - 1) (month_lengths y)) + d - 1)"

definition read_rfc3339 :: "string \<Rightarrow> int" where
  "read_rfc3339 s =
     (let field = (\<lambda>i n. dec_value 0 (take n (drop i s)));
          days = days_from_civil (int (field 0 4)) (field 5 2) (field 8 2)
      in 86400 * days + int (3600 * field 11 2 + 60 * field 14 2 + field 17 2))"

section \<open>Correctness of the conversion\<close>

lemma div_step:
  fixes y n :: int
  assumes "0 < n"
  shows "y div n = (y - 1) div n + (if n dvd y then 1 else 0)"
proof (cases "n dvd y")
  case True
  then obtain q where q: "y = n * q" by blast
  have "(y - 1) div n = q - 1"
    using assms by (intro int_div_pos_eq [of _ _ _ "n - 1"]) (simp_all add: q algebra_simps)
  with True q assms show ?thesis by simp
next
  case False
  then have "0 < y mod n" using assms by (metis dvd_eq_mod_eq_0 order_le_less pos_mod_sign)
  moreover have "y mod n < n" using assms by simp
  ultimately have "(y - 1) div n = y div n"
    by (intro int_div_pos_eq [of _ _ _ "y mod n - 1"]) (simp_all add: algebra_simps)
  with False show ?thesis by simp
qed

lemma days_before_next_year: "days_before_year (y + 1) = days_before_year y + int (days_in_year y)"
proof -
  have "100 dvd y" if "400 dvd y" by (rule dvd_trans [OF _ that]) simp
  moreover have "4 dvd y" if "100 dvd y" by (rule dvd_trans [OF _ that]) simp
  moreover define a b c where "a = (y - 1) div 4" and "b = (y - 1) div 100" and "c = (y - 1) div 400"
  ultimately show ?thesis
    using div_step [of 4 y, folded a_def] div_step [of 100 y, folded b_def] div_step [of 400 y, folded c_def]
    unfolding days_before_year_def days_in_year_def leap_def add_diff_cancel_right' a_def [symmetric] b_def [symmetric] c_def [symmetric]
    by (cases "4 dvd y"; cases "100 dvd y"; cases "400 dvd y") simp_all
qed

lemma days_before_year_mono: "x \<le> y \<Longrightarrow> days_before_year x \<le> days_before_year y"
  by (induction y rule: int_ge_induct) (auto simp: days_before_next_year)

lemma days_before_era: "days_before_year (1970 + 400 * k) = 146097 * k"
proof -
  have "(1969 + 400 * k) div 4 = 492 + 100 * k" "(1969 + 400 * k) div 100 = 19 + 4 * k"
    "(1969 + 400 * k) div 400 = 4 + k"
    by (rule int_div_pos_eq [of _ _ _ 1], simp_all)
  then show ?thesis by (simp add: days_before_year_def)
qed

lemma year_loop_spec:
  "year_loop y d = (y', d') \<Longrightarrow>
   d' < days_in_year y' \<and> days_before_year y' + int d' = days_before_year y + int d"
proof (induction y d rule: year_loop.induct)
  case (1 y d)
  then show ?case
    by (cases "d < days_in_year y") (auto simp: year_loop.simps [of y d] days_before_next_year of_nat_diff)
qed

lemma month_loop_spec:
  "month_loop ls d = (m, r) \<Longrightarrow> d < sum_list ls \<Longrightarrow>
   m < length ls \<and> r < ls ! m \<and> sum_list (take m ls) + r = d"
proof (induction ls arbitrary: d m)
  case (Cons l ls)
  show ?case
  proof (cases "d < l")
    case False
    obtain k where "month_loop ls (d - l) = (k, r)" "m = Suc k" using Cons.prems(1) False by (auto split: prod.splits)
    moreover from this have "k < length ls \<and> r < ls ! k \<and> sum_list (take k ls) + r = d - l"
      using Cons.prems(2) False by (intro Cons.IH) simp_all
    ultimately show ?thesis using False by (simp add: add.assoc)
  qed (use Cons.prems in auto)
qed simp

lemma sum_month_lengths: "sum_list (month_lengths y) = days_in_year y"
  by (simp add: month_lengths_def days_in_year_def)

lemma month_length_le: "m < length (month_lengths y) \<Longrightarrow> month_lengths y ! m \<le> 31"
  by (auto simp: month_lengths_def less_Suc_eq nth_Cons')

lemma gmtime_r_spec:
  fixes t :: int
  defines "b \<equiv> gmtime_r t"
  shows "tm_mon b < 12" "1 \<le> tm_mday b" "tm_mday b \<le> 31"
    "tm_hour b < 24" "tm_min b < 60" "tm_sec b < 60"
    "86400 * days_from_civil (tm_year b + 1900) (tm_mon b + 1) (tm_mday b) +
       int (3600 * tm_hour b + 60 * tm_min b + tm_sec b) = t"
    "days_before_year (tm_year b + 1900) \<le> t div 86400"
    "t div 86400 < days_before_year (tm_year b + 1901)"
proof -
  let ?days = "t div 86400" and ?secs = "nat (t mod 86400)"
  obtain y yday where y: "year_loop (1970 + 400 * (?days div 146097)) (nat (?days mod 146097)) = (y, yday)" by fastforce
  obtain m d where m: "month_loop (month_lengths y) yday = (m, d)" by fastforce
  have b: "b = \<lparr>tm_year = y - 1900, tm_mon = m, tm_mday = d + 1,
      tm_hour = ?secs div 3600, tm_min = ?secs div 60 mod 60, tm_sec = ?secs mod 60\<rparr>"
    using y m by (simp add: b_def gmtime_r_def Let_def)
  have yday: "yday < days_in_year y" "days_before_year y + int yday = ?days"
    using year_loop_spec [OF y] by (simp_all add: days_before_era)
  have md: "m < length (month_lengths y)" "d < month_lengths y ! m" "sum_list (take m (month_lengths y)) + d = yday"
    using month_loop_spec [OF m] yday(1) by (simp_all add: sum_month_lengths)
  have secs: "?secs < 86400" "int ?secs = t mod 86400" by simp_all
  have "?secs div 3600 = ?secs div 60 div 60" by (simp add: div_mult2_eq [symmetric])
  then have "3600 * (?secs div 3600) + 60 * (?secs div 60 mod 60) + ?secs mod 60 = ?secs"
    using div_mult_mod_eq [of "?secs" 60] div_mult_mod_eq [of "?secs div 60" 60] by linarith
  then show "86400 * days_from_civil (tm_year b + 1900) (tm_mon b + 1) (tm_mday b) +
      int (3600 * tm_hour b + 60 * tm_min b + tm_sec b) = t"
    using yday(2) md(3) secs(2) by (simp add: b days_from_civil_def del: of_nat_add)
  show "tm_mon b < 12" "1 \<le> tm_mday b" "tm_mday b \<le> 31"
    using md(1,2) month_length_le [OF md(1)] by (simp_all add: b month_lengths_def)
  show "tm_hour b < 24" "tm_min b < 60" "tm_sec b < 60" using secs(1) by (simp_all add: b less_mult_imp_div_less)
  show "days_before_year (tm_year b + 1900) \<le> ?days" "?days < days_before_year (tm_year b + 1901)"
    using yday days_before_next_year [of y] by (simp_all add: b add.commute)
qed

lemma dec_value_two_digits: "n < 100 \<Longrightarrow> dec_value 0 (two_digits n) = n"
  by (simp add: two_digits_def dec_value_def digit_char_props)

lemma length_to_string_4: "1000 \<le> n \<Longrightarrow> n < 10000 \<Longrightarrow> length (to_string n) = 4"
  by (simp add: to_string_big to_string_small)

text \<open>
  C32: The time stamps in the maps are right: for every time the system clock can show, the text is
  a 20-character time stamp in UTC, and reading its fields by the rules of the Gregorian calendar
  gives back the very second.
\<close>

theorem rfc3339_roundtrip:
  assumes "- (2 ^ 63) \<le> ns" "ns < 2 ^ 63" "t = ns div 1000000000"
  shows "length (rfc3339_now t) = 20 \<and> read_rfc3339 (rfc3339_now t) = t"
proof -
  let ?b = "gmtime_r t" and ?y = "tm_year (gmtime_r t) + 1900"
  have "- 9223372037 \<le> t" "t \<le> 9223372036" using assms by auto
  then have "- 106752 \<le> t div 86400" "t div 86400 \<le> 106751" by auto
  then have "\<not> ?y \<le> 999" "\<not> 10000 \<le> ?y"
    using gmtime_r_spec(8,9) [of t] days_before_year_mono [of "?y + 1" 1000] days_before_year_mono [of 10000 ?y]
    by (auto simp: days_before_year_def)
  then have y: "1000 \<le> nat ?y" "nat ?y < 10000" "0 \<le> ?y" by simp_all
  define ys where "ys = to_string (nat ?y)"
  have ys: "length ys = 4" "dec_value 0 ys = nat ?y" using y length_to_string_4 by (simp_all add: ys_def)
  obtain c1 c2 c3 c4 where c: "ys = [c1, c2, c3, c4]"
    using ys(1) by (auto simp: numeral_eq_Suc length_Suc_conv)
  have form: "rfc3339_now t = [c1, c2, c3, c4] @ ''-'' @ two_digits (tm_mon ?b + 1) @ ''-'' @ two_digits (tm_mday ?b) @ ''T'' @
      two_digits (tm_hour ?b) @ '':'' @ two_digits (tm_min ?b) @ '':'' @ two_digits (tm_sec ?b) @ ''Z''"
    using y c by (simp add: rfc3339_now_def strftime_def Let_def ys_def)
  have f: "dec_value 0 (two_digits (tm_mon ?b + 1)) = tm_mon ?b + 1" "dec_value 0 (two_digits (tm_mday ?b)) = tm_mday ?b"
    "dec_value 0 (two_digits (tm_hour ?b)) = tm_hour ?b" "dec_value 0 (two_digits (tm_min ?b)) = tm_min ?b"
    "dec_value 0 (two_digits (tm_sec ?b)) = tm_sec ?b"
    using gmtime_r_spec(1-6) [of t] by (intro dec_value_two_digits; simp)+
  have fields: "take 4 (drop 0 (rfc3339_now t)) = ys" "take 2 (drop 5 (rfc3339_now t)) = two_digits (tm_mon ?b + 1)"
    "take 2 (drop 8 (rfc3339_now t)) = two_digits (tm_mday ?b)" "take 2 (drop 11 (rfc3339_now t)) = two_digits (tm_hour ?b)"
    "take 2 (drop 14 (rfc3339_now t)) = two_digits (tm_min ?b)" "take 2 (drop 17 (rfc3339_now t)) = two_digits (tm_sec ?b)"
    by (simp_all add: form c two_digits_def)
  have "read_rfc3339 (rfc3339_now t) =
      86400 * days_from_civil ?y (tm_mon ?b + 1) (tm_mday ?b) + int (3600 * tm_hour ?b + 60 * tm_min ?b + tm_sec ?b)"
    unfolding read_rfc3339_def Let_def fields f ys(2) using y(3) by simp
  then show ?thesis using gmtime_r_spec(7) [of t] by (simp add: form two_digits_def)
qed

lemma digit_char_numeral:
  "digit_char 0 = CHR ''0''" "digit_char (Suc 0) = CHR ''1''" "digit_char (Suc (Suc 0)) = CHR ''2''" "digit_char 2 = CHR ''2''" "digit_char 3 = CHR ''3''"
  "digit_char 4 = CHR ''4''" "digit_char 5 = CHR ''5''" "digit_char 6 = CHR ''6''" "digit_char 9 = CHR ''9''"
  by code_simp+

theorem rfc3339_roundtrip_witness:
  "rfc3339_now 951827696 = ''2000-02-29T12:34:56Z'' \<and> read_rfc3339 ''2000-02-29T12:34:56Z'' = 951827696"
proof -
  have "gmtime_r 951827696 = \<lparr>tm_year = 100, tm_mon = 1, tm_mday = 29, tm_hour = 12, tm_min = 34, tm_sec = 56\<rparr>"
    by (simp add: gmtime_r_def year_loop.simps days_in_year_def leap_def month_lengths_def)
  then have "rfc3339_now 951827696 = ''2000-02-29T12:34:56Z''"
    by (simp add: rfc3339_now_def strftime_def two_digits_def to_string_big to_string_small digit_char_numeral)
  then show ?thesis using rfc3339_roundtrip [of 951827696000000000 951827696] by simp
qed

end
