(* ===== verification/Netmap.thy ===== *)
theory Netmap
  imports State Calendar
begin

text \<open>
  Model of \<^verbatim>\<open>src/src/netmap.cpp\<close>: which nodes a node may see, the JSON map response
  built for it, and the framing of that response. The wall clock is an argument: \<open>now\<close> is the
  time it showed for the response and \<open>created n\<close> what it showed while node \<open>n\<close> was converted. \<^verbatim>\<open>ZSTD_compress\<close> is an argument too
  (\<^const>\<open>None\<close> when \<^verbatim>\<open>ZSTD_isError\<close> holds).
\<close>

section \<open>Visibility\<close>

definition node_visible_to :: "NodeState \<Rightarrow> NodeState \<Rightarrow> bool" where
  "node_visible_to self peer \<longleftrightarrow>
     (if nd_id self = nd_id peer then True
      else if nd_shared self \<or> nd_shared peer then True
      else nd_token self = nd_token peer)"

section \<open>JSON of one node\<close>

definition host_or_default :: "NodeState \<Rightarrow> string" where
  "host_or_default n = (if nd_hostname n = [] then ''node-'' @ nd_stable_id n else nd_hostname n)"

definition node_to_tailcfg :: "int \<Rightarrow> NodeState \<Rightarrow> string \<Rightarrow> bool \<Rightarrow> json" where
  "node_to_tailcfg created node domain self =
     (let name0 = host_or_default node;
          name = (if last name0 \<noteq> CHR ''.'' then name0 @ ''.'' @ domain @ ''.'' else name0);
          addresses = JArr [JStr (nd_ipv4 node @ ''/32''), JStr (nd_ipv6 node @ ''/128'')]
      in obj
        ([(''ID'', JInt (uint (nd_id node))), (''StableID'', JStr (nd_stable_id node)),
          (''Name'', JStr name), (''User'', JInt 1), (''Key'', JStr (nd_node_key node)),
          (''Machine'', JStr (nd_machine_key node))] @
         (if nd_disco_key node \<noteq> [] then [(''DiscoKey'', JStr (nd_disco_key node))] else []) @
         [(''Addresses'', addresses), (''AllowedIPs'', addresses)] @
         (if nd_endpoints node \<noteq> [] then [(''Endpoints'', JArr (map JStr (nd_endpoints node)))] else []) @
         [(''HomeDERP'', JInt 0), (''Created'', JStr (rfc3339_now created)), (''MachineAuthorized'', JBool True),
          (''Online'', JBool (nd_online node \<or> self)), (''Cap'', JInt 131),
          (''Hostinfo'', obj [(''Hostname'', JStr (nd_hostname node))])]))"

definition build_register_response :: json where
  "build_register_response = obj
     [(''User'', user_profile), (''Login'', login_profile), (''NodeKeyExpired'', JBool False),
      (''MachineAuthorized'', JBool True), (''AuthURL'', JStr []), (''Error'', JStr [])]"

definition derp_region :: "int \<Rightarrow> string \<Rightarrow> string \<Rightarrow> string \<Rightarrow> string \<Rightarrow> string \<Rightarrow> json" where
  "derp_region rid code name node host ipv4 = obj
     [(''RegionID'', JInt rid), (''RegionCode'', JStr code), (''RegionName'', JStr name),
      (''Nodes'', JArr [obj [(''Name'', JStr node), (''RegionID'', JInt rid),
         (''HostName'', JStr host), (''IPv4'', JStr ipv4), (''CanPort80'', JBool True)]])]"

definition default_derp_map :: json where
  "default_derp_map = obj
     [(''omitDefaultRegions'', JBool True),
      (''Regions'', obj
         [(''1'', derp_region 1 ''nyc'' ''New York City'' ''1f'' ''derp1f.tailscale.com'' ''199.38.181.104''),
          (''2'', derp_region 2 ''sfo'' ''San Francisco'' ''2d'' ''derp2d.tailscale.com'' ''192.73.252.65''),
          (''4'', derp_region 4 ''fra'' ''Frankfurt'' ''4f'' ''derp4f.tailscale.com'' ''185.40.234.219''),
          (''8'', derp_region 8 ''lhr'' ''London'' ''8e'' ''derp8e.tailscale.com'' ''176.58.92.144'')])]"

section \<open>The full map\<close>

definition any_port :: "string \<Rightarrow> json" where
  "any_port ip = obj [(''IP'', JStr ip), (''Ports'', obj [(''First'', JInt 0), (''Last'', JInt 65535)])]"

definition filter_cidrs :: "NodeState \<Rightarrow> string list" where
  "filter_cidrs n =
     (if nd_ipv4 n = [] \<and> nd_ipv6 n = [] then []
      else (if nd_ipv4 n \<noteq> [] then [nd_ipv4 n @ ''/32''] else []) @
           (if nd_ipv6 n \<noteq> [] then [nd_ipv6 n @ ''/128''] else []))"

definition dns_records :: "NodeState \<Rightarrow> string \<Rightarrow> json list" where
  "dns_records n domain =
     (let name = host_or_default n @ ''.'' @ domain in
      [obj [(''Name'', JStr name), (''Type'', JStr ''A''), (''Value'', JStr (nd_ipv4 n))],
       obj [(''Name'', JStr name), (''Type'', JStr ''AAAA''), (''Value'', JStr (nd_ipv6 n))]])"

text \<open>The arrays the loop over all nodes fills.\<close>

record map_acc =
  ma_peers :: "json list"
  ma_extra :: "json list"
  ma_src_ips :: "json list"
  ma_dst_ports :: "json list"

fun map_loop :: "(NodeState \<Rightarrow> int) \<Rightarrow> NodeState \<Rightarrow> string \<Rightarrow> NodeState list \<Rightarrow> map_acc \<Rightarrow> map_acc" where
  "map_loop created self domain [] acc = acc"
| "map_loop created self domain (n # ns) acc =
     (if \<not> node_visible_to self n then map_loop created self domain ns acc
      else
        let acc1 = acc\<lparr>ma_src_ips := ma_src_ips acc @ map JStr (filter_cidrs n),
                       ma_dst_ports := ma_dst_ports acc @ map any_port (filter_cidrs n),
                       ma_extra := ma_extra acc @ dns_records n domain\<rparr>
        in if nd_id n = nd_id self then map_loop created self domain ns acc1
           else map_loop created self domain ns
                  (acc1\<lparr>ma_peers := ma_peers acc1 @ [node_to_tailcfg (created n) n domain False]\<rparr>))"

definition build_full_map ::
  "(NodeState \<Rightarrow> int) \<Rightarrow> int \<Rightarrow> NodeState \<Rightarrow> NodeState list \<Rightarrow> string \<Rightarrow> json" where
  "build_full_map created now self all domain =
     (let acc = map_loop created self domain all
                  \<lparr>ma_peers = [], ma_extra = [], ma_src_ips = [], ma_dst_ports = []\<rparr>;
          allow = JArr [obj
            [(''SrcIPs'', JArr (if ma_src_ips acc = [] then [JStr ''*''] else ma_src_ips acc)),
             (''DstPorts'', JArr (if ma_dst_ports acc = [] then [any_port ''*''] else ma_dst_ports acc))]]
      in obj
        [(''KeepAlive'', JBool False), (''ControlTime'', JStr (rfc3339_now now)),
         (''Node'', node_to_tailcfg (created self) self domain True),
         (''DERPMap'', default_derp_map), (''Peers'', JArr (ma_peers acc)),
         (''DNSConfig'', obj
            [(''Resolvers'', JArr []), (''FallbackResolvers'', JArr []),
             (''Domains'', JArr [JStr domain]), (''Proxied'', JBool True),
             (''Routes'', obj [(domain, JArr [])]), (''ExtraRecords'', JArr (ma_extra acc))]),
         (''Domain'', JStr domain), (''PacketFilter'', allow),
         (''UserProfiles'', JArr [obj [(''ID'', JInt 1), (''LoginName'', JStr ''wirebone@local''),
            (''DisplayName'', JStr ''wirebone'')]])])"

definition build_keepalive :: "int \<Rightarrow> json" where
  "build_keepalive now = obj [(''KeepAlive'', JBool True), (''ControlTime'', JStr (rfc3339_now now))]"

section \<open>Framing\<close>

text \<open>The compression request of the client is ignored: frames are always compressed.\<close>

definition encode_map_frame ::
  "nlohmann \<Rightarrow> (bytes \<Rightarrow> bytes option) \<Rightarrow> json \<Rightarrow> bool \<Rightarrow> bytes res" where
  "encode_map_frame J compress msg zstd =
     (case nl_dump J msg of
        None \<Rightarrow> Inl Json_type_error
      | Some text \<Rightarrow>
          (case compress (bytes_of_string text) of
             None \<Rightarrow> Inl (Runtime_error ''zstd compress failed'')
           | Some payload \<Rightarrow> Inr (put_le32 (word_of_nat (length payload)) @ payload)))"

section \<open>What the map shows\<close>

lemma node_visible_iff:
  "node_visible_to self peer \<longleftrightarrow>
     nd_id self = nd_id peer \<or> nd_shared self \<or> nd_shared peer \<or> nd_token self = nd_token peer"
  by (simp add: node_visible_to_def)

lemma map_loop_eq:
  "map_loop created self domain ns acc =
     (let vis = filter (node_visible_to self) ns in
      \<lparr>ma_peers = ma_peers acc @
         map (\<lambda>n. node_to_tailcfg (created n) n domain False) (filter (\<lambda>n. nd_id n \<noteq> nd_id self) vis),
       ma_extra = ma_extra acc @ concat (map (\<lambda>n. dns_records n domain) vis),
       ma_src_ips = ma_src_ips acc @ map JStr (concat (map filter_cidrs vis)),
       ma_dst_ports = ma_dst_ports acc @ map any_port (concat (map filter_cidrs vis))\<rparr>)"
  by (induction ns arbitrary: acc) (auto simp: Let_def)

definition map_peers :: "json \<Rightarrow> json list" where
  "map_peers j = (case json_find j ''Peers'' of Some v \<Rightarrow> json_items v | None \<Rightarrow> [])"

definition map_dns :: "json \<Rightarrow> json list" where
  "map_dns j = (case json_find j ''DNSConfig'' of
     Some v \<Rightarrow> (case json_find v ''ExtraRecords'' of Some e \<Rightarrow> json_items e | None \<Rightarrow> []) | None \<Rightarrow> [])"

definition map_sources :: "json \<Rightarrow> json list" where
  "map_sources j = (case json_find j ''PacketFilter'' of
     Some v \<Rightarrow> concat (map (\<lambda>r. case json_find r ''SrcIPs'' of Some e \<Rightarrow> json_items e | None \<Rightarrow> [])
                        (json_items v)) | None \<Rightarrow> [])"

definition map_ports :: "json \<Rightarrow> json list" where
  "map_ports j = (case json_find j ''PacketFilter'' of
     Some v \<Rightarrow> concat (map (\<lambda>r. case json_find r ''DstPorts'' of Some e \<Rightarrow> json_items e | None \<Rightarrow> [])
                        (json_items v)) | None \<Rightarrow> [])"

lemma map_peers_full:
  "map_peers (build_full_map created now self all domain) =
     map (\<lambda>n. node_to_tailcfg (created n) n domain False)
       (filter (\<lambda>n. node_visible_to self n \<and> nd_id n \<noteq> nd_id self) all)"
  by (simp add: map_peers_def build_full_map_def map_loop_eq Let_def conj_commute)

lemma map_dns_full:
  "map_dns (build_full_map created now self all domain) =
     concat (map (\<lambda>n. dns_records n domain) (filter (node_visible_to self) all))"
  by (simp add: map_dns_def build_full_map_def map_loop_eq Let_def)

lemma map_sources_full:
  "map_sources (build_full_map created now self all domain) =
     (let ips = concat (map filter_cidrs (filter (node_visible_to self) all))
      in if ips = [] then [JStr ''*''] else map JStr ips)"
  by (auto simp: map_sources_def build_full_map_def map_loop_eq Let_def)

lemma map_ports_full:
  "map_ports (build_full_map created now self all domain) =
     (let ips = concat (map filter_cidrs (filter (node_visible_to self) all))
      in if ips = [] then [any_port ''*''] else map any_port ips)"
  by (auto simp: map_ports_def build_full_map_def map_loop_eq Let_def)

lemma filter_cidrs_not_wildcard: "''*'' \<notin> set (filter_cidrs n)"
  by (auto simp: filter_cidrs_def append_eq_Cons_conv)

lemma filter_cidrs_nonempty: "filter_cidrs n = [] \<longleftrightarrow> nd_ipv4 n = [] \<and> nd_ipv6 n = []"
  by (simp add: filter_cidrs_def)

lemma any_port_ip: "json_find (any_port ip) ''IP'' = Some (JStr ip)"
  by (simp add: any_port_def)

lemma any_port_eq [simp]: "any_port a = any_port b \<longleftrightarrow> a = b"
  by (metis any_port_ip json.inject(4) option.inject)

lemma tailcfg_machine [simp]:
  "json_find (node_to_tailcfg created n domain self) ''Machine'' = Some (JStr (nd_machine_key n))"
  by (simp add: node_to_tailcfg_def Let_def)

lemma build_full_map_cong:
  "filter (node_visible_to self) all = filter (node_visible_to self) all' \<Longrightarrow>
   build_full_map created now self all domain = build_full_map created now self all' domain"
  by (simp add: build_full_map_def map_loop_eq Let_def)

text \<open>
  C16: The map sent to a node depends on no node it may not see. If two registries agree on the
  nodes visible to it, they produce the same response, octet for octet of the JSON value: peers,
  DNS records, packet filter and all.
\<close>

theorem map_noninterference:
  assumes "filter (node_visible_to self) all = filter (node_visible_to self) all'"
  shows "build_full_map created now self all domain = build_full_map created now self all' domain"
  using assms by (rule build_full_map_cong)

text \<open>
  C15: For a node that is not shared, let its group be the registered nodes of the same token, the
  shared nodes and the node itself. Its map has exactly one peer entry for each node of the group
  other than itself, and exactly the DNS records of the group's nodes, in the order of the
  registry. The sources and the destinations that its packet filter allows are exactly the
  addresses of the group's nodes; the wildcard, which opens the filter to every address, stands
  there only when no node of the group has an address, so never in the map of a registered node
  that has one.
\<close>

theorem map_group_isolation:
  fixes self :: NodeState and all :: "NodeState list" and created :: "NodeState \<Rightarrow> int" and now :: int and domain :: string
  assumes "\<not> nd_shared self"
  defines "G \<equiv> filter (\<lambda>n. nd_id n = nd_id self \<or> nd_shared n \<or> nd_token n = nd_token self) all"
    and "M \<equiv> build_full_map created now self all domain"
  shows "map_peers M = map (\<lambda>n. node_to_tailcfg (created n) n domain False) (filter (\<lambda>n. nd_id n \<noteq> nd_id self) G) \<and>
    map_dns M = concat (map (\<lambda>n. dns_records n domain) G) \<and>
    map_sources M = (if \<forall>n \<in> set G. filter_cidrs n = [] then [JStr ''*'']
                     else map JStr (concat (map filter_cidrs G))) \<and>
    map_ports M = (if \<forall>n \<in> set G. filter_cidrs n = [] then [any_port ''*'']
                   else map any_port (concat (map filter_cidrs G))) \<and>
    (self \<in> set all \<and> (nd_ipv4 self \<noteq> [] \<or> nd_ipv6 self \<noteq> []) \<longrightarrow>
       JStr ''*'' \<notin> set (map_sources M) \<and> any_port ''*'' \<notin> set (map_ports M))"
proof -
  have "node_visible_to self = (\<lambda>n. nd_id n = nd_id self \<or> nd_shared n \<or> nd_token n = nd_token self)"
    using assms(1) by (auto simp: node_visible_iff)
  then have vis: "filter (node_visible_to self) all = G" by (simp add: G_def)
  have peers: "map_peers M = map (\<lambda>n. node_to_tailcfg (created n) n domain False) (filter (\<lambda>n. nd_id n \<noteq> nd_id self) G)"
    unfolding M_def map_peers_full vis [symmetric] by (simp add: conj_commute)
  have dns: "map_dns M = concat (map (\<lambda>n. dns_records n domain) G)"
    unfolding M_def map_dns_full vis ..
  have none: "concat (map filter_cidrs G) = [] \<longleftrightarrow> (\<forall>n \<in> set G. filter_cidrs n = [])" by simp
  have flt: "map_sources M = (if \<forall>n \<in> set G. filter_cidrs n = [] then [JStr ''*''] else map JStr (concat (map filter_cidrs G)))"
    "map_ports M = (if \<forall>n \<in> set G. filter_cidrs n = [] then [any_port ''*''] else map any_port (concat (map filter_cidrs G)))"
    unfolding M_def map_sources_full map_ports_full vis Let_def none by (rule refl)+
  have closed: "JStr ''*'' \<notin> set (map_sources M) \<and> any_port ''*'' \<notin> set (map_ports M)"
    if "self \<in> set all" "nd_ipv4 self \<noteq> [] \<or> nd_ipv6 self \<noteq> []"
  proof -
    have "self \<in> set G" "filter_cidrs self \<noteq> []" using that by (auto simp: G_def filter_cidrs_nonempty)
    then show ?thesis unfolding flt using filter_cidrs_not_wildcard by auto
  qed
  show ?thesis using peers dns flt closed by blast
qed

text \<open>
  Visibility is symmetric: a node appears among the peers of another exactly when that other
  one appears among its own, so the maps of two nodes always agree on whether they are peers.
\<close>

theorem peers_symmetric:
  assumes "a \<in> set all" and "b \<in> set all" and "nd_id a \<noteq> nd_id b"
    and "distinct (map nd_machine_key all)"
  shows "(JStr (nd_machine_key b) \<in> (\<lambda>p. the (json_find p ''Machine'')) `
            set (map_peers (build_full_map created now a all domain))) \<longleftrightarrow>
         (JStr (nd_machine_key a) \<in> (\<lambda>p. the (json_find p ''Machine'')) `
            set (map_peers (build_full_map created now b all domain)))"
proof -
  have inj: "x \<in> set all \<Longrightarrow> y \<in> set all \<Longrightarrow> nd_machine_key x = nd_machine_key y \<Longrightarrow> x = y" for x y
    using assms(4) by (meson distinct_map inj_onD)
  have mem: "JStr (nd_machine_key y) \<in> (\<lambda>p. the (json_find p ''Machine'')) `
      set (map_peers (build_full_map created now x all domain)) \<longleftrightarrow> node_visible_to x y"
    if "y \<in> set all" "nd_id x \<noteq> nd_id y" for x y
    using that inj by (auto simp: map_peers_full image_iff)
  show ?thesis
    using mem [OF assms(2,3)] mem [OF assms(1)] assms(3) by (auto simp: node_visible_iff)
qed

section \<open>Reading a frame\<close>

text \<open>The client's side: a little-endian length, then that many octets.\<close>

fun split_frame :: "bytes \<Rightarrow> (bytes \<times> bytes) option" where
  "split_frame (a # b # c # d # rest) =
     (let n = unat (get_be32 d c b a) in if n \<le> length rest then Some (take n rest, drop n rest) else None)"
| "split_frame _ = None"

lemma split_frame_put:
  "length p < 2 ^ 32 \<Longrightarrow> split_frame (put_le32 (word_of_nat (length p)) @ p @ rest) = Some (p, rest)"
  by (simp add: put_le32_def get_be32_put unat_of_nat)

text \<open>
  Frames are self-delimiting: a client that reads the length prefix of a stream of frames
  gets back exactly the compressed payload and the rest of the stream, whatever compression flag
  the request carried, as long as the payload is shorter than 4 GiB.
\<close>

theorem map_frame_roundtrip:
  assumes "encode_map_frame J compress msg zstd = Inr framed" and "length framed < 2 ^ 32"
  shows "\<exists>text payload. nl_dump J msg = Some text \<and> compress (bytes_of_string text) = Some payload \<and>
     split_frame (framed @ rest) = Some (payload, rest)"
  using assms split_frame_put
  by (auto simp: encode_map_frame_def put_le32_def split: option.splits)

section \<open>A small registry\<close>

definition sample_node :: "u64 \<Rightarrow> string \<Rightarrow> string \<Rightarrow> string \<Rightarrow> bool \<Rightarrow> NodeState" where
  "sample_node i host v4 token shared =
     \<lparr>nd_id = i, nd_stable_id = to_string (unat i), nd_hostname = host,
      nd_machine_key = ''mkey:'' @ host, nd_node_key = ''nodekey:'' @ host, nd_disco_key = [],
      nd_ipv4 = v4, nd_ipv6 = ''fd7a::'' @ to_string (unat i), nd_endpoints = [], nd_online = False,
      nd_ephemeral = False, nd_token = token, nd_shared = shared\<rparr>"

lemma sample_node_simps [simp]:
  "nd_id (sample_node i h v t b) = i" "nd_token (sample_node i h v t b) = t"
  "nd_shared (sample_node i h v t b) = b" "nd_machine_key (sample_node i h v t b) = ''mkey:'' @ h"
  by (simp_all add: sample_node_def)

definition sample_nodes :: "NodeState list" where
  "sample_nodes =
     [sample_node 1 ''hub'' ''100.64.0.1'' [] True, sample_node 2 ''a1'' ''100.64.0.2'' ''alpha'' False,
      sample_node 3 ''a2'' ''100.64.0.3'' ''alpha'' False, sample_node 4 ''b1'' ''100.64.0.4'' ''beta'' False]"

theorem map_noninterference_witness:
  "build_full_map (\<lambda>_. 7) 7 (sample_nodes ! 1) sample_nodes ''local'' =
   build_full_map (\<lambda>_. 7) 7 (sample_nodes ! 1) (take 3 sample_nodes) ''local''"
  by (rule map_noninterference) (simp add: sample_nodes_def node_visible_iff)

theorem map_group_isolation_witness:
  "map_peers (build_full_map (\<lambda>_. 7) 7 (sample_nodes ! 1) sample_nodes ''local'') =
     [node_to_tailcfg 7 (sample_nodes ! 0) ''local'' False, node_to_tailcfg 7 (sample_nodes ! 2) ''local'' False] \<and>
   map_sources (build_full_map (\<lambda>_. 7) 7 (sample_nodes ! 1) sample_nodes ''local'') =
     map JStr [''100.64.0.1/32'', ''fd7a::1/128'', ''100.64.0.2/32'', ''fd7a::2/128'', ''100.64.0.3/32'', ''fd7a::3/128''] \<and>
   JStr ''*'' \<notin> set (map_sources (build_full_map (\<lambda>_. 7) 7 (sample_nodes ! 1) sample_nodes ''local''))"
proof -
  have ns: "\<not> nd_shared (sample_nodes ! 1)" by (simp add: sample_nodes_def)
  have "filter (\<lambda>n. nd_id n = nd_id (sample_nodes ! 1) \<or> nd_shared n \<or> nd_token n = nd_token (sample_nodes ! 1)) sample_nodes =
      [sample_nodes ! 0, sample_nodes ! 1, sample_nodes ! 2]"
    by (simp add: sample_nodes_def)
  note iso = map_group_isolation [OF ns, of "\<lambda>_. 7" 7 sample_nodes "''local''", unfolded this]
  have c: "filter_cidrs (sample_nodes ! 0) = [''100.64.0.1/32'', ''fd7a::1/128'']"
    "filter_cidrs (sample_nodes ! 1) = [''100.64.0.2/32'', ''fd7a::2/128'']"
    "filter_cidrs (sample_nodes ! 2) = [''100.64.0.3/32'', ''fd7a::3/128'']"
    "nd_id (sample_nodes ! 0) = 1" "nd_id (sample_nodes ! 1) = 2" "nd_id (sample_nodes ! 2) = 3"
    "sample_nodes ! 1 \<in> set sample_nodes \<and> nd_ipv4 (sample_nodes ! 1) \<noteq> []"
    by code_simp+
  show ?thesis using iso c by simp
qed

theorem peers_symmetric_witness:
  "(JStr (nd_machine_key (sample_nodes ! 2)) \<in> (\<lambda>p. the (json_find p ''Machine'')) `
      set (map_peers (build_full_map (\<lambda>_. 7) 7 (sample_nodes ! 1) sample_nodes ''local''))) \<longleftrightarrow>
   (JStr (nd_machine_key (sample_nodes ! 1)) \<in> (\<lambda>p. the (json_find p ''Machine'')) `
      set (map_peers (build_full_map (\<lambda>_. 7) 7 (sample_nodes ! 2) sample_nodes ''local'')))"
  by (rule peers_symmetric) (simp_all add: sample_nodes_def)

theorem map_frame_roundtrip_witness:
  "\<exists>framed payload. encode_map_frame (ref_json\<lparr>nl_dump := (\<lambda>_. Some ''{}'')\<rparr>) Some (obj []) True = Inr framed \<and>
     split_frame (framed @ [1, 2, 3]) = Some (payload, [1, 2, 3])"
proof -
  let ?J = "ref_json\<lparr>nl_dump := (\<lambda>_. Some ''{}'')\<rparr>"
  have e: "encode_map_frame ?J Some (obj []) True = Inr ([2, 0, 0, 0] @ bytes_of_string ''{}'')"
    by (simp add: encode_map_frame_def put_le32_def)
  have l: "length ([2, 0, 0, 0] @ bytes_of_string ''{}'') < 2 ^ 32" by simp
  show ?thesis using e map_frame_roundtrip [OF e l, of "[1, 2, 3]"] by blast
qed

end
