(* ===== verification/Socket.thy ===== *)
theory Socket
  imports Prelude
begin

text \<open>
  Stream sockets as the code uses them. What a peer sends arrives as a list of segments: a
  \<^verbatim>\<open>recv\<close> returns at most one segment's octets and at most the number asked for, and
  zero octets stand for end of stream or error, which the code treats alike. On the sending side
  a list of numbers says how many octets successive \<^verbatim>\<open>send\<close> calls accept; zero, or the end
  of the list, is a failed call. A failed call returns: the signal that Linux raises for a send to
  a closed peer, and that the code suppresses only where \<^verbatim>\<open>SO_NOSIGPIPE\<close> exists, is not
  modelled. The loops \<^verbatim>\<open>read_full\<close> and \<^verbatim>\<open>write_full\<close> of
  \<^verbatim>\<open>src/src/noise.cpp\<close> and \<^verbatim>\<open>write_all\<close> of \<^verbatim>\<open>src/src/http1.cpp\<close> are
  defined over them.
\<close>

record sock =
  sk_in :: "bytes list"
  sk_send :: "nat list"
  sk_out :: bytes

fun recv :: "nat \<Rightarrow> bytes list \<Rightarrow> bytes \<times> bytes list" where
  "recv n [] = ([], [])"
| "recv n (c # cs) = (take n c, if length c \<le> n then cs else drop n c # cs)"

text \<open>\<^verbatim>\<open>read_full\<close>: \<open>need\<close> octets are still missing from the buffer.\<close>

function read_full :: "nat \<Rightarrow> bytes list \<Rightarrow> bytes \<Rightarrow> bytes option \<times> bytes list" where
  "read_full need cs got =
     (if need = 0 then (Some got, cs)
      else case recv need cs of (r, cs') \<Rightarrow>
             if r = [] then (None, cs') else read_full (need - length r) cs' (got @ r))"
  by pat_completeness auto
termination
proof (relation "measure (\<lambda>(need, cs, got). need)", goal_cases)
  case (2 need cs got r cs')
  then have "length r \<le> need" "r \<noteq> []" by (cases cs; auto)+
  with 2 show ?case by simp
qed simp

declare read_full.simps [simp del]

fun write_full :: "bytes \<Rightarrow> nat list \<Rightarrow> bytes \<Rightarrow> bool \<times> nat list \<times> bytes" where
  "write_full [] ws out = (True, ws, out)"
| "write_full data [] out = (False, [], out)"
| "write_full data (w # ws) out =
     (if w = 0 then (False, ws, out)
      else write_full (drop w data) ws (out @ take w data))"

definition write_all :: "bytes \<Rightarrow> nat list \<Rightarrow> bytes \<Rightarrow> bool \<times> nat list \<times> bytes" where
  "write_all data ws out = write_full data ws out"

lemma recv_concat: "recv n cs = (r, cs') \<Longrightarrow> concat cs = r @ concat cs'"
  by (cases cs) (auto split: if_splits)

lemma recv_bounds: "recv n cs = (r, cs') \<Longrightarrow> length r \<le> n"
  by (cases cs) auto

text \<open>A peer never delivers an empty segment.\<close>

definition segments :: "bytes list \<Rightarrow> bool" where
  "segments cs \<longleftrightarrow> [] \<notin> set cs"

lemma recv_segments: "segments cs \<Longrightarrow> recv n cs = (r, cs') \<Longrightarrow> segments cs'"
  by (cases cs) (auto simp: segments_def split: if_splits)

lemma recv_progress: "segments cs \<Longrightarrow> cs \<noteq> [] \<Longrightarrow> 0 < n \<Longrightarrow> recv n cs = (r, cs') \<Longrightarrow> r \<noteq> []"
  by (cases cs) (auto simp: segments_def)

lemma concat_segments_Nil: "segments cs \<Longrightarrow> concat cs = [] \<longleftrightarrow> cs = []"
  by (cases cs) (auto simp: segments_def)

text \<open>
  The outcome of \<^verbatim>\<open>read_full\<close> depends on the stream only, not on how it was segmented.
\<close>

lemma read_full_spec:
  assumes "segments cs"
  shows "if need \<le> length (concat cs)
    then \<exists>cs'. read_full need cs got = (Some (got @ take need (concat cs)), cs') \<and>
        concat cs' = drop need (concat cs) \<and> segments cs'
    else fst (read_full need cs got) = None"
  using assms
proof (induction need cs got rule: read_full.induct)
  case (1 need cs got)
  show ?case
  proof (cases "need = 0 \<or> cs = []")
    case True
    then show ?thesis
      using "1.prems" by (auto simp: read_full.simps [of need cs got])
  next
    case False
    obtain r cs' where r: "recv need cs = (r, cs')" by fastforce
    have ne: "r \<noteq> []" and le: "length r \<le> need" and cat: "concat cs = r @ concat cs'" and seg: "segments cs'"
      using recv_progress [OF "1.prems"] recv_bounds [OF r] recv_concat [OF r] recv_segments [OF "1.prems" r] False r
      by auto
    have step: "read_full need cs got = read_full (need - length r) cs' (got @ r)"
      using False r ne by (simp add: read_full.simps [of need cs got])
    have IH: "if need - length r \<le> length (concat cs')
        then \<exists>cs''. read_full (need - length r) cs' (got @ r) =
            (Some ((got @ r) @ take (need - length r) (concat cs')), cs'') \<and>
            concat cs'' = drop (need - length r) (concat cs') \<and> segments cs''
        else fst (read_full (need - length r) cs' (got @ r)) = None"
      using "1.IH" [OF _ r [symmetric] ne seg] False by simp
    show ?thesis
    proof (cases "need \<le> length (concat cs)")
      case True
      then have "need - length r \<le> length (concat cs')" by (simp add: cat)
      with IH True le show ?thesis by (simp add: step cat)
    next
      case False
      then have "\<not> need - length r \<le> length (concat cs')" using le by (simp add: cat)
      with IH False show ?thesis by (simp add: step)
    qed
  qed
qed

lemma read_full_Some:
  "segments cs \<Longrightarrow> need \<le> length (concat cs) \<Longrightarrow>
   \<exists>cs'. read_full need cs [] = (Some (take need (concat cs)), cs') \<and> concat cs' = drop need (concat cs) \<and> segments cs'"
  using read_full_spec [of cs need "[]"] by simp

lemma read_full_None: "segments cs \<Longrightarrow> length (concat cs) < need \<Longrightarrow> fst (read_full need cs []) = None"
  using read_full_spec [of cs need "[]"] by simp

lemma read_full_consumes:
  "read_full need cs got = (r, cs') \<Longrightarrow> length (concat cs') \<le> length (concat cs)"
proof (induction need cs got rule: read_full.induct)
  case (1 need cs got)
  obtain x cs1 where x: "recv need cs = (x, cs1)" by fastforce
  have "length (concat cs1) \<le> length (concat cs)" using recv_concat [OF x] by simp
  then show ?case
    using "1.prems" "1.IH" [OF _ x [symmetric]] x
    by (fastforce simp: read_full.simps [of need cs got] split: if_splits)
qed

lemma read_full_Some_consumes:
  "read_full need cs got = (Some b, cs') \<Longrightarrow> length (concat cs) = need + length (concat cs')"
proof (induction need cs got rule: read_full.induct)
  case (1 need cs got)
  obtain x cs1 where x: "recv need cs = (x, cs1)" by fastforce
  have "length (concat cs) = length x + length (concat cs1)" "length x \<le> need"
    using recv_concat [OF x] recv_bounds [OF x] by simp_all
  then show ?case
    using "1.prems" "1.IH" [OF _ x [symmetric]] x
    by (fastforce simp: read_full.simps [of need cs got] split: if_splits)
qed

lemma read_full_Some_length:
  "read_full need cs got = (Some b, cs') \<Longrightarrow> length b = length got + need"
proof (induction need cs got rule: read_full.induct)
  case (1 need cs got)
  obtain x cs1 where x: "recv need cs = (x, cs1)" by fastforce
  show ?case
    using "1.prems" "1.IH" [OF _ x [symmetric]] x recv_bounds [OF x]
    by (fastforce simp: read_full.simps [of need cs got] split: if_splits)
qed

lemma write_full_True: "write_full data ws out = (True, ws', out') \<Longrightarrow> out' = out @ data"
  by (induction data ws out rule: write_full.induct) (auto split: if_splits)

lemma write_full_prefix:
  "write_full data ws out = (ok, ws', out') \<Longrightarrow> \<exists>k \<le> length data. out' = out @ take k data \<and> (ok \<longleftrightarrow> k = length data)"
proof (induction data ws out rule: write_full.induct)
  case (3 x xs w ws out)
  show ?case
  proof (cases "w = 0")
    case False
    then obtain k where k: "k \<le> length (drop w (x # xs))"
      "out' = (out @ take w (x # xs)) @ take k (drop w (x # xs))" "ok \<longleftrightarrow> k = length (drop w (x # xs))"
      using "3.IH" "3.prems" by auto
    have "out' = out @ take (min w (length (x # xs)) + k) (x # xs)"
      using k(2) by (cases "w \<le> length (x # xs)") (simp_all add: take_add)
    moreover have "min w (length (x # xs)) + k \<le> length (x # xs)" using k(1) by auto
    moreover have "ok \<longleftrightarrow> min w (length (x # xs)) + k = length (x # xs)" using k(1,3) by auto
    ultimately show ?thesis by blast
  qed (use 3 in auto)
qed auto

end
