(* ===== verification/Noise.thy ===== *)
theory Noise
  imports Crypto Socket "HOL-Library.Sublist"
begin

text \<open>
  Model of \<^verbatim>\<open>src/src/noise.cpp\<close>: both sides of the Noise IK handshake and the record
  layer \<^verbatim>\<open>NoiseConn\<close>. A handshake function returns \<open>Inl\<close> when an exception escapes,
  \<open>Inr (Inl msg)\<close> when the C++ function returns false with that error text, and
  \<open>Inr (Inr \<dots>)\<close> on success.
\<close>

section \<open>Handshake\<close>

definition kProtocolName :: string where
  "kProtocolName = ''Noise_IK_25519_ChaChaPoly_BLAKE2s''"

definition kProloguePrefix :: string where
  "kProloguePrefix = ''Tailscale Control Protocol v''"

definition kMsgInitiation :: u8 where "kMsgInitiation = 1"
definition kMsgResponse :: u8 where "kMsgResponse = 2"
definition kMsgRecord :: u8 where "kMsgRecord = 4"
definition kHeaderLen :: nat where "kHeaderLen = 3"
definition kInitHeaderLen :: nat where "kInitHeaderLen = 5"
definition kInitiationLen :: nat where "kInitiationLen = 101"
definition kResponseLen :: nat where "kResponseLen = 51"
definition kMaxMessage :: nat where "kMaxMessage = 4096"
definition kMaxPlaintext :: nat where "kMaxPlaintext = kMaxMessage - 3 - 16"

lemmas noise_consts =
  kMsgInitiation_def kMsgResponse_def kMsgRecord_def kHeaderLen_def kInitHeaderLen_def
  kInitiationLen_def kResponseLen_def kMaxMessage_def kMaxPlaintext_def

record NoiseResult =
  nr_peer_machine_public :: bytes
  nr_protocol_version :: u16
  nr_handshake_hash :: bytes
  nr_tx_key :: bytes
  nr_rx_key :: bytes

definition empty_NoiseResult :: NoiseResult where
  "empty_NoiseResult =
     \<lparr>nr_peer_machine_public = replicate 32 0, nr_protocol_version = 0, nr_handshake_hash = replicate 32 0,
      nr_tx_key = replicate 32 0, nr_rx_key = replicate 32 0\<rparr>"

definition mix_hash :: "openssl \<Rightarrow> bytes \<Rightarrow> bytes \<Rightarrow> bytes res" where
  "mix_hash L h data = blake2s256 L h data"

definition mix_dh :: "openssl \<Rightarrow> bytes \<Rightarrow> bytes \<Rightarrow> bytes \<Rightarrow> (bytes \<times> bytes) option" where
  "mix_dh L ck priv pub =
     (case res_bind (x25519_shared L priv pub) (\<lambda>shared. hkdf_blake2s L shared ck 64) of
        Inl e \<Rightarrow> None
      | Inr out \<Rightarrow> Some (take 32 out, take 32 (drop 32 out)))"

definition zero_nonce :: bytes where "zero_nonce = replicate 12 0"

definition encrypt_and_hash :: "openssl \<Rightarrow> bytes \<Rightarrow> bytes \<Rightarrow> nat \<Rightarrow> bytes \<Rightarrow> (bytes \<times> bytes) res" where
  "encrypt_and_hash L h k sz pt =
     res_bind (aead_seal L k zero_nonce h pt) (\<lambda>sealed.
       if length sealed \<noteq> sz then Inl (Runtime_error ''encrypt_and_hash size'')
       else res_bind (mix_hash L h sealed) (\<lambda>h'. Inr (sealed, h')))"

definition decrypt_and_hash :: "openssl \<Rightarrow> bytes \<Rightarrow> bytes \<Rightarrow> nat \<Rightarrow> bytes \<Rightarrow> (bytes \<times> bytes) option res" where
  "decrypt_and_hash L h k sz ct =
     (case aead_open L k zero_nonce h ct of
        None \<Rightarrow> Inr None
      | Some pt \<Rightarrow>
          if length pt \<noteq> sz then Inr None
          else res_bind (mix_hash L h ct) (\<lambda>h'. Inr (Some (pt, h'))))"

definition split_keys :: "openssl \<Rightarrow> bytes \<Rightarrow> (bytes \<times> bytes) option" where
  "split_keys L ck =
     (case hkdf_blake2s L [] ck 64 of
        Inl e \<Rightarrow> None
      | Inr out \<Rightarrow> Some (take 32 out, take 32 (drop 32 out)))"

definition initial_hash :: "openssl \<Rightarrow> bytes res" where
  "initial_hash L = blake2s256 L (bytes_of_string kProtocolName) []"

definition prologue :: "u16 \<Rightarrow> bytes" where
  "prologue version = bytes_of_string (kProloguePrefix @ to_string (unat version))"

text \<open>A step that may return false: the error text is stored and the function returns.\<close>

definition or_fail :: "string \<Rightarrow> 'a option \<Rightarrow> ('a \<Rightarrow> (string + 'b) res) \<Rightarrow> (string + 'b) res" where
  "or_fail msg x f = (case x of None \<Rightarrow> Inr (Inl msg) | Some y \<Rightarrow> f y)"

lemma or_fail_simps [simp]: "or_fail msg None f = Inr (Inl msg)" "or_fail msg (Some y) f = f y"
  by (simp_all add: or_fail_def)

definition noise_server_handshake ::
  "openssl \<Rightarrow> bytes option \<Rightarrow> bytes \<Rightarrow> bytes \<Rightarrow> (string + bytes \<times> NoiseResult) res" where
  "noise_server_handshake L draw control_private init =
     (if length init \<noteq> kInitiationLen then Inr (Inl ''wrong handshake initiation size'')
      else if init ! 2 \<noteq> kMsgInitiation then Inr (Inl ''unexpected handshake message type'')
      else if get_be16 (init ! 3) (init ! 4) \<noteq> 96 then Inr (Inl ''wrong handshake initiation length'')
      else
        let version = get_be16 (init ! 0) (init ! 1);
            machine_eph = take 32 (drop kInitHeaderLen init)
        in
        res_bind (initial_hash L) (\<lambda>h0.
        res_bind (mix_hash L h0 (prologue version)) (\<lambda>h1.
        res_bind (x25519_public L control_private) (\<lambda>control_pub.
        res_bind (mix_hash L h1 control_pub) (\<lambda>h2.
        res_bind (mix_hash L h2 machine_eph) (\<lambda>h3.
        or_fail ''computing es'' (mix_dh L h0 control_private machine_eph) (\<lambda>(ck1, k1).
        res_bind (decrypt_and_hash L h3 k1 32 (take 48 (drop (kInitHeaderLen + 32) init))) (\<lambda>d1.
        or_fail ''decrypting machine key'' d1 (\<lambda>(machine_key, h4).
        or_fail ''computing ss'' (mix_dh L ck1 control_private machine_key) (\<lambda>(ck2, k2).
        res_bind (decrypt_and_hash L h4 k2 0 (take 16 (drop (kInitHeaderLen + 32 + 48) init))) (\<lambda>d2.
        or_fail ''decrypting initiation tag'' d2 (\<lambda>(_, h5).
        res_bind (generate_x25519_private draw) (\<lambda>control_eph.
        res_bind (x25519_public L control_eph) (\<lambda>control_eph_pub.
        res_bind (mix_hash L h5 control_eph_pub) (\<lambda>h6.
        or_fail ''computing ee'' (mix_dh L ck2 control_eph machine_eph) (\<lambda>(ck3, k3).
        or_fail ''computing se'' (mix_dh L ck3 control_eph machine_key) (\<lambda>(ck4, k4).
        res_bind (encrypt_and_hash L h6 k4 16 []) (\<lambda>(tag, h7).
        or_fail ''finalizing handshake'' (split_keys L ck4) (\<lambda>(c1, c2).
        Inr (Inr (kMsgResponse # put_be16 48 @ control_eph_pub @ tag,
          \<lparr>nr_peer_machine_public = machine_key, nr_protocol_version = version,
           nr_handshake_hash = h7, nr_tx_key = c2, nr_rx_key = c1\<rparr>)))))))))))))))))))))"

definition noise_client_init ::
  "openssl \<Rightarrow> bytes option \<Rightarrow> bytes \<Rightarrow> bytes \<Rightarrow> u16 \<Rightarrow> (bytes \<times> bytes \<times> bytes \<times> bytes) res" where
  "noise_client_init L draw machine_private control_public version =
     res_bind (initial_hash L) (\<lambda>h0.
     res_bind (mix_hash L h0 (prologue version)) (\<lambda>h1.
     res_bind (mix_hash L h1 control_public) (\<lambda>h2.
     res_bind (generate_x25519_private draw) (\<lambda>ephemeral_priv.
     res_bind (x25519_public L ephemeral_priv) (\<lambda>eph_pub.
     res_bind (mix_hash L h2 eph_pub) (\<lambda>h3.
     case mix_dh L h0 ephemeral_priv control_public of
       None \<Rightarrow> Inl (Runtime_error ''client es'')
     | Some (ck1, k1) \<Rightarrow>
     res_bind (x25519_public L machine_private) (\<lambda>machine_pub.
     res_bind (encrypt_and_hash L h3 k1 48 machine_pub) (\<lambda>(sealed_key, h4).
     case mix_dh L ck1 machine_private control_public of
       None \<Rightarrow> Inl (Runtime_error ''client ss'')
     | Some (ck2, k2) \<Rightarrow>
     res_bind (encrypt_and_hash L h4 k2 16 []) (\<lambda>(tag, h5).
     Inr (put_be16 version @ [kMsgInitiation] @ put_be16 96 @ eph_pub @ sealed_key @ tag,
          ephemeral_priv, h5, ck2))))))))))"

definition noise_client_finish ::
  "openssl \<Rightarrow> bytes \<Rightarrow> bytes \<Rightarrow> bytes \<Rightarrow> bytes \<Rightarrow> bytes \<Rightarrow> NoiseResult \<Rightarrow> (string + NoiseResult) res" where
  "noise_client_finish L machine_private ephemeral_priv response h ck out =
     (if length response \<noteq> kResponseLen \<or> response ! 0 \<noteq> kMsgResponse \<or>
         get_be16 (response ! 1) (response ! 2) \<noteq> 48
      then Inr (Inl ''bad handshake response'')
      else
        let control_eph_pub = take 32 (drop kHeaderLen response) in
        res_bind (mix_hash L h control_eph_pub) (\<lambda>h1.
        or_fail ''computing ee'' (mix_dh L ck ephemeral_priv control_eph_pub) (\<lambda>(ck1, k1).
        or_fail ''computing se'' (mix_dh L ck1 machine_private control_eph_pub) (\<lambda>(ck2, k2).
        res_bind (decrypt_and_hash L h1 k2 0 (take 16 (drop (kHeaderLen + 32) response))) (\<lambda>d.
        or_fail ''decrypting payload'' d (\<lambda>(_, h2).
        or_fail ''finalizing handshake'' (split_keys L ck2) (\<lambda>(c1, c2).
        Inr (Inr (out\<lparr>nr_protocol_version := 0, nr_handshake_hash := h2,
                      nr_tx_key := c1, nr_rx_key := c2\<rparr>)))))))))"

section \<open>Record layer\<close>

text \<open>
  \<^verbatim>\<open>put_be64\<close> fills the eight octets from the last to the first; \<open>out\<close> holds the
  octets already written behind the current position.
\<close>

fun put_be64_loop :: "nat \<Rightarrow> u64 \<Rightarrow> bytes \<Rightarrow> bytes" where
  "put_be64_loop 0 v out = out"
| "put_be64_loop (Suc i) v out = put_be64_loop i (drop_bit 8 v) (ucast v # out)"

definition put_be64 :: "u64 \<Rightarrow> bytes" where
  "put_be64 v = put_be64_loop 8 v []"

definition record_nonce :: "u64 \<Rightarrow> bytes" where
  "record_nonce v = replicate 4 0 @ put_be64 v"

text \<open>
  The connection object; \<^verbatim>\<open>raw_buf_\<close> is never used by the code. The octets that travel are
  in the \<^typ>\<open>sock\<close> of its descriptor.
\<close>

record NoiseConn =
  nc_fd :: int
  nc_tx_key :: bytes
  nc_rx_key :: bytes
  nc_tx_nonce :: u64
  nc_rx_nonce :: u64
  nc_plaintext :: bytes

definition new_NoiseConn :: "int \<Rightarrow> bytes \<Rightarrow> bytes \<Rightarrow> NoiseConn" where
  "new_NoiseConn fd tx_key rx_key =
     \<lparr>nc_fd = fd, nc_tx_key = tx_key, nc_rx_key = rx_key, nc_tx_nonce = 0, nc_rx_nonce = 0,
      nc_plaintext = []\<rparr>"

text \<open>After \<^verbatim>\<open>shutdown\<close> and \<^verbatim>\<open>close\<close> every call on the descriptor fails.\<close>

definition NoiseConn_close :: "NoiseConn \<times> sock \<Rightarrow> NoiseConn \<times> sock" where
  "NoiseConn_close cs =
     (if 0 \<le> nc_fd (fst cs)
      then ((fst cs)\<lparr>nc_fd := -1\<rparr>, (snd cs)\<lparr>sk_in := [], sk_send := []\<rparr>)
      else cs)"

definition decrypt_one :: "openssl \<Rightarrow> NoiseConn \<Rightarrow> bytes list \<Rightarrow> bool \<times> NoiseConn \<times> bytes list" where
  "decrypt_one L c cs =
     (case read_full kHeaderLen cs [] of
        (None, cs1) \<Rightarrow> (False, c, cs1)
      | (Some hdr, cs1) \<Rightarrow>
          if hdr ! 0 \<noteq> kMsgRecord then (False, c, cs1)
          else
            let clen = unat (get_be16 (hdr ! 1) (hdr ! 2)) in
            if clen < 16 \<or> kMaxMessage - kHeaderLen < clen then (False, c, cs1)
            else case read_full clen cs1 [] of
                   (None, cs2) \<Rightarrow> (False, c, cs2)
                 | (Some ct, cs2) \<Rightarrow>
                     (case aead_open L (nc_rx_key c) (record_nonce (nc_rx_nonce c)) [] ct of
                        None \<Rightarrow> (False, c, cs2)
                      | Some pt \<Rightarrow>
                          (True, c\<lparr>nc_rx_nonce := nc_rx_nonce c + 1, nc_plaintext := nc_plaintext c @ pt\<rparr>, cs2)))"

lemma decrypt_one_consumes:
  assumes "decrypt_one L c cs = (True, c', cs')"
  shows "length (concat cs') < length (concat cs)"
proof -
  obtain h cs1 where h: "read_full kHeaderLen cs [] = (Some h, cs1)"
    using assms by (fastforce simp: decrypt_one_def split: prod.splits option.splits)
  obtain k b where "read_full k cs1 [] = (Some b, cs')"
    using assms by (fastforce simp: decrypt_one_def h Let_def split: prod.splits option.splits if_splits)
  then show ?thesis
    using read_full_Some_consumes [OF h] read_full_Some_consumes by (fastforce simp: kHeaderLen_def)
qed

text \<open>The loop \<^verbatim>\<open>while (plaintext_.empty())\<close> of \<^verbatim>\<open>NoiseConn::read\<close>.\<close>

function noise_fill :: "openssl \<Rightarrow> NoiseConn \<Rightarrow> bytes list \<Rightarrow> bool \<times> NoiseConn \<times> bytes list" where
  "noise_fill L c cs =
     (if nc_plaintext c \<noteq> [] then (True, c, cs)
      else case decrypt_one L c cs of
             (False, c', cs') \<Rightarrow> (False, c', cs')
           | (True, c', cs') \<Rightarrow> noise_fill L c' cs')"
  by pat_completeness auto
termination
  by (relation "measure (\<lambda>(L, c, cs). length (concat cs))") (auto dest!: sym [of "(_, _)" "decrypt_one _ _ _"] dest: decrypt_one_consumes)

declare noise_fill.simps [simp del]

definition noise_read :: "openssl \<Rightarrow> int \<Rightarrow> NoiseConn \<Rightarrow> bytes list \<Rightarrow> bytes \<times> NoiseConn \<times> bytes list" where
  "noise_read L n c cs =
     (if n \<le> 0 then ([], c, cs)
      else case noise_fill L c cs of
             (False, c', cs') \<Rightarrow> ([], c', cs')
           | (True, c', cs') \<Rightarrow>
               let k = min (nat n) (length (nc_plaintext c'))
               in (take k (nc_plaintext c'), c'\<lparr>nc_plaintext := drop k (nc_plaintext c')\<rparr>, cs'))"

text \<open>
  \<^verbatim>\<open>NoiseConn::write\<close>: \<open>sent\<close> octets of the buffer are out, \<open>rest\<close> remains. The state
  is the connection, the pending \<^verbatim>\<open>send\<close> outcomes and the octets on the wire. An exception of
  \<^verbatim>\<open>aead_seal\<close> leaves with the nonce not yet advanced.
\<close>

function noise_write_loop ::
  "openssl \<Rightarrow> nat \<Rightarrow> bytes \<Rightarrow> NoiseConn \<Rightarrow> nat list \<Rightarrow> bytes \<Rightarrow> int res \<times> NoiseConn \<times> nat list \<times> bytes" where
  "noise_write_loop L sent rest c ws out =
     (if rest = [] then (Inr (int sent), c, ws, out)
      else
        let chunk = min (length rest) kMaxPlaintext in
        case aead_seal L (nc_tx_key c) (record_nonce (nc_tx_nonce c)) [] (take chunk rest) of
          Inl e \<Rightarrow> (Inl e, c, ws, out)
        | Inr ct \<Rightarrow>
            let c' = c\<lparr>nc_tx_nonce := nc_tx_nonce c + 1\<rparr>;
                failed = (if sent = 0 then -1 else int sent)
            in case write_full (kMsgRecord # put_be16 (word_of_nat (length ct))) ws out of
                 (False, ws1, out1) \<Rightarrow> (Inr failed, c', ws1, out1)
               | (True, ws1, out1) \<Rightarrow>
                   (case write_full ct ws1 out1 of
                      (False, ws2, out2) \<Rightarrow> (Inr failed, c', ws2, out2)
                    | (True, ws2, out2) \<Rightarrow> noise_write_loop L (sent + chunk) (drop chunk rest) c' ws2 out2))"
  by pat_completeness auto
termination
  by (relation "measure (\<lambda>(L, sent, rest, c, ws, out). length rest)") (auto simp: noise_consts)

declare noise_write_loop.simps [simp del]

definition noise_write :: "openssl \<Rightarrow> bytes \<Rightarrow> NoiseConn \<Rightarrow> nat list \<Rightarrow> bytes \<Rightarrow> int res \<times> NoiseConn \<times> nat list \<times> bytes" where
  "noise_write L buf c ws out = noise_write_loop L 0 buf c ws out"

section \<open>Handshake: lemmas\<close>

lemma mix_hash_ok: "openssl_laws L \<Longrightarrow> \<exists>d. mix_hash L h x = Inr d \<and> length d = 32"
  by (simp add: mix_hash_def blake2s256_ok)

lemma mix_dh_agree:
  assumes "openssl_laws L" "length a = 32" "length b = 32"
    and "x25519_public L a = Inr p" "x25519_public L b = Inr q"
  shows "\<exists>ck' k'. mix_dh L ck a q = Some (ck', k') \<and> mix_dh L ck b p = Some (ck', k') \<and>
    length ck' = 32 \<and> length k' = 32"
proof -
  obtain s where s: "x25519_shared L a q = Inr s" "x25519_shared L b p = Inr s"
    using x25519_shared_agree [OF assms] by blast
  obtain out where "hkdf_blake2s L s ck 64 = Inr out" "length out = 64"
    using hkdf_ok [OF assms(1)] by blast
  with s show ?thesis by (simp add: mix_dh_def)
qed

lemma encrypt_decrypt_and_hash:
  assumes "openssl_laws L" "length k = 32" "sz = length pt + 16"
  shows "\<exists>ct h'. encrypt_and_hash L h k sz pt = Inr (ct, h') \<and> length ct = sz \<and>
    decrypt_and_hash L h k (length pt) ct = Inr (Some (pt, h'))"
proof -
  obtain ct where ct: "aead_seal L k zero_nonce h pt = Inr ct" "length ct = length pt + 16"
    "aead_open L k zero_nonce h ct = Some pt"
    using aead_seal_open [OF assms(1,2), of zero_nonce h pt] by (auto simp: zero_nonce_def)
  obtain h' where "mix_hash L h ct = Inr h'" using mix_hash_ok [OF assms(1)] by blast
  with ct assms(3) show ?thesis by (simp add: encrypt_and_hash_def decrypt_and_hash_def)
qed

lemma split_keys_ok: "openssl_laws L \<Longrightarrow> \<exists>c1 c2. split_keys L ck = Some (c1, c2)"
  using hkdf_ok [of L "[]" ck 64] by (auto simp: split_keys_def)

text \<open>The two handshake messages, taken apart at the offsets the code uses.\<close>

lemma initiation_parts:
  fixes v :: u16
  assumes "length ep = 32" "length sk = 48" "length tg = 16"
  defines "init \<equiv> put_be16 v @ [kMsgInitiation] @ put_be16 96 @ ep @ sk @ tg"
  shows "length init = 101" "init ! 2 = kMsgInitiation" "get_be16 (init ! 3) (init ! 4) = 96"
    "get_be16 (init ! 0) (init ! 1) = v" "take 32 (drop 5 init) = ep"
    "take 48 (drop 37 init) = sk" "take 16 (drop 85 init) = tg"
  using assms(1-3) unfolding init_def
  by (simp_all add: put_be16_def get_be16_put) (simp add: get_be16_def)

lemma response_parts:
  assumes "length fp = 32" "length rt = 16"
  defines "resp \<equiv> kMsgResponse # put_be16 48 @ fp @ rt"
  shows "length resp = 51" "resp ! 0 = kMsgResponse" "get_be16 (resp ! 1) (resp ! 2) = 48"
    "take 32 (drop 3 resp) = fp" "take 16 (drop 35 resp) = rt"
  using assms(1,2) unfolding resp_def by (simp_all add: put_be16_def) (simp add: get_be16_def)

text \<open>
  The token pattern of each message, run by both sides: the initiation mixes es and ss and carries
  the sealed machine key and an empty payload, the response mixes ee and se and carries an empty
  payload, after which the chaining key is split.
\<close>

lemma initiation_pattern:
  assumes laws: "openssl_laws L"
    and len: "length m_priv = 32" "length c_priv = 32" "length e = 32"
    and pub: "x25519_public L c_priv = Inr c_pub" "x25519_public L m_priv = Inr m_pub" "x25519_public L e = Inr ep"
  obtains h0 h1 h2 h3 ck1 k1 sk h4 ck2 k2 tg h5
  where "initial_hash L = Inr h0" "mix_hash L h0 (prologue v) = Inr h1"
    "mix_hash L h1 c_pub = Inr h2" "mix_hash L h2 ep = Inr h3"
    "mix_dh L h0 e c_pub = Some (ck1, k1)" "mix_dh L h0 c_priv ep = Some (ck1, k1)"
    "encrypt_and_hash L h3 k1 48 m_pub = Inr (sk, h4)" "length sk = 48"
    "decrypt_and_hash L h3 k1 32 sk = Inr (Some (m_pub, h4))"
    "mix_dh L ck1 m_priv c_pub = Some (ck2, k2)" "mix_dh L ck1 c_priv m_pub = Some (ck2, k2)"
    "encrypt_and_hash L h4 k2 16 [] = Inr (tg, h5)" "length tg = 16"
    "decrypt_and_hash L h4 k2 0 tg = Inr (Some ([], h5))"
proof -
  have mpl: "length m_pub = 32" using x25519_public_ok [OF laws len(1)] pub(2) by auto
  obtain h0 where h0: "initial_hash L = Inr h0" using blake2s256_ok [OF laws] by (auto simp: initial_hash_def)
  obtain h1 where h1: "mix_hash L h0 (prologue v) = Inr h1" using mix_hash_ok [OF laws] by blast
  obtain h2 where h2: "mix_hash L h1 c_pub = Inr h2" using mix_hash_ok [OF laws] by blast
  obtain h3 where h3: "mix_hash L h2 ep = Inr h3" using mix_hash_ok [OF laws] by blast
  obtain ck1 k1 where es: "mix_dh L h0 e c_pub = Some (ck1, k1)" "mix_dh L h0 c_priv ep = Some (ck1, k1)"
    and k1: "length k1 = 32" using mix_dh_agree [OF laws len(3,2) pub(3,1)] by blast
  obtain sk h4 where sk: "encrypt_and_hash L h3 k1 48 m_pub = Inr (sk, h4)" "length sk = 48"
      "decrypt_and_hash L h3 k1 32 sk = Inr (Some (m_pub, h4))"
    using encrypt_decrypt_and_hash [OF laws k1, of 48 m_pub h3] mpl by auto
  obtain ck2 k2 where ss: "mix_dh L ck1 m_priv c_pub = Some (ck2, k2)" "mix_dh L ck1 c_priv m_pub = Some (ck2, k2)"
    and k2: "length k2 = 32" using mix_dh_agree [OF laws len(1,2) pub(2,1)] by blast
  obtain tg h5 where tg: "encrypt_and_hash L h4 k2 16 [] = Inr (tg, h5)" "length tg = 16"
      "decrypt_and_hash L h4 k2 0 tg = Inr (Some ([], h5))"
    using encrypt_decrypt_and_hash [OF laws k2, of 16 "[]" h4] by auto
  show thesis by (rule that) (fact h0 h1 h2 h3 es sk ss tg)+
qed

lemma response_pattern:
  assumes laws: "openssl_laws L"
    and len: "length m_priv = 32" "length e = 32" "length f = 32"
    and pub: "x25519_public L m_priv = Inr m_pub" "x25519_public L e = Inr ep" "x25519_public L f = Inr fp"
  obtains h6 ck3 k3 ck4 k4 rt h7 c1 c2
  where "mix_hash L h5 fp = Inr h6"
    "mix_dh L ck2 f ep = Some (ck3, k3)" "mix_dh L ck2 e fp = Some (ck3, k3)"
    "mix_dh L ck3 f m_pub = Some (ck4, k4)" "mix_dh L ck3 m_priv fp = Some (ck4, k4)"
    "encrypt_and_hash L h6 k4 16 [] = Inr (rt, h7)" "length rt = 16"
    "decrypt_and_hash L h6 k4 0 rt = Inr (Some ([], h7))" "split_keys L ck4 = Some (c1, c2)"
proof -
  obtain h6 where h6: "mix_hash L h5 fp = Inr h6" using mix_hash_ok [OF laws] by blast
  obtain ck3 k3 where ee: "mix_dh L ck2 f ep = Some (ck3, k3)" "mix_dh L ck2 e fp = Some (ck3, k3)"
    using mix_dh_agree [OF laws len(3,2) pub(3,2)] by blast
  obtain ck4 k4 where se: "mix_dh L ck3 f m_pub = Some (ck4, k4)" "mix_dh L ck3 m_priv fp = Some (ck4, k4)"
    and k4: "length k4 = 32" using mix_dh_agree [OF laws len(3,1) pub(3,1)] by blast
  obtain rt h7 where rt: "encrypt_and_hash L h6 k4 16 [] = Inr (rt, h7)" "length rt = 16"
      "decrypt_and_hash L h6 k4 0 rt = Inr (Some ([], h7))"
    using encrypt_decrypt_and_hash [OF laws k4, of 16 "[]" h6] by auto
  obtain c1 c2 where c: "split_keys L ck4 = Some (c1, c2)" using split_keys_ok [OF laws] by blast
  show thesis by (rule that) (fact h6 ee se rt c)+
qed

lemma handshake_completes:
  assumes laws: "openssl_laws L"
    and len: "length m_priv = 32" "length c_priv = 32" "length r1 = 32" "length r2 = 32"
    and pub: "x25519_public L c_priv = Inr c_pub" "x25519_public L m_priv = Inr m_pub"
  shows "\<exists>init eph h ck resp srv cli.
    noise_client_init L (Some r1) m_priv c_pub v = Inr (init, eph, h, ck) \<and>
    noise_server_handshake L (Some r2) c_priv init = Inr (Inr (resp, srv)) \<and>
    noise_client_finish L m_priv eph resp h ck out = Inr (Inr cli) \<and>
    length init = 101 \<and> length resp = 51 \<and>
    nr_peer_machine_public srv = m_pub \<and> nr_protocol_version srv = v \<and>
    nr_handshake_hash cli = nr_handshake_hash srv \<and>
    nr_tx_key cli = nr_rx_key srv \<and> nr_rx_key cli = nr_tx_key srv"
proof -
  let ?e = "clamp r1" and ?f = "clamp r2"
  have e: "length ?e = 32" and f: "length ?f = 32" using len by simp_all
  obtain ep fp where ep: "x25519_public L ?e = Inr ep" "length ep = 32"
    and fp: "x25519_public L ?f = Inr fp" "length fp = 32"
    using x25519_public_ok [OF laws e] x25519_public_ok [OF laws f] by auto
  obtain h0 h1 h2 h3 ck1 k1 sk h4 ck2 k2 tg h5
    where h0: "initial_hash L = Inr h0" and h1: "mix_hash L h0 (prologue v) = Inr h1"
      and h2: "mix_hash L h1 c_pub = Inr h2" and h3: "mix_hash L h2 ep = Inr h3"
      and es: "mix_dh L h0 ?e c_pub = Some (ck1, k1)" "mix_dh L h0 c_priv ep = Some (ck1, k1)"
      and sk: "encrypt_and_hash L h3 k1 48 m_pub = Inr (sk, h4)" "length sk = 48"
        "decrypt_and_hash L h3 k1 32 sk = Inr (Some (m_pub, h4))"
      and ss: "mix_dh L ck1 m_priv c_pub = Some (ck2, k2)" "mix_dh L ck1 c_priv m_pub = Some (ck2, k2)"
      and tg: "encrypt_and_hash L h4 k2 16 [] = Inr (tg, h5)" "length tg = 16"
        "decrypt_and_hash L h4 k2 0 tg = Inr (Some ([], h5))"
    by (rule initiation_pattern [OF laws len(1,2) e pub ep(1)])
  obtain h6 ck3 k3 ck4 k4 rt h7 c1 c2 where h6: "mix_hash L h5 fp = Inr h6"
      and ee: "mix_dh L ck2 ?f ep = Some (ck3, k3)" "mix_dh L ck2 ?e fp = Some (ck3, k3)"
      and se: "mix_dh L ck3 ?f m_pub = Some (ck4, k4)" "mix_dh L ck3 m_priv fp = Some (ck4, k4)"
      and rt: "encrypt_and_hash L h6 k4 16 [] = Inr (rt, h7)" "length rt = 16"
        "decrypt_and_hash L h6 k4 0 rt = Inr (Some ([], h7))"
      and c: "split_keys L ck4 = Some (c1, c2)"
    by (rule response_pattern [OF laws len(1) e f pub(2) ep(1) fp(1)])
  have gen: "generate_x25519_private (Some r1) = Inr ?e" "generate_x25519_private (Some r2) = Inr ?f"
    using generate_x25519_private_ok len by auto
  let ?init = "put_be16 v @ [kMsgInitiation] @ put_be16 96 @ ep @ sk @ tg"
  have cinit: "noise_client_init L (Some r1) m_priv c_pub v = Inr (?init, ?e, h5, ck2)"
    by (simp add: noise_client_init_def h0 h1 h2 h3 gen ep(1) es(1) pub(2) sk(1) ss(1) tg(1))
  note parts = initiation_parts [OF ep(2) sk(2) tg(2), of v]
  have num: "5 + 32 = (37::nat)" "37 + 48 = (85::nat)" "3 + 32 = (35::nat)" by simp_all
  let ?resp = "kMsgResponse # put_be16 48 @ fp @ rt"
  let ?srv = "\<lparr>nr_peer_machine_public = m_pub, nr_protocol_version = v, nr_handshake_hash = h7,
      nr_tx_key = c2, nr_rx_key = c1\<rparr>"
  have server: "noise_server_handshake L (Some r2) c_priv ?init = Inr (Inr (?resp, ?srv))"
    unfolding noise_server_handshake_def Let_def
    using parts
    by (simp only: kInitiationLen_def kInitHeaderLen_def parts h0 h1 pub(1) h2 h3 es(2) gen fp(1) h6
        res_bind_simps or_fail_simps prod.case sk(3) ss(2) tg(3) ee(1) se(1) rt(1) c
        num if_False not_True_eq_False simp_thms)
  note rparts = response_parts [OF fp(2) rt(2)]
  have client: "noise_client_finish L m_priv ?e ?resp h5 ck2 out =
      Inr (Inr (out\<lparr>nr_protocol_version := 0, nr_handshake_hash := h7, nr_tx_key := c1, nr_rx_key := c2\<rparr>))"
    unfolding noise_client_finish_def Let_def
    by (simp only: kResponseLen_def kHeaderLen_def rparts h6 ee(2) se(2) rt(3) c res_bind_simps or_fail_simps
        prod.case num simp_thms if_False)
  show ?thesis using cinit server client parts(1) rparts(1) by auto
qed

lemma ref_handshake:
  "\<exists>init eph h ck resp srv cli.
    noise_client_init ref_openssl (Some (replicate 32 5)) (replicate 32 3) (replicate 32 c) 106 = Inr (init, eph, h, ck) \<and>
    noise_server_handshake ref_openssl (Some (replicate 32 6)) (replicate 32 c) init = Inr (Inr (resp, srv)) \<and>
    noise_client_finish ref_openssl (replicate 32 3) eph resp h ck empty_NoiseResult = Inr (Inr cli)"
  using handshake_completes [where L = ref_openssl and m_priv = "replicate 32 3" and c_priv = "replicate 32 c"
      and ?r1.0 = "replicate 32 5" and ?r2.0 = "replicate 32 6" and v = 106 and out = empty_NoiseResult,
      OF ref_openssl_laws length_replicate length_replicate length_replicate length_replicate
        ref_x25519_public ref_x25519_public]
  by blast

text \<open>
  C10: A client and a server that run the handshake against each other both succeed, for every
  choice of static keys, fresh randomness and protocol version: the initiation has 101 octets and
  the response 51, the server learns the client's true machine key and version, both hold the
  same transcript hash, and each side's sending key is the other side's receiving key.
\<close>

theorem handshake_agreement:
  assumes laws: "openssl_laws L"
    and len: "length m_priv = 32" "length c_priv = 32" "length r1 = 32" "length r2 = 32"
    and pub: "x25519_public L c_priv = Inr c_pub" "x25519_public L m_priv = Inr m_pub"
  shows "\<exists>init eph h ck resp srv cli.
    noise_client_init L (Some r1) m_priv c_pub v = Inr (init, eph, h, ck) \<and>
    noise_server_handshake L (Some r2) c_priv init = Inr (Inr (resp, srv)) \<and>
    noise_client_finish L m_priv eph resp h ck out = Inr (Inr cli) \<and>
    length init = 101 \<and> length resp = 51 \<and>
    nr_peer_machine_public srv = m_pub \<and> nr_protocol_version srv = v \<and>
    nr_handshake_hash cli = nr_handshake_hash srv \<and>
    nr_tx_key cli = nr_rx_key srv \<and> nr_rx_key cli = nr_tx_key srv"
  using handshake_completes [OF assms] .

theorem handshake_agreement_witness:
  "\<exists>init eph h ck resp srv cli.
    noise_client_init ref_openssl (Some (replicate 32 5)) (replicate 32 3) (replicate 32 9) 106 = Inr (init, eph, h, ck) \<and>
    noise_server_handshake ref_openssl (Some (replicate 32 6)) (replicate 32 9) init = Inr (Inr (resp, srv)) \<and>
    noise_client_finish ref_openssl (replicate 32 3) eph resp h ck empty_NoiseResult = Inr (Inr cli) \<and>
    nr_peer_machine_public srv = replicate 32 3 \<and> nr_tx_key cli = nr_rx_key srv"
  using handshake_agreement [where L = ref_openssl and m_priv = "replicate 32 3" and c_priv = "replicate 32 9"
      and ?r1.0 = "replicate 32 5" and ?r2.0 = "replicate 32 6" and v = 106 and out = empty_NoiseResult,
      OF ref_openssl_laws length_replicate length_replicate length_replicate length_replicate
        ref_x25519_public ref_x25519_public]
  by blast

section \<open>Types of the handshake\<close>

lemma blake2s256_length: "blake2s256 L a b = Inr d \<Longrightarrow> length d = 32"
  by (auto simp: blake2s256_def Let_def split: if_splits option.splits)

lemma hmac_length: "hmac_blake2s L k d = Inr t \<Longrightarrow> length t = 32"
  by (auto simp: hmac_blake2s_def Let_def dest: blake2s256_length split: if_splits sum.splits)

lemma hkdf_loop_length: "hkdf_loop L prk t i n = Inr out \<Longrightarrow> length out = n"
proof (induction n arbitrary: t i out rule: less_induct)
  case (less n)
  show ?case
  proof (cases "n = 0")
    case False
    then obtain u rest where u: "hmac_blake2s L prk (t @ [i]) = Inr u"
        "hkdf_loop L prk u (i + 1) (n - min 32 n) = Inr rest" "out = take (min 32 n) u @ rest"
      using less.prems by (auto simp: hkdf_loop.simps [of L prk t] Let_def split: sum.splits)
    have "length rest = n - min 32 n" using less.IH [OF _ u(2)] False by simp
    then show ?thesis using u(3) hmac_length [OF u(1)] by simp
  qed (use less.prems in \<open>simp add: hkdf_loop.simps\<close>)
qed

lemma hkdf_length: "hkdf_blake2s L ikm salt n = Inr out \<Longrightarrow> length out = n"
  by (auto simp: hkdf_blake2s_def dest: hkdf_loop_length split: sum.splits)

lemma or_fail_Some: "or_fail msg x f = Inr (Inr y) \<longleftrightarrow> (\<exists>z. x = Some z \<and> f z = Inr (Inr y))"
  by (auto simp: or_fail_def split: option.splits)

lemma handshake_step_lengths:
  "x25519_public L k = Inr p \<Longrightarrow> length p = 32"
  "decrypt_and_hash L h k n ct = Inr (Some (pt, h')) \<Longrightarrow> length pt = n \<and> length h' = 32"
  "encrypt_and_hash L h k n pt = Inr (c, h') \<Longrightarrow> length c = n \<and> length h' = 32"
  "split_keys L ck = Some (c1, c2) \<Longrightarrow> length c1 = 32 \<and> length c2 = 32"
  by (auto simp: x25519_public_def decrypt_and_hash_def encrypt_and_hash_def split_keys_def mix_hash_def res_bind_Inr
      dest: blake2s256_length hkdf_length split: if_splits option.splits sum.splits)

text \<open>
  C21: Whatever octets a client sends and whatever the crypto library does, a handshake that
  succeeds was started by exactly 101 octets, answers with exactly 51, and yields a peer key, a
  transcript hash and two record keys of 32 octets each, as the fixed-size arrays of the code
  require.
\<close>

theorem server_handshake_typed:
  assumes "noise_server_handshake L draw priv init = Inr (Inr (resp, nr))"
  shows "length init = 101 \<and> length resp = 51 \<and> length (nr_peer_machine_public nr) = 32 \<and>
    length (nr_handshake_hash nr) = 32 \<and> length (nr_tx_key nr) = 32 \<and> length (nr_rx_key nr) = 32"
proof -
  have len: "length init = 101"
    using assms by (auto simp: noise_server_handshake_def kInitiationLen_def split: if_splits)
  obtain v mk h7 c1 c2 pub tag where o: "resp = kMsgResponse # put_be16 48 @ pub @ tag"
      "nr = \<lparr>nr_peer_machine_public = mk, nr_protocol_version = v, nr_handshake_hash = h7, nr_tx_key = c2, nr_rx_key = c1\<rparr>"
    and l: "length pub = 32" "length tag = 16" "length mk = 32" "length h7 = 32" "length c1 = 32" "length c2 = 32"
    using assms
    by (auto simp: noise_server_handshake_def Let_def res_bind_Inr or_fail_Some dest!: handshake_step_lengths split: if_splits)
  show ?thesis using len l by (simp add: o put_be16_def)
qed

theorem server_handshake_typed_witness:
  "\<exists>init resp nr. noise_server_handshake ref_openssl (Some (replicate 32 6)) (replicate 32 9) init = Inr (Inr (resp, nr)) \<and>
    length init = 101 \<and> length resp = 51 \<and> length (nr_tx_key nr) = 32"
proof -
  obtain init resp srv where h: "noise_server_handshake ref_openssl (Some (replicate 32 6)) (replicate 32 9) init = Inr (Inr (resp, srv))"
    using ref_handshake [of 9] by blast
  from server_handshake_typed [OF h] h show ?thesis by blast
qed

section \<open>Record layer: lemmas\<close>

lemma length_put_be64_loop: "length (put_be64_loop i v out) = i + length out"
  by (induction i v out rule: put_be64_loop.induct) simp_all

lemma length_record_nonce [simp]: "length (record_nonce v) = 12"
  by (simp add: record_nonce_def put_be64_def length_put_be64_loop)

text \<open>What travels for one piece of plaintext, and for several under successive nonces.\<close>

definition noise_record :: "openssl \<Rightarrow> bytes \<Rightarrow> u64 \<Rightarrow> bytes \<Rightarrow> bytes" where
  "noise_record L k v pt =
     (case aead_seal L k (record_nonce v) [] pt of
        Inl e \<Rightarrow> []
      | Inr ct \<Rightarrow> kMsgRecord # put_be16 (word_of_nat (length ct)) @ ct)"

fun noise_wire :: "openssl \<Rightarrow> bytes \<Rightarrow> u64 \<Rightarrow> bytes list \<Rightarrow> bytes" where
  "noise_wire L k v [] = []"
| "noise_wire L k v (p # ps) = noise_record L k v p @ noise_wire L k (v + 1) ps"

definition pieces_ok :: "bytes list \<Rightarrow> bool" where
  "pieces_ok ps \<longleftrightarrow> list_all (\<lambda>p. p \<noteq> [] \<and> length p \<le> kMaxPlaintext) ps"

lemma seal_record:
  assumes "openssl_laws L" "length k = 32" "length p \<le> kMaxPlaintext"
  obtains ct where "aead_seal L k (record_nonce v) [] p = Inr ct" "length ct = length p + 16"
    "aead_open L k (record_nonce v) [] ct = Some p" "16 \<le> length ct" "length ct \<le> 4093"
    "noise_record L k v p = [kMsgRecord] @ put_be16 (word_of_nat (length ct)) @ ct"
proof -
  obtain ct where "aead_seal L k (record_nonce v) [] p = Inr ct" "length ct = length p + 16"
    "aead_open L k (record_nonce v) [] ct = Some p"
    using aead_seal_open [OF assms(1,2), of "record_nonce v" "[]" p] by auto
  with assms(3) show thesis by (intro that [of ct]) (simp_all add: noise_record_def noise_consts)
qed

lemma length_noise_record:
  "openssl_laws L \<Longrightarrow> length k = 32 \<Longrightarrow> length p \<le> kMaxPlaintext \<Longrightarrow>
   length (noise_record L k v p) = length p + 19 \<and> length (noise_record L k v p) \<le> kMaxMessage"
  by (erule (2) seal_record [of L k p v]) (simp add: noise_consts wire_simps)

lemma read_full_short:
  "segments cs \<Longrightarrow> length (concat cs) < need \<Longrightarrow> read_full need cs got = (None, [])"
proof (induction need cs got rule: read_full.induct)
  case (1 need cs got)
  show ?case
  proof (cases cs)
    case (Cons c cs1)
    with 1 have c: "c \<noteq> []" "length c \<le> need" "segments cs1" by (auto simp: segments_def)
    have "read_full (need - length c) cs1 (got @ c) = (None, [])"
      using c 1 by (simp add: Cons)
    with c 1(3) Cons show ?thesis by (simp add: read_full.simps [of need "c # cs1" got])
  qed (use 1 in \<open>simp add: read_full.simps [of need "[]" got]\<close>)
qed

text \<open>A complete record at the head of the stream is opened and appended to the plaintext.\<close>

lemma decrypt_one_record:
  assumes "openssl_laws L" "length (nc_rx_key c) = 32" "length p \<le> kMaxPlaintext" "segments cs"
    and "concat cs = noise_record L (nc_rx_key c) (nc_rx_nonce c) p @ rest"
  shows "\<exists>cs'. decrypt_one L c cs =
      (True, c\<lparr>nc_rx_nonce := nc_rx_nonce c + 1, nc_plaintext := nc_plaintext c @ p\<rparr>, cs') \<and>
      concat cs' = rest \<and> segments cs'"
proof -
  obtain ct where ct: "aead_open L (nc_rx_key c) (record_nonce (nc_rx_nonce c)) [] ct = Some p"
    "16 \<le> length ct" "length ct \<le> 4093"
    "noise_record L (nc_rx_key c) (nc_rx_nonce c) p = [kMsgRecord] @ put_be16 (word_of_nat (length ct)) @ ct"
    using seal_record [OF assms(1,2,3)] by metis
  let ?hdr = "[kMsgRecord] @ put_be16 (word_of_nat (length ct))"
  have cs: "concat cs = ?hdr @ ct @ rest" by (simp add: assms(5) ct(4))
  then obtain cs1 where 1: "read_full kHeaderLen cs [] = (Some ?hdr, cs1)" "concat cs1 = ct @ rest" "segments cs1"
    using read_full_Some [OF assms(4), of kHeaderLen] by (auto simp: noise_consts wire_simps put_be16_def)
  then obtain cs2 where 2: "read_full (length ct) cs1 [] = (Some ct, cs2)" "concat cs2 = rest" "segments cs2"
    using read_full_Some [OF 1(3), of "length ct"] by auto
  have len: "unat (word_of_nat (length ct) :: u16) = length ct"
    using ct(3) by (intro unat_of_nat_below) simp
  have "unat (get_be16 (?hdr ! 1) (?hdr ! 2)) = length ct"
    by (simp add: put_be16_def get_be16_put len)
  then show ?thesis using 1(1) 2 ct(1-3) by (simp add: decrypt_one_def noise_consts Let_def)
qed

text \<open>A record cut short is not accepted, and the rest of the stream is used up.\<close>

lemma decrypt_one_short:
  assumes "openssl_laws L" "length (nc_rx_key c) = 32" "length p \<le> kMaxPlaintext" "segments cs"
    and "strict_prefix (concat cs) (noise_record L (nc_rx_key c) (nc_rx_nonce c) p)"
  shows "decrypt_one L c cs = (False, c, [])"
proof -
  obtain ct where ct: "16 \<le> length ct" "length ct \<le> 4093"
    "noise_record L (nc_rx_key c) (nc_rx_nonce c) p = [kMsgRecord] @ put_be16 (word_of_nat (length ct)) @ ct"
    using seal_record [OF assms(1,2,3)] by metis
  let ?hdr = "[kMsgRecord] @ put_be16 (word_of_nat (length ct))"
  have hl: "length ?hdr = 3" by (simp add: wire_simps)
  have pre: "prefix (concat cs) (?hdr @ ct)" "length (concat cs) < 3 + length ct"
    using assms(5) ct(3) hl prefix_length_less [OF assms(5)] by (auto simp: strict_prefix_def)
  show ?thesis
  proof (cases "length (concat cs) < 3")
    case True
    then show ?thesis
      using read_full_short [OF assms(4)] by (simp add: decrypt_one_def noise_consts)
  next
    case False
    obtain zs where "?hdr @ ct = concat cs @ zs" using pre(1) by (auto simp: prefix_def)
    then have "take 3 (?hdr @ ct) = take 3 (concat cs @ zs)" by simp
    then have cs: "take 3 (concat cs) = ?hdr" "length (drop 3 (concat cs)) < length ct"
      using pre(2) False hl by (simp_all del: append.simps append_Cons)
    then obtain cs1 where 1: "read_full kHeaderLen cs [] = (Some ?hdr, cs1)"
      "concat cs1 = drop 3 (concat cs)" "segments cs1"
      using read_full_Some [OF assms(4), of kHeaderLen] False by (auto simp: noise_consts)
    have "unat (word_of_nat (length ct) :: u16) = length ct"
      using ct(2) by (intro unat_of_nat_below) simp
    then have "unat (get_be16 (?hdr ! 1) (?hdr ! 2)) = length ct"
      by (simp add: put_be16_def get_be16_put)
    then show ?thesis
      using 1 cs(2) ct(1,2) read_full_short [OF 1(3), of "length ct" "[]"]
      by (simp add: decrypt_one_def noise_consts Let_def)
  qed
qed

text \<open>
  The state of a receiver that has still to deliver \<open>rest\<close>: its plaintext buffer, then the
  pieces whose records are on the way. With \<open>full\<close> all of them arrive, otherwise the
  stream may end anywhere.
\<close>

definition pending :: "openssl \<Rightarrow> bool \<Rightarrow> NoiseConn \<Rightarrow> bytes list \<Rightarrow> bytes \<Rightarrow> bool" where
  "pending L full c cs rest \<longleftrightarrow>
     length (nc_rx_key c) = 32 \<and> segments cs \<and>
     (\<exists>ps. pieces_ok ps \<and> rest = nc_plaintext c @ concat ps \<and>
        prefix (concat cs) (noise_wire L (nc_rx_key c) (nc_rx_nonce c) ps) \<and>
        (full \<longrightarrow> concat cs = noise_wire L (nc_rx_key c) (nc_rx_nonce c) ps))"

lemma decrypt_one_pending:
  assumes "openssl_laws L" "pending L full c cs rest" "nc_plaintext c = []"
  shows "(\<exists>c' cs'. decrypt_one L c cs = (True, c', cs') \<and> nc_plaintext c' \<noteq> [] \<and> pending L full c' cs' rest) \<or>
    (\<exists>cs'. decrypt_one L c cs = (False, c, cs') \<and> pending L full c cs' rest \<and> (full \<longrightarrow> rest = []))"
proof -
  let ?k = "nc_rx_key c" and ?v = "nc_rx_nonce c"
  obtain ps where ps: "length ?k = 32" "segments cs" "pieces_ok ps" "rest = concat ps"
    "prefix (concat cs) (noise_wire L ?k ?v ps)" "full \<longrightarrow> concat cs = noise_wire L ?k ?v ps"
    using assms(2,3) by (auto simp: pending_def)
  show ?thesis
  proof (cases ps)
    case Nil
    then have "concat cs = []" using ps(5) by simp
    then have "cs = []" using ps(2) by (simp only: concat_segments_Nil)
    then have "decrypt_one L c cs = (False, c, [])"
      by (simp add: decrypt_one_def noise_consts read_full.simps)
    then show ?thesis using assms(2) \<open>cs = []\<close> ps(4) Nil by auto
  next
    case (Cons p qs)
    then have p: "p \<noteq> []" "length p \<le> kMaxPlaintext" "pieces_ok qs"
      using ps(3) by (auto simp: pieces_ok_def)
    show ?thesis
    proof (cases "prefix (noise_record L ?k ?v p) (concat cs)")
      case True
      then obtain ys where ys: "concat cs = noise_record L ?k ?v p @ ys" by (auto simp: prefix_def)
      obtain cs' where "decrypt_one L c cs = (True, c\<lparr>nc_rx_nonce := ?v + 1, nc_plaintext := nc_plaintext c @ p\<rparr>, cs')"
        "concat cs' = ys" "segments cs'"
        using decrypt_one_record [OF assms(1) ps(1) p(2) ps(2) ys] by blast
      then show ?thesis
        using ps p ys assms(3) Cons by (auto simp: pending_def)
    next
      case False
      then have sp: "strict_prefix (concat cs) (noise_record L ?k ?v p)"
        using ps(5) prefix_same_cases [OF ps(5), of "noise_record L ?k ?v p"]
        by (auto simp: Cons strict_prefix_def)
      then have "\<not> full" using ps(6) False by (auto simp: Cons)
      moreover have "pending L False c [] rest"
        using ps assms(3) by (auto simp: pending_def segments_def)
      ultimately show ?thesis
        using decrypt_one_short [OF assms(1) ps(1) p(2) ps(2) sp] by auto
    qed
  qed
qed

lemma noise_read_pending:
  assumes "openssl_laws L" "pending L full c cs rest" "noise_read L n c cs = (d, c', cs')"
  shows "\<exists>rest'. rest = d @ rest' \<and> pending L full c' cs' rest' \<and> (full \<and> 0 < n \<and> rest \<noteq> [] \<longrightarrow> d \<noteq> [])"
proof -
  have fill: "\<exists>ok c1 cs1. noise_fill L c cs = (ok, c1, cs1) \<and> pending L full c1 cs1 rest \<and>
      (if ok then nc_plaintext c1 \<noteq> [] else full \<longrightarrow> rest = [])"
  proof (cases "nc_plaintext c = []")
    case True
    then show ?thesis
      using decrypt_one_pending [OF assms(1,2) True]
      by (auto simp: noise_fill.simps [of L c] noise_fill.simps [of L "_::NoiseConn"])
  qed (use assms(2) in \<open>auto simp: noise_fill.simps\<close>)
  have step: "\<exists>rest'. rest = take k (nc_plaintext c1) @ rest' \<and>
      pending L full (c1\<lparr>nc_plaintext := drop k (nc_plaintext c1)\<rparr>) cs1 rest'"
    if p: "pending L full c1 cs1 rest" for c1 cs1 k
  proof -
    obtain ps where "rest = nc_plaintext c1 @ concat ps"
      "pending L full (c1\<lparr>nc_plaintext := drop k (nc_plaintext c1)\<rparr>) cs1 (drop k (nc_plaintext c1) @ concat ps)"
      using p by (auto simp: pending_def)
    then show ?thesis by (intro exI [of _ "drop k (nc_plaintext c1) @ concat ps"]) simp
  qed
  show ?thesis
  proof (cases "n \<le> 0")
    case False
    obtain ok c1 cs1 where f: "noise_fill L c cs = (ok, c1, cs1)" "pending L full c1 cs1 rest"
      "if ok then nc_plaintext c1 \<noteq> [] else full \<longrightarrow> rest = []" using fill by blast
    then show ?thesis
      using assms(3) False step [OF f(2), of "min (nat n) (length (nc_plaintext c1))"]
      by (cases ok) (auto simp: noise_read_def Let_def)
  qed (use assms in \<open>auto simp: noise_read_def\<close>)
qed

text \<open>
  A buffer of at least 4077 octets takes everything one record can hold, so a reader that starts
  with an empty plaintext buffer leaves it empty.
\<close>

lemma decrypt_one_bound:
  assumes "openssl_laws L" "decrypt_one L c cs = (True, c', cs')"
  shows "length (nc_plaintext c') \<le> length (nc_plaintext c) + 4077"
proof -
  obtain n cs1 ct pt where "aead_open L (nc_rx_key c) (record_nonce (nc_rx_nonce c)) [] ct = Some pt"
    "nc_plaintext c' = nc_plaintext c @ pt" "read_full n cs1 [] = (Some ct, cs')" "n \<le> 4093"
    using assms(2) by (auto simp: decrypt_one_def Let_def noise_consts not_less split: prod.splits option.splits if_splits)
  then show ?thesis
    using aead_open_length [OF assms(1)] read_full_Some_length by fastforce
qed

lemma decrypt_one_False: "decrypt_one L c cs = (False, c', cs') \<Longrightarrow> c' = c"
  by (auto simp: decrypt_one_def Let_def split: prod.splits option.splits if_splits)

lemma noise_fill_bound:
  assumes "openssl_laws L" "length (nc_plaintext c) \<le> 4077" "noise_fill L c cs = (ok, c', cs')"
  shows "length (nc_plaintext c') \<le> 4077 \<and> (nc_plaintext c = [] \<and> \<not> ok \<longrightarrow> nc_plaintext c' = [])"
  using assms(2,3)
proof (induction "length (concat cs)" arbitrary: c cs rule: less_induct)
  case less
  show ?case
  proof (cases "nc_plaintext c = []")
    case True
    obtain b c1 cs1 where d: "decrypt_one L c cs = (b, c1, cs1)" by (metis prod_cases3)
    show ?thesis
    proof (cases b)
      case b: True
      have step: "noise_fill L c1 cs1 = (ok, c', cs')"
        using less.prems(2) True d b by (simp add: noise_fill.simps [of L c])
      have "length (nc_plaintext c1) \<le> 4077" using decrypt_one_bound [OF assms(1)] d b True by fastforce
      with less.hyps [OF _ _ step] decrypt_one_consumes d b step show ?thesis
        by (cases "nc_plaintext c1 = []") (auto simp: noise_fill.simps [of L c1])
    next
      case False
      then show ?thesis
        using less.prems True d decrypt_one_False [of L c cs] by (auto simp: noise_fill.simps [of L c])
    qed
  qed (use less.prems in \<open>simp add: noise_fill.simps\<close>)
qed

text \<open>
  The serving loop never leaves decrypted octets behind while it waits for the socket: a
  read with its buffer of 8192 octets that starts with an empty plaintext buffer ends with an
  empty one, whatever the peer sent.
\<close>

theorem read_leaves_nothing:
  assumes "openssl_laws L" "nc_plaintext c = []" "noise_read L 8192 c cs = (d, c', cs')"
  shows "nc_plaintext c' = []"
proof -
  obtain ok c1 cs1 where f: "noise_fill L c cs = (ok, c1, cs1)" by (metis prod_cases3)
  have "length (nc_plaintext c1) \<le> 4077 \<and> (\<not> ok \<longrightarrow> nc_plaintext c1 = [])"
    using noise_fill_bound [OF assms(1) _ f] assms(2) by simp
  then show ?thesis using assms(3) f by (cases ok) (auto simp: noise_read_def Let_def)
qed

theorem read_leaves_nothing_witness:
  "\<exists>d c' cs'. noise_read ref_openssl 8192 (new_NoiseConn 4 (replicate 32 2) (replicate 32 1))
     [[4, 0, 18, 1, 2] @ replicate 16 7] = (d, c', cs') \<and> d = [1, 2] \<and> nc_plaintext c' = []"
proof -
  let ?c = "new_NoiseConn 4 (replicate 32 2) (replicate 32 1)"
  obtain d c' cs' where r: "noise_read ref_openssl 8192 ?c [[4, 0, 18, 1, 2] @ replicate 16 7] = (d, c', cs')"
    by (metis prod_cases3)
  have "fst (noise_read ref_openssl 8192 ?c [[4, 0, 18, 1, 2] @ replicate 16 7]) = [1, 2]" by code_simp
  moreover have "nc_plaintext ?c = []" by (simp add: new_NoiseConn_def)
  ultimately show ?thesis using r read_leaves_nothing [OF ref_openssl_laws _ r] by auto
qed

text \<open>A client of the connection: reads with the buffer sizes \<open>ns\<close>, one after another.\<close>

fun noise_reads :: "openssl \<Rightarrow> int list \<Rightarrow> NoiseConn \<Rightarrow> bytes list \<Rightarrow> bytes \<times> NoiseConn \<times> bytes list" where
  "noise_reads L [] c cs = ([], c, cs)"
| "noise_reads L (n # ns) c cs =
     (case noise_read L n c cs of (d, c1, cs1) \<Rightarrow>
        case noise_reads L ns c1 cs1 of (ds, c2, cs2) \<Rightarrow> (d @ ds, c2, cs2))"

lemma noise_reads_pending:
  assumes "openssl_laws L" "pending L full c cs rest" "noise_reads L ns c cs = (d, c', cs')"
  shows "\<exists>rest'. rest = d @ rest' \<and> pending L full c' cs' rest' \<and>
    (full \<and> list_all (\<lambda>n. 0 < n) ns \<and> length rest \<le> length ns \<longrightarrow> rest' = [])"
  using assms(2,3)
proof (induction ns arbitrary: c cs rest d)
  case (Cons n ns)
  obtain d1 c1 cs1 where 1: "noise_read L n c cs = (d1, c1, cs1)" by (metis prod_cases3)
  obtain d2 c2 cs2 where 2: "noise_reads L ns c1 cs1 = (d2, c2, cs2)" by (metis prod_cases3)
  obtain r1 where r1: "rest = d1 @ r1" "pending L full c1 cs1 r1" "full \<and> 0 < n \<and> rest \<noteq> [] \<longrightarrow> d1 \<noteq> []"
    using noise_read_pending [OF assms(1) Cons.prems(1) 1] by blast
  have res: "d = d1 @ d2" "c' = c2" "cs' = cs2" using Cons.prems(2) 1 2 by auto
  obtain r2 where r2: "r1 = d2 @ r2" "pending L full c2 cs2 r2"
    "full \<and> list_all (\<lambda>n. 0 < n) ns \<and> length r1 \<le> length ns \<longrightarrow> r2 = []"
    using Cons.IH [OF r1(2) 2 [folded res(2,3)]] unfolding res by blast
  have "length r1 \<le> length ns" if "full" "0 < n" "length rest \<le> Suc (length ns)"
    using that r1(1,3) by (cases "rest = []"; cases d1) auto
  then show ?case using r1 r2 res by auto
qed auto

text \<open>Different counter values give different nonces.\<close>

lemma put_be64_loop_octets:
  "put_be64_loop n v out = map (\<lambda>i. ucast (drop_bit (8 * (n - Suc i)) v)) [0..<n] @ out"
proof (induction n arbitrary: v out)
  case (Suc n)
  have "8 * (n - Suc i) + 8 = 8 * (n - i)" if "i < n" for i using that by (simp add: algebra_simps)
  then show ?case by (simp add: Suc.IH)
qed simp

lemma nth_put_be64: "i < 8 \<Longrightarrow> put_be64 v ! i = ucast (drop_bit (8 * (7 - i)) v)"
  by (simp add: put_be64_def put_be64_loop_octets nth_append nth_map_upt)

lemma record_nonce_inject: "record_nonce v = record_nonce w \<longleftrightarrow> v = w"
proof
  assume "record_nonce v = record_nonce w"
  then have eq: "put_be64 v ! i = put_be64 w ! i" for i by (simp add: record_nonce_def)
  show "v = w"
  proof (rule bit_word_eqI)
    fix n assume "n < LENGTH(64)"
    then have "n div 8 < 8" by simp
    then have "(ucast (drop_bit (8 * (n div 8)) v) :: u8) = ucast (drop_bit (8 * (n div 8)) w)"
      using eq [of "7 - n div 8"] by (simp add: nth_put_be64)
    then have "bit (ucast (drop_bit (8 * (n div 8)) v) :: u8) (n mod 8) = bit (ucast (drop_bit (8 * (n div 8)) w) :: u8) (n mod 8)"
      by simp
    then show "bit v n = bit w n" by (simp add: bit_simps)
  qed
qed simp

lemma distinct_record_nonces:
  assumes "m < 2 ^ 64"
  shows "distinct (map (\<lambda>i. record_nonce (v + word_of_nat i)) [0..<m])"
proof -
  have "i = j" if "i < m" "j < m" "(word_of_nat i :: u64) = word_of_nat j" for i j
  proof -
    have "i < 2 ^ LENGTH(64)" "j < 2 ^ LENGTH(64)" using that(1,2) assms by simp_all
    then show ?thesis using unat_of_nat_below that(3) by metis
  qed
  then show ?thesis by (auto simp: distinct_map inj_on_def record_nonce_inject)
qed

lemma pieces_ok_length: "pieces_ok ps \<Longrightarrow> length ps \<le> length (concat ps)"
proof (induction ps)
  case (Cons p ps)
  then show ?case by (cases p) (auto simp: pieces_ok_def)
qed simp

lemma pieces_exist: "\<exists>ps. pieces_ok ps \<and> concat ps = xs"
  by (intro exI [of _ "map (\<lambda>x. [x]) xs"]) (simp add: pieces_ok_def list_all_iff noise_consts)

text \<open>
  What \<^verbatim>\<open>write\<close> puts on the wire: a prefix of the records of its pieces under successive
  nonces, and all of them when it returns the full length.
\<close>

definition wrote :: "openssl \<Rightarrow> nat \<Rightarrow> bytes \<Rightarrow> NoiseConn \<Rightarrow> bytes \<Rightarrow> int res \<Rightarrow> NoiseConn \<Rightarrow> bytes \<Rightarrow> bool" where
  "wrote L sent rest c out r c' out' \<longleftrightarrow>
     (\<exists>n m ps. r = Inr n \<and> pieces_ok ps \<and> concat ps = rest \<and> m \<le> length ps \<and>
        c' = c\<lparr>nc_tx_nonce := nc_tx_nonce c + word_of_nat m\<rparr> \<and>
        prefix out' (out @ noise_wire L (nc_tx_key c) (nc_tx_nonce c) ps) \<and>
        (n = int (sent + length rest) \<longrightarrow>
           m = length ps \<and> out' = out @ noise_wire L (nc_tx_key c) (nc_tx_nonce c) ps))"

lemma wrote_failed:
  assumes "rest \<noteq> []" "p = take (min (length rest) kMaxPlaintext) rest" "n < int (sent + length rest)"
    and "prefix out' (out @ noise_record L (nc_tx_key c) (nc_tx_nonce c) p)"
  shows "wrote L sent rest c out (Inr n) (c\<lparr>nc_tx_nonce := nc_tx_nonce c + 1\<rparr>) out'"
proof -
  obtain ps where ps: "pieces_ok ps" "concat ps = drop (length p) rest" using pieces_exist by blast
  have "pieces_ok (p # ps)" "concat (p # ps) = rest"
    using assms(1,2) ps by (auto simp: pieces_ok_def noise_consts min_def split: if_splits)
  moreover have "prefix out' (out @ noise_wire L (nc_tx_key c) (nc_tx_nonce c) (p # ps))"
    using assms(4) prefix_prefix by fastforce
  ultimately show ?thesis
    unfolding wrote_def using assms(3)
    by (intro exI [of _ n] exI [of _ 1] exI [of _ "p # ps"]) simp
qed

lemma wrote_step:
  assumes "rest \<noteq> []" "chunk = min (length rest) kMaxPlaintext"
    and "wrote L (sent + chunk) (drop chunk rest) (c\<lparr>nc_tx_nonce := nc_tx_nonce c + 1\<rparr>)
      (out @ noise_record L (nc_tx_key c) (nc_tx_nonce c) (take chunk rest)) r c' out'"
  shows "wrote L sent rest c out r c' out'"
proof -
  let ?p = "take chunk rest"
  obtain n m ps where w: "r = Inr n" "pieces_ok ps" "concat ps = drop chunk rest" "m \<le> length ps"
    "c' = c\<lparr>nc_tx_nonce := nc_tx_nonce c + 1 + word_of_nat m\<rparr>"
    "prefix out' (out @ noise_wire L (nc_tx_key c) (nc_tx_nonce c) (?p # ps))"
    "n = int (sent + chunk + length (drop chunk rest)) \<longrightarrow>
       m = length ps \<and> out' = out @ noise_wire L (nc_tx_key c) (nc_tx_nonce c) (?p # ps)"
    using assms(3) by (auto simp: wrote_def)
  have "pieces_ok (?p # ps)" "concat (?p # ps) = rest" "chunk \<le> length rest"
    using assms(1,2) w(2,3) by (auto simp: pieces_ok_def noise_consts)
  then show ?thesis
    unfolding wrote_def using w
    by (intro exI [of _ n] exI [of _ "Suc m"] exI [of _ "?p # ps"]) (simp add: add.assoc)
qed

lemma noise_write_loop_step:
  assumes "openssl_laws L" "length (nc_tx_key c) = 32" "rest \<noteq> []" "chunk = min (length rest) kMaxPlaintext"
    and "c1 = c\<lparr>nc_tx_nonce := nc_tx_nonce c + 1\<rparr>"
    and "rc = noise_record L (nc_tx_key c) (nc_tx_nonce c) (take chunk rest)"
  shows "(\<exists>ws' out'. noise_write_loop L sent rest c ws out =
        (Inr (if sent = 0 then -1 else int sent), c1, ws', out') \<and> prefix out' (out @ rc)) \<or>
    (\<exists>ws'. noise_write_loop L sent rest c ws out =
        noise_write_loop L (sent + chunk) (drop chunk rest) c1 ws' (out @ rc))"
proof -
  have "length (take chunk rest) \<le> kMaxPlaintext" by (simp add: assms(4))
  then obtain ct where ct: "aead_seal L (nc_tx_key c) (record_nonce (nc_tx_nonce c)) [] (take chunk rest) = Inr ct"
    "rc = (kMsgRecord # put_be16 (word_of_nat (length ct))) @ ct"
    unfolding assms(6) using seal_record [OF assms(1,2)] by (metis append_Cons append_Nil)
  let ?hdr = "kMsgRecord # put_be16 (word_of_nat (length ct))"
  obtain ok1 ws1 out1 where 1: "write_full ?hdr ws out = (ok1, ws1, out1)" by (metis prod_cases3)
  obtain ok2 ws2 out2 where 2: "write_full ct ws1 out1 = (ok2, ws2, out2)" by (metis prod_cases3)
  have loop: "noise_write_loop L sent rest c ws out =
      (if \<not> ok1 then (Inr (if sent = 0 then -1 else int sent), c1, ws1, out1)
       else if \<not> ok2 then (Inr (if sent = 0 then -1 else int sent), c1, ws2, out2)
       else noise_write_loop L (sent + chunk) (drop chunk rest) c1 ws2 out2)"
    using assms(3) ct(1) 1 2
    by (simp add: noise_write_loop.simps [of L sent rest] Let_def assms(4) [symmetric] assms(5) split del: if_split)
      (simp add: assms(5) split: bool.split)
  obtain k where "out1 = out @ take k ?hdr" using write_full_prefix [OF 1] by blast
  then have p1: "prefix out1 (out @ rc)" unfolding ct(2) by (simp only: same_prefix_prefix prefix_prefix take_is_prefix)
  have p2: "prefix out2 (out @ rc)" if "ok1"
    using write_full_prefix [OF 2] write_full_True [OF 1 [unfolded eqTrueI [OF that]]]
    by (auto simp: ct(2) take_is_prefix)
  have p3: "out2 = out @ rc" if "ok1" "ok2"
    using that 1 2 write_full_True [of ?hdr ws out] write_full_True [of ct ws1 out1] by (simp add: ct(2))
  show ?thesis using loop p1 p2 p3 by (cases ok1; cases ok2) auto
qed

lemma noise_write_loop_wrote:
  assumes "openssl_laws L" "length (nc_tx_key c) = 32"
    and "noise_write_loop L sent rest c ws out = (r, c', ws', out')"
  shows "wrote L sent rest c out r c' out'"
  using assms(2,3)
proof (induction "length rest" arbitrary: sent rest c ws out rule: less_induct)
  case less
  show ?case
  proof (cases "rest = []")
    case True
    with less.prems show ?thesis
      by (auto simp: noise_write_loop.simps wrote_def pieces_ok_def intro!: exI [of _ "[]"])
  next
    case False
    define chunk where "chunk = min (length rest) kMaxPlaintext"
    define c1 where "c1 = c\<lparr>nc_tx_nonce := nc_tx_nonce c + 1\<rparr>"
    define rc where "rc = noise_record L (nc_tx_key c) (nc_tx_nonce c) (take chunk rest)"
    have smaller: "length (drop chunk rest) < length rest"
      using False by (simp add: chunk_def noise_consts)
    consider (failed) ws1 out1 where "noise_write_loop L sent rest c ws out =
        (Inr (if sent = 0 then -1 else int sent), c1, ws1, out1)" "prefix out1 (out @ rc)"
      | (more) ws1 where "noise_write_loop L sent rest c ws out =
        noise_write_loop L (sent + chunk) (drop chunk rest) c1 ws1 (out @ rc)"
      using noise_write_loop_step [OF assms(1) less.prems(1) False chunk_def c1_def rc_def, of sent ws out] by blast
    then show ?thesis
    proof cases
      case failed
      then have "r = Inr (if sent = 0 then -1 else int sent)" "c' = c1" "out' = out1" using less.prems(2) by simp_all
      moreover have "(if sent = 0 then -1 else int sent) < int (sent + length rest)" using False by simp
      ultimately show ?thesis
        using wrote_failed [OF False refl, of _ sent out1 out L c] failed(2) by (simp add: c1_def rc_def chunk_def)
    next
      case more
      then show ?thesis
        using less.hyps [OF smaller, of c1 "sent + chunk" ws1 "out @ rc"] less.prems
          wrote_step [OF False chunk_def] by (simp add: c1_def rc_def)
    qed
  qed
qed

text \<open>
  C13: The record layer carries a byte stream. When one side writes \<open>data\<close> and the other reads
  under the matching key and nonce, then however the octets were segmented on the way, wherever
  the stream was cut, whatever the \<^verbatim>\<open>send\<close> calls accepted and whatever buffer sizes the
  reader used, the reader obtains a prefix of \<open>data\<close>; and it obtains all of \<open>data\<close> when the
  writer reported success, nothing was cut and it read often enough.
\<close>

theorem noise_stream_integrity:
  assumes "openssl_laws L" "length (nc_tx_key s) = 32"
    and "nc_rx_key r = nc_tx_key s" "nc_rx_nonce r = nc_tx_nonce s" "nc_plaintext r = []"
    and "noise_write L data s ws [] = (res, s', ws', wire)"
    and "segments cs" "prefix (concat cs) wire"
    and "noise_reads L ns r cs = (d, r', cs')"
  shows "prefix d data \<and>
    (res = Inr (int (length data)) \<and> concat cs = wire \<and> list_all (\<lambda>n. 0 < n) ns \<and> length data \<le> length ns
       \<longrightarrow> d = data)"
proof -
  obtain n m ps where w: "res = Inr n" "pieces_ok ps" "concat ps = data"
    "prefix wire (noise_wire L (nc_tx_key s) (nc_tx_nonce s) ps)"
    "n = int (length data) \<longrightarrow> wire = noise_wire L (nc_tx_key s) (nc_tx_nonce s) ps"
    using noise_write_loop_wrote [OF assms(1,2) assms(6) [unfolded noise_write_def]] by (auto simp: wrote_def)
  let ?full = "n = int (length data) \<and> concat cs = wire"
  have "pending L ?full r cs data"
    using w assms(2-5,7,8) prefix_order.trans [OF assms(8) w(4)] by (auto simp: pending_def)
  from noise_reads_pending [OF assms(1) this assms(9)] show ?thesis
    using w(1) by auto
qed

text \<open>
  C20: \<^verbatim>\<open>write\<close> never throws under a 32-octet key, cuts the data into records of at most 4096
  octets, advances the nonce once per record it began, and no two of these records use the same
  nonce (as long as one call does not wrap the 64-bit counter).
\<close>

theorem noise_write_records:
  assumes "openssl_laws L" "length (nc_tx_key c) = 32" "length data < 2 ^ 64"
    and "noise_write L data c ws out = (r, c', ws', out')"
  shows "\<exists>n m ps. r = Inr n \<and> concat ps = data \<and> m \<le> length ps \<and>
    nc_tx_nonce c' = nc_tx_nonce c + word_of_nat m \<and>
    prefix out' (out @ noise_wire L (nc_tx_key c) (nc_tx_nonce c) ps) \<and>
    list_all (\<lambda>p. \<forall>v. length (noise_record L (nc_tx_key c) v p) \<le> 4096) ps \<and>
    distinct (map (\<lambda>i. record_nonce (nc_tx_nonce c + word_of_nat i)) [0..<length ps])"
proof -
  obtain n m ps where w: "r = Inr n" "pieces_ok ps" "concat ps = data" "m \<le> length ps"
    "c' = c\<lparr>nc_tx_nonce := nc_tx_nonce c + word_of_nat m\<rparr>"
    "prefix out' (out @ noise_wire L (nc_tx_key c) (nc_tx_nonce c) ps)"
    using noise_write_loop_wrote [OF assms(1,2) assms(4) [unfolded noise_write_def]] by (auto simp: wrote_def)
  have "list_all (\<lambda>p. \<forall>v. length (noise_record L (nc_tx_key c) v p) \<le> 4096) ps"
    using w(2) length_noise_record [OF assms(1,2)] by (auto simp: pieces_ok_def list_all_iff noise_consts)
  moreover have "length ps \<le> length (concat ps)" using w(2) by (rule pieces_ok_length)
  then have "distinct (map (\<lambda>i. record_nonce (nc_tx_nonce c + word_of_nat i)) [0..<length ps])"
    using assms(3) w(3) by (intro distinct_record_nonces) simp
  ultimately show ?thesis using w by (intro exI [of _ n] exI [of _ m] exI [of _ ps]) simp
qed

theorem noise_write_records_witness:
  "\<exists>r c' ws' out' n m ps.
     noise_write ref_openssl [1, 2] (new_NoiseConn 3 (replicate 32 1) (replicate 32 2)) [2, 9, 5, 40] [] = (r, c', ws', out') \<and>
     r = Inr n \<and> concat ps = ([1, 2] :: bytes) \<and> m \<le> length ps \<and> nc_tx_nonce c' = word_of_nat m"
proof -
  let ?c = "new_NoiseConn 3 (replicate 32 1) (replicate 32 2)"
  obtain r c' ws' out' where w: "noise_write ref_openssl [1, 2] ?c [2, 9, 5, 40] [] = (r, c', ws', out')"
    by (metis prod_cases4)
  have c: "length (nc_tx_key ?c) = 32" "length [1, 2 :: u8] < 2 ^ 64" "nc_tx_nonce ?c = 0"
    by (simp_all add: new_NoiseConn_def)
  obtain n m ps where "r = Inr n" "concat ps = ([1, 2] :: bytes)" "m \<le> length ps"
    "nc_tx_nonce c' = nc_tx_nonce ?c + word_of_nat m"
    using noise_write_records [OF ref_openssl_laws c(1,2) w] by (elim exE conjE) (rule that)
  with w show ?thesis unfolding c(3) add_0_left by blast
qed

text \<open>The writer hands over 21 octets in two sends, the reader gets them in three segments.\<close>

theorem noise_stream_integrity_witness:
  "\<exists>s' ws' wire cs d r' cs'.
     noise_write ref_openssl [1, 2] (new_NoiseConn 3 (replicate 32 1) (replicate 32 2)) [2, 9, 5, 40] [] =
       (Inr 2, s', ws', wire) \<and> cs = [take 1 wire, drop 1 wire] \<and>
     noise_reads ref_openssl [1, 5] (new_NoiseConn 4 (replicate 32 2) (replicate 32 1)) cs = (d, r', cs') \<and>
     d = [1, 2]"
proof -
  let ?s = "new_NoiseConn 3 (replicate 32 1) (replicate 32 2)"
  let ?r = "new_NoiseConn 4 (replicate 32 2) (replicate 32 1)"
  let ?wire = "[4, 0, 18, 1, 2] @ replicate 16 7 :: bytes"
  have w: "noise_write ref_openssl [1, 2] ?s [2, 9, 5, 40] [] = (Inr 2, ?s\<lparr>nc_tx_nonce := 1\<rparr>, [], ?wire)"
    by code_simp
  obtain d r' cs' where rd: "noise_reads ref_openssl [1, 5] ?r [take 1 ?wire, drop 1 ?wire] = (d, r', cs')"
    by (metis prod_cases3)
  have "length (nc_tx_key ?s) = 32" "nc_rx_key ?r = nc_tx_key ?s" "nc_rx_nonce ?r = nc_tx_nonce ?s"
    "nc_plaintext ?r = []" "segments [take 1 ?wire, drop 1 ?wire]" "prefix (concat [take 1 ?wire, drop 1 ?wire]) ?wire"
    by (simp_all add: new_NoiseConn_def segments_def)
  from noise_stream_integrity [OF ref_openssl_laws this(1-4) w this(5,6) rd] w rd show ?thesis by auto
qed

end
