(* ===== verification/Http1.thy ===== *)
theory Http1
  imports Socket
begin

text \<open>
  Model of \<^verbatim>\<open>src/src/http1.cpp\<close>: reading a request head from a stream socket, the header
  and query lookups, and writing a response. Text is handled as octet strings; lines end at a
  newline, as \<^verbatim>\<open>std::getline\<close> cuts them.
\<close>

section \<open>Requests\<close>

record HttpRequest =
  rq_method :: string
  rq_target :: string
  rq_path :: string
  rq_query :: string
  rq_headers :: "string \<rightharpoonup> string"

definition empty_HttpRequest :: HttpRequest where
  "empty_HttpRequest = \<lparr>rq_method = [], rq_target = [], rq_path = [], rq_query = [], rq_headers = Map.empty\<rparr>"

definition crlf2 :: string where
  "crlf2 = [CHR 0x0D, CHR 0x0A, CHR 0x0D, CHR 0x0A]"

text \<open>\<^verbatim>\<open>std::string::find\<close>: what precedes the first occurrence of \<open>pat\<close> and what follows it.\<close>

fun find_sub :: "'a list \<Rightarrow> 'a list \<Rightarrow> ('a list \<times> 'a list) option" where
  "find_sub pat [] = (if pat = [] then Some ([], []) else None)"
| "find_sub pat (x # xs) =
     (if take (length pat) (x # xs) = pat then Some ([], drop (length pat) (x # xs))
      else map_option (\<lambda>(a, b). (x # a, b)) (find_sub pat xs))"

text \<open>Successive \<^verbatim>\<open>std::getline\<close> calls on a string stream.\<close>

function getlines :: "string \<Rightarrow> string list" where
  "getlines s =
     (if s = [] then []
      else case split_first CHR 0x0A s of None \<Rightarrow> [s] | Some (a, rest) \<Rightarrow> a # getlines rest)"
  by pat_completeness auto
termination
  by (relation "measure length") (auto simp: split_first_Some)

declare getlines.simps [simp del]

definition pop_cr :: "string \<Rightarrow> string" where
  "pop_cr line = (if line \<noteq> [] \<and> last line = CHR 0x0D then butlast line else line)"

text \<open>One \<^verbatim>\<open>operator>>\<close> into a string.\<close>

definition next_word :: "string \<Rightarrow> string \<times> string" where
  "next_word s = (let t = dropWhile is_space s in (takeWhile (\<lambda>c. \<not> is_space c) t, dropWhile (\<lambda>c. \<not> is_space c) t))"

definition request_line :: "string \<Rightarrow> HttpRequest \<Rightarrow> HttpRequest" where
  "request_line line req =
     (let (m, rest) = next_word line; (t, _) = next_word rest; req1 = req\<lparr>rq_method := m, rq_target := t\<rparr>
      in case split_first CHR ''?'' t of
           None \<Rightarrow> req1\<lparr>rq_path := t\<rparr>
         | Some (p, q) \<Rightarrow> req1\<lparr>rq_path := p, rq_query := q\<rparr>)"

definition header_line :: "string \<Rightarrow> HttpRequest \<Rightarrow> HttpRequest" where
  "header_line line req =
     (case split_first CHR '':'' (pop_cr line) of
        None \<Rightarrow> req
      | Some (name, value) \<Rightarrow>
          req\<lparr>rq_headers := (rq_headers req)
             (lower_string name \<mapsto> dropWhile (\<lambda>c. c = CHR '' '' \<or> c = CHR 0x09) value)\<rparr>)"

definition parse_head :: "string \<Rightarrow> HttpRequest \<Rightarrow> HttpRequest option" where
  "parse_head head req =
     (case getlines head of
        [] \<Rightarrow> None
      | l # ls \<Rightarrow> Some (fold header_line ls (request_line (pop_cr l) req)))"

text \<open>
  The receive loop: \<open>buf\<close> is what has arrived. The result is the head, what followed it in the
  buffer, and the segments still to come.
\<close>

function read_head :: "string \<Rightarrow> bytes list \<Rightarrow> (string \<times> string) option \<times> bytes list" where
  "read_head buf cs =
     (case find_sub crlf2 buf of
        Some r \<Rightarrow> (Some r, cs)
      | None \<Rightarrow>
          (case recv 1024 cs of (r, cs') \<Rightarrow>
             if r = [] then (None, cs')
             else if 64 * 1024 < length (buf @ string_of_bytes r) then (None, cs')
             else read_head (buf @ string_of_bytes r) cs'))"
  by pat_completeness auto
termination
proof (relation "measure (\<lambda>(buf, cs). length (concat cs))", goal_cases)
  case (2 buf cs r cs')
  then have "concat cs = r @ concat cs'" by (intro recv_concat [of 1024]) simp
  with 2 show ?case by simp
qed simp

declare read_head.simps [simp del]

definition read_http_request :: "bytes list \<Rightarrow> (HttpRequest \<times> string) option \<times> bytes list" where
  "read_http_request cs =
     (case read_head [] cs of
        (None, cs') \<Rightarrow> (None, cs')
      | (Some (head, extra), cs') \<Rightarrow>
          (map_option (\<lambda>req. (req, extra)) (parse_head head empty_HttpRequest), cs'))"

definition header_get :: "HttpRequest \<Rightarrow> string \<Rightarrow> string" where
  "header_get req name = (case rq_headers req (lower_string name) of None \<Rightarrow> [] | Some v \<Rightarrow> v)"

function query_get :: "string \<Rightarrow> string \<Rightarrow> string" where
  "query_get query key =
     (if query = [] then []
      else
        let (part, rest) = (case split_first CHR ''&'' query of None \<Rightarrow> (query, None) | Some (p, r) \<Rightarrow> (p, Some r));
            (k, v) = (case split_first CHR ''='' part of None \<Rightarrow> (part, []) | Some kv \<Rightarrow> kv)
        in if k = key then v
           else case rest of None \<Rightarrow> [] | Some r \<Rightarrow> query_get r key)"
  by pat_completeness auto
termination
  by (relation "measure (length \<circ> fst)") (auto simp: split_first_Some split: option.splits prod.splits)

declare query_get.simps [simp del]

section \<open>Responses\<close>

definition http_response_text :: "int \<Rightarrow> string \<Rightarrow> string \<Rightarrow> string \<Rightarrow> string" where
  "http_response_text status status_text content_type body =
     (let nl = [CHR 0x0D, CHR 0x0A]
      in ''HTTP/1.1 '' @ (if status < 0 then ''-'' else []) @ to_string (nat \<bar>status\<bar>) @ '' '' @ status_text @ nl @
         ''Content-Type: '' @ content_type @ nl @
         ''Content-Length: '' @ to_string (length body) @ nl @
         ''Connection: close'' @ nl @ nl @ body)"

definition write_http_response :: "int \<Rightarrow> string \<Rightarrow> string \<Rightarrow> string \<Rightarrow> sock \<Rightarrow> sock" where
  "write_http_response status status_text content_type body s =
     (case write_all (bytes_of_string (http_response_text status status_text content_type body)) (sk_send s) (sk_out s) of
        (_, ws, out) \<Rightarrow> s\<lparr>sk_send := ws, sk_out := out\<rparr>)"

section \<open>Searching and splitting: lemmas\<close>

lemma find_sub_Some: "find_sub pat xs = Some (a, b) \<Longrightarrow> xs = a @ pat @ b"
proof (induction xs arbitrary: a)
  case (Cons x xs)
  then show ?case
    by (cases "take (length pat) (x # xs) = pat") (metis append_Nil append_take_drop_id find_sub.simps(2) option.inject prod.inject, auto)
qed (auto split: if_splits)

lemma take_append_long:
  assumes "n \<le> length xs"
  shows "take n (xs @ ys) = take n xs" "drop n (xs @ ys) = drop n xs @ ys"
  using assms by simp_all

lemma find_sub_append:
  "find_sub pat xs = Some (a, b) \<Longrightarrow> find_sub pat (xs @ ys) = Some (a, b @ ys)"
proof (induction xs arbitrary: a)
  case Nil
  then show ?case by (cases ys) (auto split: if_splits)
next
  case (Cons x xs)
  have "length pat \<le> length (x # xs)" using find_sub_Some [OF Cons.prems] by (metis length_append le_add1 le_add2 order_trans)
  note take_append_long [OF this, of ys]
  with Cons show ?case by (auto split: if_splits)
qed

lemma find_sub_prefix:
  assumes "find_sub pat (xs @ ys) = Some (a, b)" "length a + length pat \<le> length xs"
  shows "find_sub pat xs \<noteq> None"
  using assms
proof (induction xs arbitrary: a)
  case (Cons x xs)
  show ?case
  proof (cases "take (length pat) ((x # xs) @ ys) = pat")
    case True
    then have "a = []" using Cons.prems(1) by simp
    then have "take (length pat) ((x # xs) @ ys) = take (length pat) (x # xs)" using Cons.prems(2) by (intro take_append_long) simp
    with True show ?thesis by simp
  next
    case False
    then show ?thesis using Cons by (auto split: if_splits)
  qed
qed simp

section \<open>Independence of segmentation\<close>

lemma read_head_spec:
  assumes "segments cs" "find_sub crlf2 (buf @ string_of_bytes (concat cs)) = Some (head, rest)" "length head \<le> 64509"
  shows "\<exists>extra cs'. read_head buf cs = (Some (head, extra), cs') \<and> extra @ string_of_bytes (concat cs') = rest \<and> segments cs'"
  using assms(1,2)
proof (induction buf cs rule: read_head.induct)
  case (1 buf cs)
  show ?case
  proof (cases "find_sub crlf2 buf")
    case (Some r)
    obtain h e where "r = (h, e)" by fastforce
    with Some find_sub_append [of crlf2 buf h e "string_of_bytes (concat cs)"] "1.prems"
    show ?thesis by (simp add: read_head.simps [of buf])
  next
    case None
    then have len: "length buf < length head + 4"
      using find_sub_prefix [OF "1.prems"(2)] by (fastforce simp: crlf2_def)
    obtain r cs' where r: "recv 1024 cs = (r, cs')" by fastforce
    have cat: "concat cs = r @ concat cs'" by (rule recv_concat [OF r])
    have "cs \<noteq> []" using None "1.prems"(2) by auto
    then have ne: "r \<noteq> []" using recv_progress [OF "1.prems"(1) _ _ r] by simp
    have small: "length (buf @ string_of_bytes r) \<le> 64 * 1024"
      using len assms(3) recv_bounds [OF r] by simp
    have "read_head buf cs = read_head (buf @ string_of_bytes r) cs'"
      using None r ne small by (simp add: read_head.simps [of buf])
    then show ?thesis
      using "1.IH" [OF None r [symmetric] ne] small recv_segments [OF "1.prems"(1) r] "1.prems"(2)
      by (simp add: cat)
  qed
qed

text \<open>
  Reading a request does not depend on how its octets are segmented: for a head of at most
  64509 octets the request is the one parsed from the text before the first blank line, and what
  follows it is split, in order and without loss, between the leftover buffer and the octets not
  yet received.
\<close>

theorem http_request_segmentation:
  assumes "segments cs" "find_sub crlf2 (string_of_bytes (concat cs)) = Some (head, rest)" "length head \<le> 64509"
  shows "\<exists>extra cs'. read_http_request cs = (map_option (\<lambda>req. (req, extra)) (parse_head head empty_HttpRequest), cs') \<and>
    extra @ string_of_bytes (concat cs') = rest"
  using read_head_spec [of cs "[]" head rest] assms by (auto simp: read_http_request_def)

theorem http_request_segmentation_witness:
  "\<exists>extra cs'. read_http_request [bytes_of_string [CHR ''G'', CHR 0x0D], bytes_of_string [CHR 0x0A, CHR 0x0D, CHR 0x0A, CHR ''x'']] =
     (map_option (\<lambda>req. (req, extra)) (parse_head ''G'' empty_HttpRequest), cs') \<and>
     extra @ string_of_bytes (concat cs') = ''x''"
  by (rule http_request_segmentation) (simp_all add: segments_def crlf2_def)

section \<open>Endless requests\<close>

lemma read_head_consumes:
  "read_head buf cs = (r, cs') \<Longrightarrow> length buf \<le> 64 * 1024 \<Longrightarrow>
   length (concat cs') \<le> length (concat cs) \<and> length buf + (length (concat cs) - length (concat cs')) \<le> 65 * 1024"
proof (induction buf cs rule: read_head.induct)
  case (1 buf cs)
  obtain x cs1 where x: "recv 1024 cs = (x, cs1)" by fastforce
  have len: "length (concat cs) = length x + length (concat cs1)" "length x \<le> 1024"
    using recv_concat [OF x] recv_bounds [OF x] by simp_all
  consider (found) y where "find_sub crlf2 buf = Some y" | (stop) "find_sub crlf2 buf = None" "x = [] \<or> 64 * 1024 < length (buf @ string_of_bytes x)"
    | (more) "find_sub crlf2 buf = None" "x \<noteq> []" "\<not> 64 * 1024 < length (buf @ string_of_bytes x)" by fastforce
  then show ?case
  proof cases
    case found
    then have "cs' = cs" using "1.prems"(1) by (simp add: read_head.simps [of buf])
    then show ?thesis using "1.prems"(2) by simp
  next
    case stop
    then have "cs' = cs1" using "1.prems"(1) x by (auto simp: read_head.simps [of buf] split: if_splits)
    then show ?thesis using "1.prems"(2) len by simp
  next
    case more
    then have "read_head (buf @ string_of_bytes x) cs1 = (r, cs')" using "1.prems"(1) x by (simp add: read_head.simps [of buf])
    from "1.IH" [OF more(1) x [symmetric] more(2,3) this] more(3) len show ?thesis unfolding length_append length_map by linarith
  qed
qed

text \<open>
  C29: A client cannot hold a thread in the receive loop by sending: however much the peer sends
  and however it is segmented, the loop comes to an end after at most 66560 octets (the limit of
  64 KiB plus one buffer), with a request or without.
\<close>

theorem request_read_terminates:
  "\<exists>r cs'. read_http_request cs = (r, cs') \<and> length (concat cs') \<le> length (concat cs) \<and>
    length (concat cs) - length (concat cs') \<le> 66560"
proof -
  obtain r cs' where r: "read_head [] cs = (r, cs')" by fastforce
  have "\<exists>q. read_http_request cs = (q, cs')" using r by (auto simp: read_http_request_def split: option.split)
  then show ?thesis using read_head_consumes [OF r] by auto
qed

section \<open>Round trips\<close>

abbreviation crlf :: string where
  "crlf \<equiv> [CHR 0x0D, CHR 0x0A]"

definition plain_line :: "string \<Rightarrow> bool" where
  "plain_line l \<longleftrightarrow> l \<noteq> [] \<and> CHR 0x0D \<notin> set l \<and> CHR 0x0A \<notin> set l"

fun join_lines :: "string list \<Rightarrow> string" where
  "join_lines [] = []"
| "join_lines [l] = l"
| "join_lines (l # ls) = l @ crlf @ join_lines ls"

lemma find_sub_skip:
  "CHR 0x0D \<notin> set l \<Longrightarrow> find_sub crlf2 (l @ ys) = map_option (\<lambda>(a, b). (l @ a, b)) (find_sub crlf2 ys)"
proof (induction l)
  case Nil
  then show ?case by (cases "find_sub crlf2 ys") auto
next
  case (Cons c l)
  then have "find_sub crlf2 ((c # l) @ ys) = map_option (\<lambda>(a, b). (c # a, b)) (find_sub crlf2 (l @ ys))"
    by (auto simp: crlf2_def)
  with Cons show ?case by (cases "find_sub crlf2 ys") auto
qed

lemma find_sub_blank_line:
  "ls \<noteq> [] \<Longrightarrow> list_all plain_line ls \<Longrightarrow> find_sub crlf2 (join_lines ls @ crlf2 @ rest) = Some (join_lines ls, rest)"
proof (induction ls rule: join_lines.induct)
  case (2 l)
  then show ?case by (simp add: find_sub_skip plain_line_def) (simp add: crlf2_def)
next
  case (3 l k ks)
  obtain c k' where k: "join_lines (k # ks) = c # k'" "c \<noteq> CHR 0x0D"
    using 3 by (cases k; cases ks) (auto simp: plain_line_def)
  have "find_sub crlf2 (crlf @ join_lines (k # ks) @ crlf2 @ rest) = Some (crlf @ join_lines (k # ks), rest)"
    using 3 k by (simp add: crlf2_def)
  then show ?case using 3 by (simp add: find_sub_skip plain_line_def)
qed simp

lemma pop_cr_line: "plain_line l \<Longrightarrow> pop_cr l = l" "pop_cr (l @ [CHR 0x0D]) = l"
  by (auto simp: pop_cr_def plain_line_def dest: last_in_set)

lemma getlines_join: "list_all plain_line ls \<Longrightarrow> map pop_cr (getlines (join_lines ls)) = ls"
proof (induction ls rule: join_lines.induct)
  case 1
  then show ?case by (simp add: getlines.simps)
next
  case (2 l)
  then have l: "split_first CHR 0x0A l = None" "l \<noteq> []" by (simp_all add: plain_line_def)
  have "getlines l = [l]" unfolding getlines.simps [of l] l(1) using l(2) by simp
  with 2 show ?case by (simp add: pop_cr_line)
next
  case (3 l k ks)
  then have "split_first CHR 0x0A (l @ crlf @ join_lines (k # ks)) = Some (l @ [CHR 0x0D], join_lines (k # ks))"
    by (auto simp: split_first_Some plain_line_def)
  with 3 show ?case by (simp add: getlines.simps [of "l @ _"] pop_cr_line)
qed

text \<open>The text of a request as a client sends it, and the values of its headers.\<close>

definition request_lines :: "string \<Rightarrow> string \<Rightarrow> (string \<times> string) list \<Rightarrow> string list" where
  "request_lines m t hs = (m @ '' '' @ t @ '' HTTP/1.1'') # map (\<lambda>(n, v). n @ '': '' @ v) hs"

definition word_ok :: "string \<Rightarrow> bool" where
  "word_ok w \<longleftrightarrow> w \<noteq> [] \<and> list_all (\<lambda>c. \<not> is_space c) w"

definition header_ok :: "string \<times> string \<Rightarrow> bool" where
  "header_ok h \<longleftrightarrow> CHR '':'' \<notin> set (fst h) \<and> plain_line (fst h @ '': '' @ snd h) \<and>
     (snd h = [] \<or> hd (snd h) \<noteq> CHR '' '' \<and> hd (snd h) \<noteq> CHR 0x09)"

lemma next_word_plain:
  assumes "word_ok w" "is_space sp"
  shows "next_word (w @ sp # r) = (w, sp # r)"
proof -
  obtain c w' where w: "w = c # w'" "\<not> is_space c" "list_all (\<lambda>c. \<not> is_space c) w'"
    using assms(1) by (cases w) (auto simp: word_ok_def)
  then have "takeWhile (\<lambda>c. \<not> is_space c) (w' @ sp # r) = w'" "dropWhile (\<lambda>c. \<not> is_space c) (w' @ sp # r) = sp # r"
    using assms(2) by (auto simp: list_all_iff takeWhile_append dropWhile_append)
  with w show ?thesis by (simp add: next_word_def Let_def)
qed

lemma next_word_space: "is_space sp \<Longrightarrow> next_word (sp # s) = next_word s"
  by (simp add: next_word_def)

lemma request_line_plain:
  assumes "word_ok m" "word_ok t"
  shows "request_line (m @ '' '' @ t @ '' HTTP/1.1'') req =
    (case split_first CHR ''?'' t of
       None \<Rightarrow> req\<lparr>rq_method := m, rq_target := t, rq_path := t\<rparr>
     | Some (p, q) \<Rightarrow> req\<lparr>rq_method := m, rq_target := t, rq_path := p, rq_query := q\<rparr>)"
proof -
  have sp: "is_space CHR '' ''" by (simp add: is_space_def)
  have "next_word (m @ CHR '' '' # t @ CHR '' '' # ''HTTP/1.1'') = (m, CHR '' '' # t @ CHR '' '' # ''HTTP/1.1'')"
    by (rule next_word_plain [OF assms(1) sp])
  moreover have "next_word (CHR '' '' # t @ CHR '' '' # ''HTTP/1.1'') = (t, CHR '' '' # ''HTTP/1.1'')"
    unfolding next_word_space [OF sp] by (rule next_word_plain [OF assms(2) sp])
  ultimately show ?thesis by (simp add: request_line_def Let_def split: option.split)
qed

lemma header_line_plain:
  assumes "header_ok (n, v)"
  shows "header_line (n @ '': '' @ v) req = req\<lparr>rq_headers := (rq_headers req)(lower_string n \<mapsto> v)\<rparr>"
proof -
  have "dropWhile (\<lambda>c. c = CHR '' '' \<or> c = CHR 0x09) v = v"
    using assms by (cases v) (auto simp: header_ok_def)
  moreover have "pop_cr (n @ '': '' @ v) = n @ CHR '':'' # CHR '' '' # v"
    using assms pop_cr_line(1) [of "n @ '': '' @ v"] by (simp add: header_ok_def)
  moreover have "CHR '':'' \<notin> set n" using assms by (simp add: header_ok_def)
  ultimately show ?thesis by (simp add: header_line_def)
qed

lemma header_line_pop_cr: "header_line (pop_cr l) = header_line l" if "CHR 0x0D \<notin> set (pop_cr l)"
proof -
  have "pop_cr (pop_cr l) = pop_cr l" using that last_in_set by (fastforce simp: pop_cr_def)
  then show ?thesis by (simp add: header_line_def fun_eq_iff)
qed

lemma fold_header_lines:
  assumes "list_all header_ok hs" "map pop_cr ls = map (\<lambda>(n, v). n @ '': '' @ v) hs"
  shows "fold header_line ls req =
    req\<lparr>rq_headers := rq_headers req ++ map_of (rev (map (\<lambda>(n, v). (lower_string n, v)) hs))\<rparr>"
  using assms
proof (induction hs arbitrary: ls req)
  case (Cons h hs)
  obtain n v where h: "h = (n, v)" by fastforce
  obtain l ks where ls: "ls = l # ks" "pop_cr l = n @ '': '' @ v" "map pop_cr ks = map (\<lambda>(n, v). n @ '': '' @ v) hs"
    using Cons.prems(2) h by (cases ls) auto
  have ok: "header_ok (n, v)" using Cons.prems(1) h by simp
  have "header_line l req = header_line (n @ '': '' @ v) req"
    using header_line_pop_cr [of l] ok unfolding ls(2) by (simp add: header_ok_def plain_line_def)
  then have "header_line l req = req\<lparr>rq_headers := (rq_headers req)(lower_string n \<mapsto> v)\<rparr>"
    unfolding header_line_plain [OF ok] .
  with Cons.IH [OF _ ls(3)] Cons.prems(1) show ?case by (simp add: ls(1) h map_add_assoc)
qed simp

lemma request_lines_plain:
  assumes "word_ok m" "word_ok t" "list_all header_ok hs"
  shows "list_all plain_line (request_lines m t hs)"
proof -
  have "CHR 0x0D \<notin> set w" "CHR 0x0A \<notin> set w" if "word_ok w" for w
    using that by (auto simp: word_ok_def list_all_iff is_space_def)
  then show ?thesis
    using assms by (auto simp: request_lines_def plain_line_def header_ok_def list_all_iff)
qed

lemma find_sub_request:
  assumes "word_ok m" "word_ok t" "list_all header_ok hs"
  shows "find_sub crlf2 (join_lines (request_lines m t hs) @ crlf2 @ rest) = Some (join_lines (request_lines m t hs), rest)"
  by (rule find_sub_blank_line [OF _ request_lines_plain [OF assms]]) (simp add: request_lines_def)

lemma parse_head_request:
  assumes "word_ok m" "word_ok t" "list_all header_ok hs"
  shows "\<exists>req. parse_head (join_lines (request_lines m t hs)) empty_HttpRequest = Some req \<and>
    rq_method req = m \<and> rq_target req = t \<and>
    (rq_path req, rq_query req) = (case split_first CHR ''?'' t of None \<Rightarrow> (t, []) | Some pq \<Rightarrow> pq) \<and>
    (\<forall>name. header_get req name =
       (case map_of (rev (map (\<lambda>(n, v). (lower_string n, v)) hs)) (lower_string name) of None \<Rightarrow> [] | Some v \<Rightarrow> v))"
proof -
  let ?ls = "request_lines m t hs"
  obtain l ks where gl: "getlines (join_lines ?ls) = l # ks" "pop_cr l = m @ '' '' @ t @ '' HTTP/1.1''"
    "map pop_cr ks = map (\<lambda>(n, v). n @ '': '' @ v) hs"
    using getlines_join [OF request_lines_plain [OF assms]] unfolding request_lines_def
    by (cases "getlines (join_lines ?ls)") (auto simp: request_lines_def)
  have "parse_head (join_lines ?ls) empty_HttpRequest = Some (fold header_line ks (request_line (pop_cr l) empty_HttpRequest))"
    by (simp add: parse_head_def gl(1))
  then show ?thesis
    unfolding gl(2) request_line_plain [OF assms(1,2)] fold_header_lines [OF assms(3) gl(3)]
    by (cases "split_first CHR ''?'' t")
      (auto simp: header_get_def empty_HttpRequest_def simp del: split_first_None split: option.split)
qed

text \<open>A request that arrives in one segment leaves the later segments alone.\<close>

lemma read_http_request_one_segment:
  assumes "find_sub crlf2 (string_of_bytes x) = Some (head, extra)" "length x \<le> 1024"
  shows "read_http_request (x # cs) = (map_option (\<lambda>req. (req, extra)) (parse_head head empty_HttpRequest), cs)"
proof -
  have "x \<noteq> []" using assms(1) by (auto simp: crlf2_def)
  moreover have "find_sub crlf2 [] = None" by (simp add: crlf2_def)
  ultimately have "read_head [] (x # cs) = (Some (head, extra), cs)"
    using assms by (simp add: read_head.simps [of "[]"] read_head.simps [of "string_of_bytes x"])
  then show ?thesis by (simp add: read_http_request_def)
qed

text \<open>
  C28: What a client sends is what the server reads. For a request of well-formed words and
  headers, delivered in any segmentation and followed by any octets, method, target, path and
  query are recovered, every header is found under its name in any letter case (the last one of
  a name counts), and the octets after the blank line are not lost.
\<close>

theorem http_request_roundtrip:
  assumes "word_ok m" "word_ok t" "list_all header_ok hs"
    and "segments cs" "concat cs = bytes_of_string (join_lines (request_lines m t hs) @ crlf2 @ rest)"
    and "length (join_lines (request_lines m t hs)) \<le> 64509"
  shows "\<exists>req extra cs'. read_http_request cs = (Some (req, extra), cs') \<and>
    rq_method req = m \<and> rq_target req = t \<and>
    (rq_path req, rq_query req) = (case split_first CHR ''?'' t of None \<Rightarrow> (t, []) | Some pq \<Rightarrow> pq) \<and>
    (\<forall>name. header_get req name =
       (case map_of (rev (map (\<lambda>(n, v). (lower_string n, v)) hs)) (lower_string name) of None \<Rightarrow> [] | Some v \<Rightarrow> v)) \<and>
    extra @ string_of_bytes (concat cs') = rest"
proof -
  have "find_sub crlf2 (string_of_bytes (concat cs)) = Some (join_lines (request_lines m t hs), rest)"
    using find_sub_request [OF assms(1-3), of rest] by (simp only: assms(5)) simp
  then obtain extra cs' where r: "read_head [] cs = (Some (join_lines (request_lines m t hs), extra), cs')"
      "extra @ string_of_bytes (concat cs') = rest"
    using read_head_spec [OF assms(4), of "[]"] assms(6) by auto
  show ?thesis using parse_head_request [OF assms(1-3)] r by (auto simp: read_http_request_def)
qed

definition query_text :: "(string \<times> string) list \<Rightarrow> string" where
  "query_text kvs = (case kvs of [] \<Rightarrow> [] | kv # r \<Rightarrow>
     fst kv @ ''='' @ snd kv @ concat (map (\<lambda>(k, v). ''&'' @ k @ ''='' @ v) r))"

text \<open>
  Looking up a key in a query string of \<open>k=v\<close> pairs gives the value of its first pair,
  and the empty string when there is none.
\<close>

theorem query_get_first:
  assumes "list_all (\<lambda>(k, v). CHR ''='' \<notin> set k \<and> CHR ''&'' \<notin> set k \<and> CHR ''&'' \<notin> set v) kvs"
  shows "query_get (query_text kvs) key = (case map_of kvs key of None \<Rightarrow> [] | Some v \<Rightarrow> v)"
  using assms
proof (induction kvs)
  case (Cons kv kvs)
  obtain k v where kv: "kv = (k, v)" by fastforce
  have k: "CHR ''='' \<notin> set k" using Cons.prems kv by simp
  have amp: "split_first CHR ''&'' (query_text (kv # kvs)) =
      (if kvs = [] then None else Some (k @ CHR ''='' # v, query_text kvs))"
    using Cons.prems kv by (cases kvs) (auto simp: query_text_def split_first_Some)
  have ne: "query_text (kv # kvs) \<noteq> []" and one: "kvs = [] \<Longrightarrow> query_text (kv # kvs) = k @ CHR ''='' # v"
    by (simp_all add: query_text_def kv)
  have "query_get (query_text (kv # kvs)) key =
      (if k = key then v else if kvs = [] then [] else query_get (query_text kvs) key)"
    unfolding query_get.simps [of "query_text (kv # kvs)"] using ne one k by (auto simp: amp)
  with Cons show ?case by (auto simp: kv)
qed (simp add: query_text_def query_get.simps)

theorem query_get_first_witness:
  "query_get (query_text [(''v'', ''1''), (''a'', ''x=y''), (''v'', ''2'')]) ''v'' = ''1''"
  using query_get_first [of "[(''v'', ''1''), (''a'', ''x=y''), (''v'', ''2'')]" "''v''"] by simp

theorem http_request_roundtrip_witness:
  "\<exists>req extra cs'. read_http_request
      [bytes_of_string ''GET /key?v='', bytes_of_string (''88 HTTP/1.1'' @ crlf @ ''UPGRADE: tcp'' @ crlf2 @ ''zz'')] = (Some (req, extra), cs') \<and>
     rq_path req = ''/key'' \<and> rq_query req = ''v=88'' \<and> header_get req ''Upgrade'' = ''tcp'' \<and>
     extra @ string_of_bytes (concat cs') = ''zz''"
proof -
  let ?cs = "[bytes_of_string ''GET /key?v='', bytes_of_string (''88 HTTP/1.1'' @ crlf @ ''UPGRADE: tcp'' @ crlf2 @ ''zz'')]"
  let ?hs = "[(''UPGRADE'', ''tcp'')]"
  have h: "word_ok ''GET''" "word_ok ''/key?v=88''" "list_all header_ok ?hs"
    by (simp_all add: word_ok_def is_space_def header_ok_def plain_line_def)
  have s: "segments ?cs" "concat ?cs = bytes_of_string (join_lines (request_lines ''GET'' ''/key?v=88'' ?hs) @ crlf2 @ ''zz'')"
    "length (join_lines (request_lines ''GET'' ''/key?v=88'' ?hs)) \<le> 64509"
    by (simp_all add: segments_def request_lines_def)
  have low: "map_of (rev (map (\<lambda>(n, v). (lower_string n, v)) ?hs)) (lower_string ''Upgrade'') = Some ''tcp''"
    by code_simp
  obtain req extra cs' where r: "read_http_request ?cs = (Some (req, extra), cs')" "extra @ string_of_bytes (concat cs') = ''zz''"
    "(rq_path req, rq_query req) = (case split_first CHR ''?'' ''/key?v=88'' of None \<Rightarrow> (''/key?v=88'', []) | Some pq \<Rightarrow> pq)"
    "header_get req ''Upgrade'' = (case map_of (rev (map (\<lambda>(n, v). (lower_string n, v)) ?hs)) (lower_string ''Upgrade'') of None \<Rightarrow> [] | Some v \<Rightarrow> v)"
    using http_request_roundtrip [OF h s] by blast
  have "rq_path req = ''/key''" "rq_query req = ''v=88''" using r(3) by simp_all
  with r(1,2) r(4) [unfolded low option.case] show ?thesis by blast
qed

end
