(* ===== verification/Http2.thy ===== *)
theory Http2
  imports Noise
begin

text \<open>
  Model of \<^verbatim>\<open>src/src/http2_session.cpp\<close>. The nghttp2 library is not modelled: what it does
  with the received octets shows only in the callbacks it makes, so a round of the serving loop
  takes the list of those callbacks as an input. The callbacks themselves, the stream table, the
  response queue of every stream and the loop are defined here. What the code asks of the
  library is recorded in \<open>h2_calls\<close>.
\<close>

section \<open>Streams\<close>

record Stream =
  s_id :: int
  s_method :: string
  s_path :: string
  s_body :: string
  s_out :: bytes
  s_out_off :: nat
  s_streaming :: bool
  s_ended :: bool

definition new_Stream :: "int \<Rightarrow> Stream" where
  "new_Stream i = \<lparr>s_id = i, s_method = [], s_path = [], s_body = [], s_out = [], s_out_off = 0,
     s_streaming = False, s_ended = False\<rparr>"

datatype h2_call = Submit_response int string string | Resume_data int

record H2 =
  h2_streams :: "int \<rightharpoonup> Stream"
  h2_status_buf :: "int \<rightharpoonup> string"
  h2_ctype_buf :: "int \<rightharpoonup> string"
  h2_calls :: "h2_call list"
  h2_alive :: bool

definition new_H2 :: H2 where
  "new_H2 = \<lparr>h2_streams = Map.empty, h2_status_buf = Map.empty, h2_ctype_buf = Map.empty, h2_calls = [],
     h2_alive = True\<rparr>"

definition NGHTTP2_DATA :: nat where "NGHTTP2_DATA = 0"
definition NGHTTP2_HEADERS :: nat where "NGHTTP2_HEADERS = 1"
definition NGHTTP2_HCAT_REQUEST :: nat where "NGHTTP2_HCAT_REQUEST = 0"
definition NGHTTP2_FLAG_END_STREAM :: u8 where "NGHTTP2_FLAG_END_STREAM = 1"
definition NGHTTP2_ERR_WOULDBLOCK :: int where "NGHTTP2_ERR_WOULDBLOCK = -504"
definition NGHTTP2_ERR_CALLBACK_FAILURE :: int where "NGHTTP2_ERR_CALLBACK_FAILURE = -902"

section \<open>Callbacks\<close>

definition send_cb :: "openssl \<Rightarrow> bytes \<Rightarrow> NoiseConn \<times> sock \<Rightarrow> int res \<times> NoiseConn \<times> sock" where
  "send_cb L data cs =
     (case noise_write L data (fst cs) (sk_send (snd cs)) (sk_out (snd cs)) of
        (r, c', ws, out) \<Rightarrow>
          (res_bind r (\<lambda>n. Inr (if n < 0 then NGHTTP2_ERR_CALLBACK_FAILURE
                                else if n = 0 then NGHTTP2_ERR_WOULDBLOCK else n)),
           c', (snd cs)\<lparr>sk_send := ws, sk_out := out\<rparr>))"

text \<open>
  The user data of a stream is its entry of \<^verbatim>\<open>streams_\<close>: it is set when the request
  begins and the library forgets it when the stream closes.
\<close>

definition on_begin_headers :: "nat \<Rightarrow> nat \<Rightarrow> int \<Rightarrow> H2 \<Rightarrow> H2" where
  "on_begin_headers type cat sid h =
     (if type \<noteq> NGHTTP2_HEADERS \<or> cat \<noteq> NGHTTP2_HCAT_REQUEST then h
      else h\<lparr>h2_streams := (h2_streams h)(sid \<mapsto> new_Stream sid)\<rparr>)"

definition on_header :: "nat \<Rightarrow> int \<Rightarrow> string \<Rightarrow> string \<Rightarrow> H2 \<Rightarrow> H2" where
  "on_header type sid n v h =
     (if type \<noteq> NGHTTP2_HEADERS then h
      else case h2_streams h sid of
             None \<Rightarrow> h
           | Some st \<Rightarrow>
               if n = '':method'' then h\<lparr>h2_streams := (h2_streams h)(sid \<mapsto> st\<lparr>s_method := v\<rparr>)\<rparr>
               else if n = '':path'' then h\<lparr>h2_streams := (h2_streams h)(sid \<mapsto> st\<lparr>s_path := v\<rparr>)\<rparr>
               else h)"

definition on_data :: "int \<Rightarrow> bytes \<Rightarrow> H2 \<Rightarrow> H2" where
  "on_data sid data h =
     (case h2_streams h sid of
        None \<Rightarrow> h
      | Some st \<Rightarrow> h\<lparr>h2_streams := (h2_streams h)(sid \<mapsto> st\<lparr>s_body := s_body st @ string_of_bytes data\<rparr>)\<rparr>)"

text \<open>The request handed to the handler, if this frame completes one.\<close>

definition on_frame :: "nat \<Rightarrow> u8 \<Rightarrow> int \<Rightarrow> H2 \<Rightarrow> (int \<times> string \<times> string \<times> string) option" where
  "on_frame type flags sid h =
     (if (type \<noteq> NGHTTP2_HEADERS \<and> type \<noteq> NGHTTP2_DATA) \<or> flags AND NGHTTP2_FLAG_END_STREAM = 0 then None
      else map_option (\<lambda>st. (s_id st, s_method st, s_path st, s_body st)) (h2_streams h sid))"

definition on_close :: "int \<Rightarrow> H2 \<Rightarrow> H2" where
  "on_close sid h = h\<lparr>h2_streams := (h2_streams h)(sid := None)\<rparr>"

datatype read_result = Octets bytes bool | Deferred

text \<open>\<open>Octets d eof\<close>: \<open>d\<close> was copied and the EOF flag is \<open>eof\<close>.\<close>

definition data_read :: "nat \<Rightarrow> Stream \<Rightarrow> read_result \<times> Stream" where
  "data_read len st =
     (if length (s_out st) \<le> s_out_off st then
        if s_ended st \<and> \<not> s_streaming st then (Octets [] True, st)
        else if s_streaming st \<and> \<not> s_ended st then (Deferred, st)
        else (Octets [] True, st)
      else
        let n = min len (length (s_out st) - s_out_off st);
            d = take n (drop (s_out_off st) (s_out st));
            st1 = st\<lparr>s_out_off := s_out_off st + n\<rparr>
        in if length (s_out st1) \<le> s_out_off st1
           then (Octets d (\<not> s_streaming st \<or> s_ended st), st1\<lparr>s_out := [], s_out_off := 0\<rparr>)
           else (Octets d False, st1))"

section \<open>Responses\<close>

definition submit_response :: "int \<Rightarrow> int \<Rightarrow> string \<Rightarrow> bool \<Rightarrow> H2 \<Rightarrow> H2" where
  "submit_response sid status ctype streaming h =
     (case h2_streams h sid of
        None \<Rightarrow> h
      | Some st \<Rightarrow>
          let s = (if status < 0 then ''-'' else []) @ to_string (nat \<bar>status\<bar>)
          in h\<lparr>h2_streams := (h2_streams h)(sid \<mapsto> st\<lparr>s_streaming := streaming\<rparr>),
               h2_status_buf := (h2_status_buf h)(sid \<mapsto> s),
               h2_ctype_buf := (h2_ctype_buf h)(sid \<mapsto> ctype),
               h2_calls := h2_calls h @ [Submit_response sid s ctype]\<rparr>)"

definition reply :: "int \<Rightarrow> int \<Rightarrow> string \<Rightarrow> bytes \<Rightarrow> H2 \<Rightarrow> H2" where
  "reply sid status content_type body h =
     (case h2_streams h sid of
        None \<Rightarrow> h
      | Some st \<Rightarrow>
          submit_response sid status content_type False
            (h\<lparr>h2_streams := (h2_streams h)(sid \<mapsto> st\<lparr>s_out := body, s_out_off := 0, s_ended := True, s_streaming := False\<rparr>)\<rparr>))"

definition reply_stream_start :: "int \<Rightarrow> int \<Rightarrow> bytes \<Rightarrow> H2 \<Rightarrow> H2" where
  "reply_stream_start sid status first h =
     (case h2_streams h sid of
        None \<Rightarrow> h
      | Some st \<Rightarrow>
          submit_response sid status ''application/json'' True
            (h\<lparr>h2_streams := (h2_streams h)(sid \<mapsto> st\<lparr>s_out := first, s_out_off := 0, s_streaming := True, s_ended := False\<rparr>)\<rparr>))"

definition push_data :: "int \<Rightarrow> bytes \<Rightarrow> H2 \<Rightarrow> H2" where
  "push_data sid data h =
     (case h2_streams h sid of
        None \<Rightarrow> h
      | Some st \<Rightarrow>
          h\<lparr>h2_streams := (h2_streams h)(sid \<mapsto> st\<lparr>s_out := s_out st @ data\<rparr>),
            h2_calls := h2_calls h @ [Resume_data sid]\<rparr>)"

definition end_stream :: "int \<Rightarrow> H2 \<Rightarrow> H2" where
  "end_stream sid h =
     (case h2_streams h sid of
        None \<Rightarrow> h
      | Some st \<Rightarrow>
          h\<lparr>h2_streams := (h2_streams h)(sid \<mapsto> st\<lparr>s_ended := True, s_streaming := False\<rparr>),
            h2_calls := h2_calls h @ [Resume_data sid]\<rparr>)"

section \<open>The serving loop\<close>

datatype h2_callback =
    Begin_headers nat nat int
  | Header nat int string string
  | Data_chunk int bytes
  | Frame_recv nat u8 int
  | Stream_close int
  | Data_source_read int nat
  | Send_out bytes

text \<open>
  The request handler works on the session and on the state \<open>'w\<close> of its owner. An exception of
  the handler, or of sealing a record, leaves the loop. Reading from the source of a stream that
  is gone would follow a dangling pointer.
\<close>

type_synonym 'w handler = "int \<Rightarrow> string \<Rightarrow> string \<Rightarrow> string \<Rightarrow> H2 \<times> 'w \<Rightarrow> unit res \<times> H2 \<times> 'w"
type_synonym 'w h2_state = "H2 \<times> (NoiseConn \<times> sock) \<times> 'w"

definition h2_callback_step :: "openssl \<Rightarrow> 'w handler \<Rightarrow> h2_callback \<Rightarrow> 'w h2_state \<Rightarrow> unit res \<times> 'w h2_state" where
  "h2_callback_step L on_request cb s =
     (case s of (h, c, w) \<Rightarrow>
        case cb of
          Begin_headers type cat sid \<Rightarrow> (Inr (), on_begin_headers type cat sid h, c, w)
        | Header type sid n v \<Rightarrow> (Inr (), on_header type sid n v h, c, w)
        | Data_chunk sid d \<Rightarrow> (Inr (), on_data sid d h, c, w)
        | Frame_recv type flags sid \<Rightarrow>
            (case on_frame type flags sid h of
               None \<Rightarrow> (Inr (), h, c, w)
             | Some (i, m, p, b) \<Rightarrow> (case on_request i m p b (h, w) of (r, h', w') \<Rightarrow> (r, h', c, w')))
        | Stream_close sid \<Rightarrow> (Inr (), on_close sid h, c, w)
        | Data_source_read sid len \<Rightarrow>
            (case h2_streams h sid of
               None \<Rightarrow> (Inl Undefined_behaviour, h, c, w)
             | Some st \<Rightarrow> (Inr (), h\<lparr>h2_streams := (h2_streams h)(sid \<mapsto> snd (data_read len st))\<rparr>, c, w))
        | Send_out d \<Rightarrow> (case send_cb L d c of (r, c') \<Rightarrow> (res_bind r (\<lambda>_. Inr ()), h, c', w)))"

fun h2_callbacks :: "openssl \<Rightarrow> 'w handler \<Rightarrow> h2_callback list \<Rightarrow> 'w h2_state \<Rightarrow> unit res \<times> 'w h2_state" where
  "h2_callbacks L f [] s = (Inr (), s)"
| "h2_callbacks L f (cb # cbs) s =
     (case h2_callback_step L f cb s of
        (Inl e, s') \<Rightarrow> (Inl e, s')
      | (Inr _, s') \<Rightarrow> h2_callbacks L f cbs s')"

text \<open>
  One round of \<^verbatim>\<open>run\<close>: the outcome of \<^verbatim>\<open>poll\<close> and what the library did and answered.
\<close>

record h2_round =
  hr_poll :: int
  hr_error :: bool
  hr_readable :: bool
  hr_recv :: "bytes \<Rightarrow> h2_callback list \<times> int"
  hr_want_write1 :: bool
  hr_send1 :: "h2_callback list \<times> int"
  hr_want_write2 :: bool
  hr_send2 :: "h2_callback list \<times> int"
  hr_done :: bool

text \<open>Whether the loop goes on; \<open>Inl\<close> is an exception.\<close>

definition h2_receive :: "openssl \<Rightarrow> 'w handler \<Rightarrow> h2_round \<Rightarrow> 'w h2_state \<Rightarrow> bool res \<times> 'w h2_state" where
  "h2_receive L f R s =
     (if \<not> hr_readable R then (Inr True, s)
      else case s of (h, (c, k), w) \<Rightarrow>
        (case noise_read L 8192 c (sk_in k) of (d, c', cs) \<Rightarrow>
           let s1 = (h, (c', k\<lparr>sk_in := cs\<rparr>), w) in
           if d = [] then (Inr False, s1)
           else case h2_callbacks L f (fst (hr_recv R d)) s1 of
                  (Inl e, s2) \<Rightarrow> (Inl e, s2)
                | (Inr _, s2) \<Rightarrow> (Inr (0 \<le> snd (hr_recv R d)), s2)))"

definition h2_flush :: "openssl \<Rightarrow> 'w handler \<Rightarrow> bool \<Rightarrow> h2_callback list \<times> int \<Rightarrow> 'w h2_state \<Rightarrow> bool res \<times> 'w h2_state" where
  "h2_flush L f want snd_out s =
     (if \<not> want then (Inr True, s)
      else case h2_callbacks L f (fst snd_out) s of
             (Inl e, s') \<Rightarrow> (Inl e, s')
           | (Inr _, s') \<Rightarrow> (Inr (snd snd_out = 0), s'))"

definition and_then :: "bool res \<times> 's \<Rightarrow> ('s \<Rightarrow> bool res \<times> 's) \<Rightarrow> bool res \<times> 's" where
  "and_then m f = (case m of (Inr True, s) \<Rightarrow> f s | (Inr False, s) \<Rightarrow> (Inr False, s) | (Inl e, s) \<Rightarrow> (Inl e, s))"

definition h2_round_step ::
  "openssl \<Rightarrow> 'w handler \<Rightarrow> (H2 \<times> 'w \<Rightarrow> unit res \<times> H2 \<times> 'w) \<Rightarrow> h2_round \<Rightarrow> 'w h2_state \<Rightarrow> bool res \<times> 'w h2_state" where
  "h2_round_step L f on_tick R s =
     (if hr_poll R < 0 \<or> hr_error R then (Inr False, s)
      else and_then (h2_receive L f R s) (\<lambda>s1.
           and_then (h2_flush L f (hr_want_write1 R) (hr_send1 R) s1) (\<lambda>s2.
             case s2 of (h, c, w) \<Rightarrow>
               case on_tick (h, w) of
                 (Inl e, h', w') \<Rightarrow> (Inl e, h', c, w')
               | (Inr _, h', w') \<Rightarrow>
                   and_then (h2_flush L f (hr_want_write2 R) (hr_send2 R) (h', c, w'))
                     (\<lambda>s3. (Inr (\<not> hr_done R), s3)))))"

text \<open>
  The rounds until the loop is left; \<open>Inr True\<close> means that it is still running. The request
  handler and the tick read clocks and shared state, so every round comes with its own.
\<close>

fun h2_run ::
  "openssl \<Rightarrow> ('w handler \<times> (H2 \<times> 'w \<Rightarrow> unit res \<times> H2 \<times> 'w) \<times> h2_round) list \<Rightarrow> 'w h2_state \<Rightarrow> bool res \<times> 'w h2_state" where
  "h2_run L [] s = (Inr True, s)"
| "h2_run L ((f, t, R) # Rs) s =
     (case h2_round_step L f t R s of
        (Inr True, s') \<Rightarrow> h2_run L Rs s'
      | (Inr False, (h, c, w)) \<Rightarrow> (Inr False, (h\<lparr>h2_alive := False\<rparr>, c, w))
      | (Inl e, s') \<Rightarrow> (Inl e, s'))"

text \<open>
  The constructor of the session: it registers the callbacks and flushes the first settings frame;
  \<open>hello\<close> are the callbacks of that flush, whose result the code ignores. No request handler is
  installed yet.
\<close>

definition new_session :: "openssl \<Rightarrow> h2_callback list \<Rightarrow> NoiseConn \<times> sock \<Rightarrow> 'w \<Rightarrow> unit res \<times> 'w h2_state" where
  "new_session L hello c w = h2_callbacks L (\<lambda>sid method path body s. (Inr (), s)) hello (new_H2, c, w)"

section \<open>Response queues\<close>

text \<open>
  What a producer and a consumer of a stream's octets need of its queue: pushing appends, pulling
  takes from the front, and a pull that asks for something gets something when there is any.
\<close>

datatype 'a queue_op = Push "'a list" | Pull nat

fun run_queue ::
  "('a list \<Rightarrow> 's \<Rightarrow> 's) \<Rightarrow> (nat \<Rightarrow> 's \<Rightarrow> 'a list \<times> 's) \<Rightarrow> 'a queue_op list \<Rightarrow> 's \<Rightarrow> 'a list \<times> 's" where
  "run_queue push pull [] s = ([], s)"
| "run_queue push pull (Push d # os) s = run_queue push pull os (push d s)"
| "run_queue push pull (Pull n # os) s =
     (case pull n s of (d, s1) \<Rightarrow> case run_queue push pull os s1 of (ds, s2) \<Rightarrow> (d @ ds, s2))"

fun pushed :: "'a queue_op list \<Rightarrow> 'a list" where
  "pushed [] = []"
| "pushed (Push d # os) = d @ pushed os"
| "pushed (Pull n # os) = pushed os"

lemma pushed_pulls [simp]: "pushed (map Pull ns) = []"
  by (induction ns) auto

locale out_queue =
  fixes ok :: "'s \<Rightarrow> bool"
    and pending :: "'s \<Rightarrow> 'a list"
    and push :: "'a list \<Rightarrow> 's \<Rightarrow> 's"
    and pull :: "nat \<Rightarrow> 's \<Rightarrow> 'a list \<times> 's"
  assumes push_ok: "ok s \<Longrightarrow> ok (push d s) \<and> pending (push d s) = pending s @ d"
    and pull_ok: "ok s \<Longrightarrow> pull n s = (d, s') \<Longrightarrow> ok s' \<and> pending s = d @ pending s'"
    and pull_progress: "ok s \<Longrightarrow> pull n s = (d, s') \<Longrightarrow> 0 < n \<Longrightarrow> pending s \<noteq> [] \<Longrightarrow> d \<noteq> []"
begin

text \<open>Nothing is lost, duplicated or reordered.\<close>

lemma conservation:
  "ok s \<Longrightarrow> run_queue push pull os s = (ds, s') \<Longrightarrow> ok s' \<and> pending s @ pushed os = ds @ pending s'"
proof (induction os arbitrary: s ds s')
  case (Cons op os)
  show ?case
  proof (cases op)
    case (Push d)
    then show ?thesis using Cons push_ok [of s d] by fastforce
  next
    case (Pull n)
    obtain d s1 where p: "pull n s = (d, s1)" by fastforce
    obtain ds2 s2 where r: "run_queue push pull os s1 = (ds2, s2)" by fastforce
    then show ?thesis using Cons.prems Cons.IH [OF _ r] Pull p pull_ok [OF Cons.prems(1) p] by auto
  qed
qed auto

text \<open>Enough pulls empty the queue.\<close>

lemma drain:
  "ok s \<Longrightarrow> list_all (\<lambda>n. 0 < n) ns \<Longrightarrow> length (pending s) \<le> length ns \<Longrightarrow>
   fst (run_queue push pull (map Pull ns) s) = pending s"
proof (induction ns arbitrary: s)
  case (Cons n ns)
  obtain d s1 where p: "pull n s = (d, s1)" by fastforce
  obtain ds2 s2 where r: "run_queue push pull (map Pull ns) s1 = (ds2, s2)" by fastforce
  have s1: "ok s1" "pending s = d @ pending s1" using pull_ok [OF Cons.prems(1) p] by auto
  have "length (pending s1) \<le> length ns"
    using s1(2) Cons.prems pull_progress [OF Cons.prems(1) p] by (cases "pending s = []"; cases d) auto
  then show ?case using Cons.IH [OF s1(1)] Cons.prems(2) s1(2) p r by simp
qed simp

end

definition stream_ok :: "Stream \<Rightarrow> bool" where
  "stream_ok st \<longleftrightarrow> s_out_off st \<le> length (s_out st)"

definition stream_pending :: "Stream \<Rightarrow> bytes" where
  "stream_pending st = drop (s_out_off st) (s_out st)"

definition stream_push :: "bytes \<Rightarrow> Stream \<Rightarrow> Stream" where
  "stream_push d st = st\<lparr>s_out := s_out st @ d\<rparr>"

fun octets_of :: "read_result \<Rightarrow> bytes" where
  "octets_of (Octets d _) = d"
| "octets_of Deferred = []"

definition stream_pull :: "nat \<Rightarrow> Stream \<Rightarrow> bytes \<times> Stream" where
  "stream_pull n st = (case data_read n st of (r, st') \<Rightarrow> (octets_of r, st'))"

lemmas stream_defs = stream_ok_def stream_pending_def stream_push_def stream_pull_def data_read_def

interpretation sq: out_queue stream_ok stream_pending stream_push stream_pull
proof (unfold_locales, goal_cases)
  case (1 s d)
  then show ?case by (simp add: stream_defs)
next
  case (2 s n d s')
  then show ?case
    by (auto simp: stream_defs Let_def split: if_splits) (metis append_take_drop_id drop_drop add.commute)+
next
  case (3 s n d s')
  then show ?case by (auto simp: stream_defs Let_def split: if_splits)
qed

section \<open>What the client of a stream receives\<close>

text \<open>Pushes and reads of one stream, as the owner and the library make them.\<close>

fun stream_ops :: "int \<Rightarrow> u8 queue_op list \<Rightarrow> H2 \<Rightarrow> read_result list \<times> H2" where
  "stream_ops sid [] h = ([], h)"
| "stream_ops sid (Push d # os) h = stream_ops sid os (push_data sid d h)"
| "stream_ops sid (Pull n # os) h =
     (case h2_streams h sid of
        None \<Rightarrow> stream_ops sid os h
      | Some st \<Rightarrow>
          (case data_read n st of (r, st') \<Rightarrow>
             case stream_ops sid os (h\<lparr>h2_streams := (h2_streams h)(sid \<mapsto> st')\<rparr>) of (rs, h') \<Rightarrow> (r # rs, h')))"

fun is_eof :: "read_result \<Rightarrow> bool" where
  "is_eof (Octets _ e) = e"
| "is_eof Deferred = False"

lemma data_read_flags:
  "data_read n st = (r, st') \<Longrightarrow> s_streaming st' = s_streaming st \<and> s_ended st' = s_ended st"
  by (auto simp: data_read_def Let_def split: if_splits)

lemma data_read_streaming:
  "data_read n st = (r, st') \<Longrightarrow> s_streaming st \<Longrightarrow> \<not> s_ended st \<Longrightarrow>
   \<not> is_eof r \<and> (r = Deferred \<longrightarrow> stream_pending st = [])"
  by (auto simp: data_read_def stream_pending_def Let_def split: if_splits)

lemma data_read_ended:
  "data_read n st = (r, st') \<Longrightarrow> \<not> s_streaming st \<Longrightarrow> stream_ok st \<Longrightarrow>
   r \<noteq> Deferred \<and> (is_eof r \<longleftrightarrow> stream_pending st' = [])"
  by (auto simp: data_read_def stream_pending_def stream_ok_def Let_def split: if_splits)

lemma stream_ops_queue:
  assumes "h2_streams h sid = Some st" "stream_ops sid os h = (rs, h')"
  shows "\<exists>st'. h2_streams h' sid = Some st' \<and>
    run_queue stream_push stream_pull os st = (concat (map octets_of rs), st') \<and>
    (\<forall>k. k \<noteq> sid \<longrightarrow> h2_streams h' k = h2_streams h k) \<and>
    (s_streaming st \<and> \<not> s_ended st \<longrightarrow> list_all (\<lambda>r. \<not> is_eof r) rs)"
  using assms
proof (induction os arbitrary: h st rs)
  case (Cons op os)
  show ?case
  proof (cases op)
    case (Push d)
    have "h2_streams (push_data sid d h) sid = Some (stream_push d st)"
      "\<And>k. k \<noteq> sid \<Longrightarrow> h2_streams (push_data sid d h) k = h2_streams h k"
      using Cons.prems(1) by (simp_all add: push_data_def stream_push_def)
    with Cons.IH [of "push_data sid d h" "stream_push d st" rs] Cons.prems(2) Push show ?thesis
      by (auto simp: stream_push_def)
  next
    case (Pull n)
    obtain r st1 where r: "data_read n st = (r, st1)" by fastforce
    let ?h = "h\<lparr>h2_streams := (h2_streams h)(sid \<mapsto> st1)\<rparr>"
    obtain rs1 h1 where 1: "stream_ops sid os ?h = (rs1, h1)" by fastforce
    have res: "rs = r # rs1" "h' = h1" using Cons.prems Pull r 1 by auto
    obtain st' where "h2_streams h1 sid = Some st'"
      "run_queue stream_push stream_pull os st1 = (concat (map octets_of rs1), st')"
      "\<forall>k. k \<noteq> sid \<longrightarrow> h2_streams h1 k = h2_streams ?h k"
      "s_streaming st1 \<and> \<not> s_ended st1 \<longrightarrow> list_all (\<lambda>r. \<not> is_eof r) rs1"
      using Cons.IH [of ?h st1 rs1] 1 res(2) by auto
    moreover have "stream_pull n st = (octets_of r, st1)" using r by (simp add: stream_pull_def)
    ultimately show ?thesis
      using res Pull r data_read_flags [OF r] data_read_streaming [OF r] by auto
  qed
qed auto

text \<open>
  C18: A long poll delivers its map responses as one octet stream. After
  \<^verbatim>\<open>reply_stream_start\<close>, under any interleaving of pushes by the coordinator and reads by the
  HTTP/2 library, what was read followed by what is still queued is the first frame followed by
  the pushed ones, no read reports end of file, and no other stream is touched.
\<close>

theorem long_poll_delivery:
  assumes "h2_streams h sid = Some st"
    and "stream_ops sid os (reply_stream_start sid status first h) = (rs, h')"
  shows "\<exists>st'. h2_streams h' sid = Some st' \<and>
    first @ pushed os = concat (map octets_of rs) @ stream_pending st' \<and>
    list_all (\<lambda>r. \<not> is_eof r) rs \<and> (\<forall>k. k \<noteq> sid \<longrightarrow> h2_streams h' k = h2_streams h k)"
proof -
  let ?h = "reply_stream_start sid status first h"
  let ?st = "st\<lparr>s_out := first, s_out_off := 0, s_streaming := True, s_ended := False\<rparr>"
  have st: "h2_streams ?h sid = Some ?st" and others: "\<And>k. k \<noteq> sid \<Longrightarrow> h2_streams ?h k = h2_streams h k"
    using assms(1) by (simp_all add: reply_stream_start_def submit_response_def Let_def)
  obtain st' where s': "h2_streams h' sid = Some st'"
    "run_queue stream_push stream_pull os ?st = (concat (map octets_of rs), st')"
    "\<forall>k. k \<noteq> sid \<longrightarrow> h2_streams h' k = h2_streams ?h k" "list_all (\<lambda>r. \<not> is_eof r) rs"
    using stream_ops_queue [OF st assms(2)] by auto
  have "stream_ok ?st" "stream_pending ?st = first" by (simp_all add: stream_ok_def stream_pending_def)
  then show ?thesis using s' others sq.conservation [OF _ s'(2)] by simp
qed

lemma stream_reads_eof:
  assumes "h2_streams h sid = Some st" "stream_ops sid (map Pull ns) h = (rs, h')"
    and "\<not> s_streaming st" "stream_ok st" "ns \<noteq> []"
  shows "\<exists>st'. h2_streams h' sid = Some st' \<and> rs \<noteq> [] \<and> (is_eof (last rs) \<longleftrightarrow> stream_pending st' = [])"
  using assms
proof (induction ns arbitrary: h st rs)
  case (Cons n ns)
  obtain r st1 where r: "data_read n st = (r, st1)" by fastforce
  let ?h = "h\<lparr>h2_streams := (h2_streams h)(sid \<mapsto> st1)\<rparr>"
  obtain rs1 h1 where 1: "stream_ops sid (map Pull ns) ?h = (rs1, h1)" by fastforce
  have res: "rs = r # rs1" "h' = h1" using Cons.prems r 1 by auto
  have st1: "\<not> s_streaming st1" "stream_ok st1"
    using data_read_flags [OF r] sq.pull_ok [of st n "octets_of r" st1] r Cons.prems(3,4)
    by (simp_all add: stream_pull_def)
  show ?case
  proof (cases "ns = []")
    case True
    with res 1 data_read_ended [OF r Cons.prems(3,4)] show ?thesis by auto
  next
    case False
    with Cons.IH [of ?h st1 rs1] 1 st1 res show ?thesis by auto
  qed
qed simp

text \<open>
  C19: A plain reply is delivered completely and ends exactly once: reads get the body in order,
  as many reads as octets are enough, and a read reports end of file if and only if the body is
  complete with it.
\<close>

theorem reply_delivery:
  assumes "h2_streams h sid = Some st" "list_all (\<lambda>n. 0 < n) ns" "ns \<noteq> []"
    and "stream_ops sid (map Pull ns) (reply sid status ctype body h) = (rs, h')"
  shows "\<exists>rest. body = concat (map octets_of rs) @ rest \<and> (length body \<le> length ns \<longrightarrow> rest = []) \<and>
    (is_eof (last rs) \<longleftrightarrow> rest = [])"
proof -
  let ?h = "reply sid status ctype body h"
  let ?st = "st\<lparr>s_out := body, s_out_off := 0, s_ended := True, s_streaming := False\<rparr>"
  have st: "h2_streams ?h sid = Some ?st"
    using assms(1) by (simp add: reply_def submit_response_def Let_def)
  have ok: "stream_ok ?st" "stream_pending ?st = body" by (simp_all add: stream_ok_def stream_pending_def)
  obtain st' where s': "h2_streams h' sid = Some st'"
    "run_queue stream_push stream_pull (map Pull ns) ?st = (concat (map octets_of rs), st')"
    using stream_ops_queue [OF st assms(4)] by blast
  have "body = concat (map octets_of rs) @ stream_pending st'"
    using sq.conservation [OF ok(1) s'(2)] ok(2) by simp
  moreover have "length body \<le> length ns \<longrightarrow> concat (map octets_of rs) = body"
    using sq.drain [OF ok(1) assms(2)] s'(2) ok(2) by simp
  moreover have "is_eof (last rs) \<longleftrightarrow> stream_pending st' = []"
    using stream_reads_eof [OF st assms(4) _ ok(1) assms(3)] s'(1) by auto
  ultimately show ?thesis by (intro exI [of _ "stream_pending st'"]) auto
qed

section \<open>Assembling requests\<close>

text \<open>
  The part of a session that requests are made of: for every open stream the identifier, method,
  path and body collected so far. Answering a request and pushing data leave it alone.
\<close>

type_synonym request = "int \<times> string \<times> string \<times> string"

definition request_of :: "Stream \<Rightarrow> request" where
  "request_of st = (s_id st, s_method st, s_path st, s_body st)"

definition requests :: "H2 \<Rightarrow> int \<rightharpoonup> request" where
  "requests h sid = map_option request_of (h2_streams h sid)"

text \<open>What a callback contributes to the requests, whatever session state it meets.\<close>

fun request_step :: "h2_callback \<Rightarrow> (int \<rightharpoonup> request) \<Rightarrow> int \<rightharpoonup> request" where
  "request_step (Begin_headers type cat sid) R =
     (if type = NGHTTP2_HEADERS \<and> cat = NGHTTP2_HCAT_REQUEST then R(sid \<mapsto> (sid, [], [], [])) else R)"
| "request_step (Header type sid n v) R =
     (if type = NGHTTP2_HEADERS
      then R(sid := map_option (\<lambda>(i, m, p, b). (i, if n = '':method'' then v else m, if n = '':path'' then v else p, b)) (R sid))
      else R)"
| "request_step (Data_chunk sid d) R = R(sid := map_option (\<lambda>(i, m, p, b). (i, m, p, b @ string_of_bytes d)) (R sid))"
| "request_step (Stream_close sid) R = R(sid := None)"
| "request_step _ R = R"

lemma requests_keep:
  "h2_streams h sid = Some st \<Longrightarrow> request_of st' = request_of st \<Longrightarrow>
   requests (h\<lparr>h2_streams := (h2_streams h)(sid \<mapsto> st')\<rparr>) = requests h"
  by (auto simp: requests_def)

lemma requests_answers [simp]:
  "requests (submit_response sid status ctype streaming h) = requests h"
  "requests (reply sid status ct body h) = requests h"
  "requests (reply_stream_start sid status first h) = requests h"
  "requests (push_data sid d h) = requests h"
  "requests (end_stream sid h) = requests h"
  by (auto simp: submit_response_def reply_def reply_stream_start_def push_data_def end_stream_def requests_def
      request_of_def Let_def fun_eq_iff split: option.split)

lemma data_read_request: "request_of (snd (data_read n st)) = request_of st"
  by (simp add: data_read_def request_of_def Let_def)

text \<open>
  What the session asks of its owner: neither the request handler nor the tick changes a request
  that is being received.
\<close>

locale h2_owner =
  fixes on_request :: "'w handler"
    and on_tick :: "H2 \<times> 'w \<Rightarrow> unit res \<times> H2 \<times> 'w"
  assumes request_keeps: "on_request i m p b (h, w) = (r, h', w') \<Longrightarrow> requests h' = requests h"
    and tick_keeps: "on_tick (h, w) = (r, h', w') \<Longrightarrow> requests h' = requests h"
begin

lemma callback_requests:
  assumes "h2_callback_step L on_request cb (h, c, w) = (Inr (), h', c', w')"
  shows "requests h' = request_step cb (requests h)"
proof (cases cb)
  case (Begin_headers type cat sid)
  with assms show ?thesis
    by (auto simp: h2_callback_step_def on_begin_headers_def requests_def request_of_def new_Stream_def fun_eq_iff)
next
  case (Header type sid n v)
  with assms show ?thesis
    by (auto simp: h2_callback_step_def on_header_def requests_def request_of_def fun_eq_iff split: option.splits)
next
  case (Data_chunk sid d)
  with assms show ?thesis
    by (auto simp: h2_callback_step_def on_data_def requests_def request_of_def fun_eq_iff split: option.splits)
next
  case (Frame_recv type flags sid)
  with assms show ?thesis
    by (auto simp: h2_callback_step_def dest: request_keeps split: option.splits prod.splits)
next
  case (Stream_close sid)
  with assms show ?thesis by (auto simp: h2_callback_step_def on_close_def requests_def fun_eq_iff)
next
  case (Data_source_read sid len)
  with assms show ?thesis
    by (auto simp: h2_callback_step_def requests_keep data_read_request split: option.splits)
next
  case (Send_out d)
  with assms show ?thesis by (auto simp: h2_callback_step_def split: prod.splits)
qed

lemma callbacks_requests:
  assumes "h2_callbacks L on_request cbs (h, c, w) = (Inr (), h', c', w')"
  shows "requests h' = fold request_step cbs (requests h)"
  using assms
proof (induction cbs arbitrary: h c w)
  case (Cons cb cbs)
  obtain r h1 c1 w1 where 1: "h2_callback_step L on_request cb (h, c, w) = (r, h1, c1, w1)" by (metis prod_cases4)
  then have "r = Inr ()" using Cons.prems by (auto split: sum.splits)
  with Cons 1 callback_requests [of L cb h c w h1 c1 w1] show ?case by simp
qed simp

lemma flush_requests:
  assumes "h2_flush L on_request want so (h, c, w) = (Inr b, h', c', w')"
  shows "requests h' = fold request_step (if want then fst so else []) (requests h)"
  using assms by (auto simp: h2_flush_def dest: callbacks_requests split: if_splits prod.splits sum.splits)

end

text \<open>The callbacks that the library makes in a round, and in a sequence of rounds.\<close>

definition round_callbacks :: "openssl \<Rightarrow> h2_round \<Rightarrow> NoiseConn \<times> sock \<Rightarrow> h2_callback list" where
  "round_callbacks L R c =
     (if hr_readable R then fst (hr_recv R (fst (noise_read L 8192 (fst c) (sk_in (snd c))))) else []) @
     (if hr_want_write1 R then fst (hr_send1 R) else []) @
     (if hr_want_write2 R then fst (hr_send2 R) else [])"

fun run_callbacks ::
  "openssl \<Rightarrow> ('w handler \<times> (H2 \<times> 'w \<Rightarrow> unit res \<times> H2 \<times> 'w) \<times> h2_round) list \<Rightarrow> 'w h2_state \<Rightarrow> h2_callback list" where
  "run_callbacks L [] s = []"
| "run_callbacks L ((f, t, R) # Rs) s =
     round_callbacks L R (fst (snd s)) @ run_callbacks L Rs (snd (h2_round_step L f t R s))"

context h2_owner
begin

lemma receive_requests:
  assumes "h2_receive L on_request R (h, c, w) = (Inr True, h', c', w')"
  shows "requests h' = fold request_step
    (if hr_readable R then fst (hr_recv R (fst (noise_read L 8192 (fst c) (sk_in (snd c))))) else []) (requests h)"
proof (cases "hr_readable R")
  case True
  obtain c0 k0 where c: "c = (c0, k0)" by fastforce
  obtain d c1 cs where rd: "noise_read L 8192 c0 (sk_in k0) = (d, c1, cs)" by (metis prod_cases3)
  obtain r h2 c2 w2 where cb: "h2_callbacks L on_request (fst (hr_recv R d)) (h, (c1, k0\<lparr>sk_in := cs\<rparr>), w) = (r, h2, c2, w2)"
    by (metis prod_cases4)
  have "r = Inr () \<and> h2 = h'"
    using assms True by (auto simp: h2_receive_def c rd cb Let_def split: if_splits sum.splits)
  then show ?thesis using callbacks_requests [of L "fst (hr_recv R d)"] cb True by (simp add: c rd)
qed (use assms in \<open>simp add: h2_receive_def\<close>)

lemma round_requests:
  assumes "h2_round_step L on_request on_tick R (h, c, w) = (Inr True, h', c', w')"
  shows "requests h' = fold request_step (round_callbacks L R c) (requests h)"
proof -
  obtain r1 h1 c1 w1 where 1: "h2_receive L on_request R (h, c, w) = (r1, h1, c1, w1)" by (metis prod_cases4)
  obtain r2 h2 c2 w2 where 2: "h2_flush L on_request (hr_want_write1 R) (hr_send1 R) (h1, c1, w1) = (r2, h2, c2, w2)"
    by (metis prod_cases4)
  obtain r3 h3 w3 where 3: "on_tick (h2, w2) = (r3, h3, w3)" by (metis prod_cases3)
  obtain r4 h4 c4 w4 where 4: "h2_flush L on_request (hr_want_write2 R) (hr_send2 R) (h3, c2, w3) = (r4, h4, c4, w4)"
    by (metis prod_cases4)
  have "r1 = Inr True" "r2 = Inr True" "r4 = Inr True" "h4 = h'"
    using assms by (auto simp: h2_round_step_def and_then_def 1 2 3 4 split: if_splits sum.splits bool.splits)
  then show ?thesis
    using receive_requests [of L R h c w h1] 1 flush_requests [of L _ _ h1 c1 w1] 2 tick_keeps [OF 3]
      flush_requests [of L _ _ h3 c2 w3] 4 by (simp add: round_callbacks_def)
qed

end

lemma run_requests:
  assumes "h2_run L Rs (h, c, w) = (Inr True, h', c', w')" and "\<forall>(f, t, R) \<in> set Rs. h2_owner f t"
  shows "requests h' = fold request_step (run_callbacks L Rs (h, c, w)) (requests h)"
  using assms
proof (induction Rs arbitrary: h c w)
  case (Cons x Rs)
  obtain f t R where x: "x = (f, t, R)" by (metis prod_cases3)
  obtain r h1 c1 w1 where 1: "h2_round_step L f t R (h, c, w) = (r, h1, c1, w1)" by (metis prod_cases4)
  have r: "r = Inr True" using Cons.prems(1) 1 by (auto simp: x split: sum.splits bool.splits)
  have "h2_owner f t" using Cons.prems(2) by (auto simp: x)
  then have "requests h1 = fold request_step (round_callbacks L R c) (requests h)"
    using h2_owner.round_requests 1 r by metis
  then show ?case using Cons.IH [of h1 c1 w1] Cons.prems 1 r by (simp add: x)
qed simp

text \<open>The library neither restarts nor closes the stream with the callback.\<close>

fun keeps_stream :: "int \<Rightarrow> h2_callback \<Rightarrow> bool" where
  "keeps_stream sid (Begin_headers type cat k) = (k \<noteq> sid \<or> type \<noteq> NGHTTP2_HEADERS \<or> cat \<noteq> NGHTTP2_HCAT_REQUEST)"
| "keeps_stream sid (Stream_close k) = (k \<noteq> sid)"
| "keeps_stream sid _ = True"

fun body_of :: "int \<Rightarrow> h2_callback list \<Rightarrow> bytes" where
  "body_of sid [] = []"
| "body_of sid (Data_chunk k d # es) = (if k = sid then d else []) @ body_of sid es"
| "body_of sid (_ # es) = body_of sid es"

fun header_of :: "int \<Rightarrow> string \<Rightarrow> h2_callback list \<Rightarrow> string \<Rightarrow> string" where
  "header_of sid name [] v0 = v0"
| "header_of sid name (Header type k n v # es) v0 =
     header_of sid name es (if k = sid \<and> type = NGHTTP2_HEADERS \<and> n = name then v else v0)"
| "header_of sid name (_ # es) v0 = header_of sid name es v0"

lemma request_collected:
  assumes "list_all (keeps_stream sid) es" "R sid = Some (i, m, p, b)"
  shows "fold request_step es R sid =
    Some (i, header_of sid '':method'' es m, header_of sid '':path'' es p, b @ string_of_bytes (body_of sid es))"
  using assms
proof (induction es arbitrary: R m p b)
  case (Cons e es)
  have "request_step e R sid =
      Some (i, header_of sid '':method'' [e] m, header_of sid '':path'' [e] p, b @ string_of_bytes (body_of sid [e]))"
    using Cons.prems by (cases e) auto
  note IH = Cons.IH [of "request_step e R", OF _ this]
  have "header_of sid n (e # es) v = header_of sid n es (header_of sid n [e] v)" for n v by (cases e) simp_all
  moreover have "string_of_bytes (body_of sid (e # es)) = string_of_bytes (body_of sid [e]) @ string_of_bytes (body_of sid es)"
    by (cases e) simp_all
  ultimately show ?case using IH Cons.prems(1) by (simp del: request_step.simps header_of.simps body_of.simps)
qed simp

lemma request_handed_over:
  assumes "requests h sid = Some (i, m, p, b)" "type = NGHTTP2_HEADERS \<or> type = NGHTTP2_DATA"
    and "flags AND NGHTTP2_FLAG_END_STREAM \<noteq> 0"
  shows "h2_callback_step L f (Frame_recv type flags sid) (h, c, w) =
    (case f i m p b (h, w) of (r, h', w') \<Rightarrow> (r, h', c, w'))"
  using assms by (auto simp: h2_callback_step_def on_frame_def requests_def request_of_def)

section \<open>Witnesses\<close>

definition demo_h2 :: H2 where
  "demo_h2 = on_begin_headers NGHTTP2_HEADERS NGHTTP2_HCAT_REQUEST 1 new_H2"

lemma demo_h2_stream: "h2_streams demo_h2 1 = Some (new_Stream 1)"
  by (simp add: demo_h2_def on_begin_headers_def)

theorem long_poll_delivery_witness:
  "\<exists>rs h' st'. stream_ops 1 [Pull 2, Push [4, 5], Pull 9, Pull 9, Push [6]] (reply_stream_start 1 200 [1, 2, 3] demo_h2) = (rs, h') \<and>
     rs = [Octets [1, 2] False, Octets [3, 4, 5] False, Deferred] \<and> h2_streams h' 1 = Some st' \<and>
     [1, 2, 3] @ pushed [Pull 2, Push [4, 5], Pull 9, Pull 9, Push [6]] = concat (map octets_of rs) @ stream_pending st'"
proof -
  let ?os = "[Pull 2, Push [4, 5], Pull 9, Pull 9, Push [6]] :: u8 queue_op list"
  obtain rs h' where r: "stream_ops 1 ?os (reply_stream_start 1 200 [1, 2, 3] demo_h2) = (rs, h')" by fastforce
  have "rs = [Octets [1, 2] False, Octets [3, 4, 5] False, Deferred]"
    using r demo_h2_stream
    by (simp add: reply_stream_start_def submit_response_def push_data_def data_read_def new_Stream_def Let_def
        split: prod.splits)
  with long_poll_delivery [OF demo_h2_stream r] r show ?thesis by blast
qed

theorem reply_delivery_witness:
  "\<exists>rs h' rest. stream_ops 1 (map Pull [2, 2]) (reply 1 200 ''text/plain'' [1, 2, 3] demo_h2) = (rs, h') \<and>
     [1, 2, 3] = concat (map octets_of rs) @ rest \<and> rest = [] \<and> is_eof (last rs)"
proof -
  obtain rs h' where r: "stream_ops 1 (map Pull [2, 2]) (reply 1 200 ''text/plain'' [1, 2, 3] demo_h2) = (rs, h')" by fastforce
  have "rs = [Octets [1, 2] False, Octets [3] True]"
    using r demo_h2_stream
    by (simp add: reply_def submit_response_def data_read_def new_Stream_def Let_def split: prod.splits)
  with reply_delivery [OF demo_h2_stream _ _ r] r show ?thesis by auto
qed

end
