(* ===== verification/Dns.thy ===== *)
theory Dns
  imports State
begin

text \<open>
  Model of \<^verbatim>\<open>src/src/dns.cpp\<close>: the name parser, the answer to one query and the life
  cycle of the resolver. Reading a query outside its octets is the outcome
  \<open>Undefined_behaviour\<close>, so that memory safety is a theorem rather than a convention.
\<close>

section \<open>Names\<close>

definition kTypeA :: u16 where "kTypeA = 1"
definition kTypeAAAA :: u16 where "kTypeAAAA = 28"
definition kTypeAny :: u16 where "kTypeAny = 255"
definition kClassIN :: u16 where "kClassIN = 1"

definition rd :: "bytes \<Rightarrow> nat \<Rightarrow> u8 res" where
  "rd msg i = (if i < length msg then Inr (msg ! i) else Inl Undefined_behaviour)"

definition rd_range :: "bytes \<Rightarrow> nat \<Rightarrow> nat \<Rightarrow> bytes res" where
  "rd_range msg i n = (if i + n \<le> length msg then Inr (take n (drop i msg)) else Inl Undefined_behaviour)"

definition pop_dot :: "string \<Rightarrow> string" where
  "pop_dot name = (if name \<noteq> [] \<and> last name = CHR ''.'' then butlast name else name)"

text \<open>
  The loop of \<^verbatim>\<open>parse_qname\<close>: \<open>hops\<close> counts the iterations that are left of the 16,
  \<open>end\<close> is the offset behind the first pointer once one was followed.
\<close>

fun parse_qname_loop :: "nat \<Rightarrow> bytes \<Rightarrow> nat \<Rightarrow> bool \<Rightarrow> nat \<Rightarrow> string \<Rightarrow> (nat \<times> string) option res" where
  "parse_qname_loop 0 msg off jumped endp name = Inr None"
| "parse_qname_loop (Suc hops) msg off jumped endp name =
     (if \<not> off < length msg then Inr None
      else res_bind (rd msg off) (\<lambda>lab.
        if lab = 0 then Inr (Some (if jumped then endp else off + 1, pop_dot name))
        else if lab AND 0xc0 = 0xc0 then
          if length msg \<le> off + 1 then Inr None
          else res_bind (rd msg (off + 1)) (\<lambda>b.
            parse_qname_loop hops msg (unat (get_be16 (lab AND 0x3f) b)) True
              (if jumped then endp else off + 2) name)
        else if length msg < off + 1 + unat lab then Inr None
        else res_bind (rd_range msg (off + 1) (unat lab)) (\<lambda>s.
          parse_qname_loop hops msg (off + 1 + unat lab) jumped endp (name @ string_of_bytes s @ ''.''))))"

definition parse_qname :: "bytes \<Rightarrow> nat \<Rightarrow> (nat \<times> string) option res" where
  "parse_qname msg off = parse_qname_loop 16 msg off False off []"

definition lower_copy :: "string \<Rightarrow> string" where
  "lower_copy s = lower_string s"

text \<open>The port keeps the low 16 bits of what \<^verbatim>\<open>std::stoi\<close> reads.\<close>

definition parse_hostport :: "string \<Rightarrow> (string \<times> u16) res" where
  "parse_hostport s =
     (case split_last CHR '':'' s of
        None \<Rightarrow> res_bind (stoi s) (\<lambda>p. Inr (''0.0.0.0'', word_of_int p))
      | Some (host, rest) \<Rightarrow>
          res_bind (stoi rest) (\<lambda>p. Inr (if host = [] then ''0.0.0.0'' else host, word_of_int p)))"

section \<open>Answers\<close>

definition dns_host :: "NodeState \<Rightarrow> string" where
  "dns_host n = lower_copy (if nd_hostname n = [] then ''node-'' @ nd_stable_id n else nd_hostname n)"

definition dns_match :: "string \<Rightarrow> string \<Rightarrow> NodeState \<Rightarrow> bool" where
  "dns_match want domain n =
     (let host = dns_host n; fqdn = host @ ''.'' @ domain
      in want = host \<or> want = fqdn \<or> want = fqdn @ ''.'')"

definition add_rr :: "u16 \<Rightarrow> bytes \<Rightarrow> bytes \<Rightarrow> bytes" where
  "add_rr type data resp =
     resp @ [0xc0, 0x0c] @ put_be16 type @ put_be16 kClassIN @ put_be32 30 @
     put_be16 (word_of_nat (length data)) @ data"

text \<open>The records for the node found, as lists of type and data in the order they are added.\<close>

definition dns_rrs :: "inet6 \<Rightarrow> u16 \<Rightarrow> NodeState \<Rightarrow> (u16 \<times> bytes) list" where
  "dns_rrs N qtype n =
     (if (qtype = kTypeA \<or> qtype = kTypeAny) \<and> nd_ipv4 n \<noteq> []
      then (case inet_pton4 (nd_ipv4 n) of None \<Rightarrow> [] | Some a \<Rightarrow> [(kTypeA, a)]) else []) @
     (if (qtype = kTypeAAAA \<or> qtype = kTypeAny) \<and> nd_ipv6 n \<noteq> []
      then (case inet_pton6 N (takeWhile (\<lambda>c. c \<noteq> CHR 0x00) (nd_ipv6 n)) of
              None \<Rightarrow> [] | Some a \<Rightarrow> [(kTypeAAAA, a)]) else [])"

definition dns_header :: "bytes \<Rightarrow> bool \<Rightarrow> bytes" where
  "dns_header q found =
     (take 12 q)[2 := 0x81, 3 := if found then 0x80 else 0x83, 4 := q ! 4, 5 := q ! 5,
       6 := 0, 7 := 0, 8 := 0, 9 := 0, 10 := 0, 11 := 0]"

definition dns_answer :: "inet6 \<Rightarrow> string \<Rightarrow> NodeState list \<Rightarrow> bytes \<Rightarrow> bytes option res" where
  "dns_answer N domain nodes q =
     (if length q < 12 then Inr None
      else if get_be16 (q ! 2) (q ! 3) AND 0x8000 \<noteq> 0 then Inr None
      else if get_be16 (q ! 4) (q ! 5) < 1 then Inr None
      else res_bind (parse_qname q 12) (\<lambda>p.
        case p of
          None \<Rightarrow> Inr None
        | Some (off, qname) \<Rightarrow>
            if length q < off + 4 then Inr None
            else
              res_bind (rd q off) (\<lambda>t0.
              res_bind (rd q (off + 1)) (\<lambda>t1.
              res_bind (rd_range q 12 (off + 4 - 12)) (\<lambda>question.
                let found = find (dns_match (lower_copy qname) (lower_copy domain)) nodes;
                    resp = dns_header q (found \<noteq> None) @ question
                in case found of
                     None \<Rightarrow> Inr (Some resp)
                   | Some n \<Rightarrow>
                       let rrs = dns_rrs N (get_be16 t0 t1) n;
                           resp' = fold (\<lambda>(t, d). add_rr t d) rrs resp;
                           answers = (word_of_nat (length rrs) :: u16)
                       in Inr (Some (resp'[6 := ucast (drop_bit 8 answers), 7 := ucast answers])))))))"

section \<open>Life cycle\<close>

text \<open>
  What the operating system answers to \<^verbatim>\<open>start\<close>: the descriptor, whether
  \<^verbatim>\<open>bind\<close> succeeded, and the bound address.
\<close>

record dns_os =
  os_socket :: int
  os_bind :: "bytes option \<Rightarrow> u16 \<Rightarrow> bool"
  os_bound_ip :: string
  os_bound_port :: u16

record MagicDns =
  md_domain :: string
  md_listen :: string
  md_bound :: string
  md_fd :: int
  md_stop :: bool
  md_thread :: bool

definition new_MagicDns :: "string \<Rightarrow> string \<Rightarrow> MagicDns" where
  "new_MagicDns domain listen =
     \<lparr>md_domain = domain, md_listen = listen, md_bound = [], md_fd = -1, md_stop = False, md_thread = False\<rparr>"

definition dns_start :: "dns_os \<Rightarrow> MagicDns \<Rightarrow> unit res \<times> MagicDns" where
  "dns_start S D =
     (if md_listen D = [] then (Inr (), D)
      else case parse_hostport (md_listen D) of
             Inl e \<Rightarrow> (Inl e, D)
           | Inr (host, port) \<Rightarrow>
               let D1 = D\<lparr>md_fd := os_socket S\<rparr> in
               if os_socket S < 0 then (Inl (Runtime_error ''dns socket''), D1)
               else if \<not> os_bind S (inet_pton4 host) port
               then (Inl (Runtime_error (''dns bind failed on '' @ md_listen D)), D1\<lparr>md_fd := -1\<rparr>)
               else (Inr (), D1\<lparr>md_bound := os_bound_ip S @ '':'' @ to_string (unat (os_bound_port S)),
                               md_stop := False, md_thread := True\<rparr>))"

definition dns_stop :: "MagicDns \<Rightarrow> MagicDns" where
  "dns_stop D =
     (let D1 = D\<lparr>md_stop := True\<rparr>;
          D2 = (if 0 \<le> md_fd D1 then D1\<lparr>md_fd := -1\<rparr> else D1)
      in if md_thread D2 then D2\<lparr>md_thread := False\<rparr> else D2)"

text \<open>
  One iteration of the loop: the value of \<^verbatim>\<open>stop_\<close> that its condition reads, what
  \<^verbatim>\<open>recvfrom\<close> returned (a datagram with its source, or a failure), and the value of
  \<^verbatim>\<open>stop_\<close> read once more when nothing was received. The registry is read anew for
  every query.
\<close>

datatype dns_event = Datagram string bytes "NodeState list" | Recv_failed

record dns_iteration =
  di_stop :: bool
  di_event :: dns_event
  di_stop_again :: bool

fun dns_loop :: "inet6 \<Rightarrow> string \<Rightarrow> dns_iteration list \<Rightarrow> (string \<times> bytes) list res" where
  "dns_loop N domain [] = Inr []"
| "dns_loop N domain (i # is) =
     (if di_stop i then Inr []
      else case di_event i of
        Recv_failed \<Rightarrow> if di_stop_again i then Inr [] else dns_loop N domain is
      | Datagram src d nodes \<Rightarrow>
          if d = [] then (if di_stop_again i then Inr [] else dns_loop N domain is)
          else res_bind (dns_answer N domain nodes (take 2048 d)) (\<lambda>r.
            if r = None \<or> r = Some [] then dns_loop N domain is
            else res_bind (dns_loop N domain is) (\<lambda>sent. Inr ((src, the r) # sent))))"

section \<open>Memory safety and the shape of answers\<close>

text \<open>
  The parser stays inside the message: with \<open>lo\<close> the start of the name, it returns an offset
  behind it and not beyond the end, whatever pointers it followed.
\<close>

lemma parse_qname_loop_bounds:
  assumes "if jumped then lo < endp \<and> endp \<le> length msg else lo \<le> off"
  shows "\<exists>r. parse_qname_loop hops msg off jumped endp name = Inr r \<and>
    (\<forall>off' name'. r = Some (off', name') \<longrightarrow> lo < off' \<and> off' \<le> length msg)"
  using assms
proof (induction hops msg off jumped endp name rule: parse_qname_loop.induct)
  case (2 hops msg off jumped endp name)
  show ?case
  proof (cases "off < length msg \<and> msg ! off \<noteq> 0")
    case True
    show ?thesis
    proof (cases "msg ! off AND 0xc0 = 0xc0")
      case ptr: True
      show ?thesis
        using True ptr "2.prems" "2.IH"(1) [of "msg ! off" "msg ! (off + 1)"]
        by (auto simp: rd_def split: if_splits)
    next
      case label: False
      show ?thesis
        using True label "2.prems" "2.IH"(2) [of "msg ! off" "take (unat (msg ! off)) (drop (off + 1) msg)"]
        by (auto simp: rd_def rd_range_def split: if_splits)
    qed
  qed (use "2.prems" in \<open>auto simp: rd_def split: if_splits\<close>)
qed simp

lemma parse_qname_bounds:
  "\<exists>r. parse_qname msg off = Inr r \<and>
    (\<forall>off' name'. r = Some (off', name') \<longrightarrow> off < off' \<and> off' \<le> length msg)"
  unfolding parse_qname_def by (rule parse_qname_loop_bounds) simp

lemma length_dns_header: "12 \<le> length q \<Longrightarrow> length (dns_header q f) = 12"
  by (simp add: dns_header_def)

lemma nth_dns_header:
  assumes "12 \<le> length q"
  shows "take 2 (dns_header q f) = take 2 q" "dns_header q f ! 2 = 0x81"
    "dns_header q f ! 3 = (if f then 0x80 else 0x83)" "dns_header q f ! 4 = q ! 4" "dns_header q f ! 5 = q ! 5"
    "dns_header q f ! 6 = 0" "dns_header q f ! 7 = 0"
  using assms by (simp_all add: dns_header_def nth_list_update)

lemma fold_add_rr:
  "fold (\<lambda>(t, d). add_rr t d) rrs resp = resp @ concat (map (\<lambda>(t, d). add_rr t d []) rrs)"
  by (induction rrs arbitrary: resp) (auto simp: add_rr_def)

lemma inet_pton4_length: "inet_pton4 s = Some a \<Longrightarrow> length a = 4"
  by (auto simp: inet_pton4_def Let_def split: option.splits prod.splits)

lemma dns_rrs_bounds:
  assumes "inet6_laws N"
  shows "length (dns_rrs N t n) \<le> 2" "length (concat (map (\<lambda>(t, d). add_rr t d []) (dns_rrs N t n))) \<le> 44"
proof -
  have "length a = 16" if "inet_pton6 N s = Some a" for s a using assms that by (simp add: inet6_laws_def)
  then show "length (dns_rrs N t n) \<le> 2" "length (concat (map (\<lambda>(t, d). add_rr t d []) (dns_rrs N t n))) \<le> 44"
    by (auto simp: dns_rrs_def add_rr_def wire_simps inet_pton4_length split: option.splits)
qed

text \<open>What an answer is once the question has been read.\<close>

definition dns_body :: "inet6 \<Rightarrow> string \<Rightarrow> NodeState list \<Rightarrow> bytes \<Rightarrow> nat \<Rightarrow> string \<Rightarrow> bytes" where
  "dns_body N domain nodes q off qname =
     (case find (dns_match (lower_copy qname) (lower_copy domain)) nodes of
        None \<Rightarrow> dns_header q False @ take (off - 8) (drop 12 q)
      | Some n \<Rightarrow>
          let rrs = dns_rrs N (get_be16 (q ! off) (q ! (off + 1))) n
          in (dns_header q True)[6 := ucast (drop_bit 8 (word_of_nat (length rrs) :: u16)), 7 := ucast (word_of_nat (length rrs) :: u16)] @
             take (off - 8) (drop 12 q) @ concat (map (\<lambda>(t, d). add_rr t d []) rrs))"

lemma dns_answer_parsed:
  assumes "12 \<le> length q" "get_be16 (q ! 2) (q ! 3) AND 0x8000 = 0" "get_be16 (q ! 4) (q ! 5) \<noteq> 0"
    and "parse_qname q 12 = Inr (Some (off, qname))" "12 < off" "off + 4 \<le> length q"
  shows "dns_answer N domain nodes q = Inr (Some (dns_body N domain nodes q off qname))"
proof -
  have "rd q off = Inr (q ! off)" "rd q (off + 1) = Inr (q ! (off + 1))"
    "rd_range q 12 (off + 4 - 12) = Inr (take (off - 8) (drop 12 q))"
    using assms(5,6) by (auto simp: rd_def rd_range_def)
  moreover have "length (dns_header q f) = 12" for f using assms(1) by (simp add: length_dns_header)
  ultimately show ?thesis
    using assms
    by (auto simp: dns_answer_def dns_body_def fold_add_rr Let_def list_update_append split: option.split)
qed

text \<open>Whether there is an answer depends on the query alone.\<close>

lemma dns_answer_cases:
  obtains (silent) "\<And>N domain nodes. dns_answer N domain nodes q = Inr None"
  | (reply) off qname where "parse_qname q 12 = Inr (Some (off, qname))" "12 < off" "off + 4 \<le> length q"
      "\<And>N domain nodes. dns_answer N domain nodes q = Inr (Some (dns_body N domain nodes q off qname))"
proof (cases "length q < 12 \<or> get_be16 (q ! 2) (q ! 3) AND 0x8000 \<noteq> 0 \<or> get_be16 (q ! 4) (q ! 5) < 1")
  case True
  then show thesis by (intro silent) (auto simp: dns_answer_def)
next
  case False
  obtain r where r: "parse_qname q 12 = Inr r"
    "\<And>off qname. r = Some (off, qname) \<Longrightarrow> 12 < off \<and> off \<le> length q"
    using parse_qname_bounds [of q 12] by blast
  show thesis
  proof (cases "\<exists>off qname. r = Some (off, qname) \<and> off + 4 \<le> length q")
    case True
    then obtain off qname where p: "r = Some (off, qname)" "off + 4 \<le> length q" by blast
    with r have "12 < off" by blast
    with False r(1) p dns_answer_parsed [of q off qname] show thesis by (intro reply) simp_all
  next
    case bad: False
    then show thesis using False r(1)
      by (intro silent) (auto simp: dns_answer_def split: option.split)
  qed
qed

lemma small_count: "k \<le> 2 \<Longrightarrow> get_be16 (ucast (drop_bit 8 (word_of_nat k :: u16))) (ucast (word_of_nat k :: u16)) \<le> 2"
  unfolding get_be16_put by (cases k; cases "k - 1") auto

lemma dns_body_parts:
  assumes "inet6_laws N" "12 \<le> length q"
  shows "\<exists>h tl. dns_body N domain nodes q off qname = h @ take (off - 8) (drop 12 q) @ tl \<and>
    length h = 12 \<and> length tl \<le> 44 \<and> take 2 h = take 2 q \<and> h ! 2 = 0x81 \<and> h ! 3 \<in> {0x80, 0x83} \<and>
    h ! 4 = q ! 4 \<and> h ! 5 = q ! 5 \<and> get_be16 (h ! 6) (h ! 7) \<le> 2"
proof (cases "find (dns_match (lower_copy qname) (lower_copy domain)) nodes")
  case None
  then show ?thesis
    using nth_dns_header [OF assms(2), of False] length_dns_header [OF assms(2), of False]
    by (intro exI [of _ "dns_header q False"] exI [of _ "[]"]) (simp add: dns_body_def get_be16_def)
next
  case (Some n)
  let ?rrs = "dns_rrs N (get_be16 (q ! off) (q ! (off + 1))) n"
  let ?k = "word_of_nat (length ?rrs) :: u16"
  let ?h = "(dns_header q True)[6 := ucast (drop_bit 8 ?k), 7 := ucast ?k]"
  have "length ?h = 12" "take 2 ?h = take 2 q" "?h ! 2 = 0x81" "?h ! 3 = 0x80" "?h ! 4 = q ! 4" "?h ! 5 = q ! 5"
    "?h ! 6 = ucast (drop_bit 8 ?k)" "?h ! 7 = ucast ?k"
    using nth_dns_header [OF assms(2), of True] length_dns_header [OF assms(2), of True] by simp_all
  moreover have "dns_body N domain nodes q off qname =
      ?h @ take (off - 8) (drop 12 q) @ concat (map (\<lambda>(t, d). add_rr t d []) ?rrs)"
    by (simp add: dns_body_def Some Let_def)
  ultimately show ?thesis
    using dns_rrs_bounds [OF assms(1)] small_count [of "length ?rrs"]
    by (intro exI [of _ ?h] exI [of _ "concat (map (\<lambda>(t, d). add_rr t d []) ?rrs)"]) simp
qed

text \<open>
  C27: The resolver is memory safe on every datagram, and what it sends back has a fixed shape:
  the query's identifier, the response flags, rcode 0 or 3, the question as it came, and at most
  44 octets more than the query, so a spoofed source is never amplified beyond that. The
  question count is copied from the query, although exactly one question is echoed.
\<close>

theorem dns_answer_shape:
  assumes "inet6_laws N"
  shows "\<exists>r. dns_answer N domain nodes q = Inr r \<and>
    (\<forall>resp. r = Some resp \<longrightarrow>
      (\<exists>off qname. parse_qname q 12 = Inr (Some (off, qname)) \<and> off + 4 \<le> length q \<and>
         take 2 resp = take 2 q \<and> resp ! 2 = 0x81 \<and> resp ! 3 \<in> {0x80, 0x83} \<and>
         resp ! 4 = q ! 4 \<and> resp ! 5 = q ! 5 \<and> get_be16 (resp ! 6) (resp ! 7) \<le> 2 \<and>
         take (off - 8) (drop 12 resp) = take (off - 8) (drop 12 q) \<and> length resp \<le> length q + 44))"
proof (cases q rule: dns_answer_cases)
  case (reply off qname)
  note p = reply(1-3) reply(4) [of N domain nodes]
  let ?b = "dns_body N domain nodes q off qname"
  have len: "12 \<le> length q" using p(2,3) by simp
  obtain h tl where b: "?b = h @ take (off - 8) (drop 12 q) @ tl" "length h = 12" "length tl \<le> 44"
    "take 2 h = take 2 q" "h ! 2 = 0x81" "h ! 3 \<in> {0x80, 0x83}" "h ! 4 = q ! 4" "h ! 5 = q ! 5"
    "get_be16 (h ! 6) (h ! 7) \<le> 2"
    using dns_body_parts [OF assms len] by metis
  have "length ?b \<le> length q + 44" using b(1-3) p(2,3) by simp
  moreover have "take (off - 8) (drop 12 ?b) = take (off - 8) (drop 12 q)" using b(1,2) p(3) by simp
  moreover have "take 2 ?b = take 2 h" "?b ! 2 = h ! 2" "?b ! 3 = h ! 3" "?b ! 4 = h ! 4" "?b ! 5 = h ! 5"
    "?b ! 6 = h ! 6" "?b ! 7 = h ! 7" using b(1,2) by (simp_all add: nth_append)
  ultimately show ?thesis using p b(4-9) by auto
qed simp

text \<open>
  The resolver ignores mesh groups: its answers are the same whatever token and shared
  flag each registered node carries, so the names and addresses of one group are resolved for
  members of every other.
\<close>

theorem dns_ignores_groups:
  "dns_answer N domain (map (\<lambda>n. n\<lparr>nd_token := tok n, nd_shared := sh n\<rparr>) nodes) q =
   dns_answer N domain nodes q"
proof -
  let ?f = "\<lambda>n. n\<lparr>nd_token := tok n, nd_shared := sh n\<rparr>"
  have "dns_match w d (?f n) = dns_match w d n" for w d n by (simp add: dns_match_def dns_host_def)
  moreover have "find P (map ?f nodes) = map_option ?f (find (P \<circ> ?f) nodes)" for P
    by (induction nodes) simp_all
  ultimately have find: "find (dns_match w d) (map ?f nodes) = map_option ?f (find (dns_match w d) nodes)" for w d
    by (simp add: comp_def)
  have "nd_ipv4 (?f n) = nd_ipv4 n" "nd_ipv6 (?f n) = nd_ipv6 n" for n by simp_all
  then have "dns_rrs N t (?f n) = dns_rrs N t n" for t n unfolding dns_rrs_def by (simp only:)
  then have "dns_body N domain (map ?f nodes) q off qname = dns_body N domain nodes q off qname" for off qname
    by (simp add: dns_body_def find split: option.split)
  then show ?thesis by (cases q rule: dns_answer_cases) simp_all
qed

section \<open>Resolving a registered name\<close>

text \<open>The wire form of a name and the text the parser should give back.\<close>

definition encode_qname :: "string list \<Rightarrow> bytes" where
  "encode_qname ls = concat (map (\<lambda>l. word_of_nat (length l) # bytes_of_string l) ls) @ [0]"

fun dotted :: "string list \<Rightarrow> string" where
  "dotted [] = []"
| "dotted [l] = l"
| "dotted (l # ls) = l @ ''.'' @ dotted ls"

definition labels_ok :: "string list \<Rightarrow> bool" where
  "labels_ok ls \<longleftrightarrow> list_all (\<lambda>l. l \<noteq> [] \<and> length l \<le> 63) ls \<and> length ls \<le> 15"

lemma pop_dot_labels: "pop_dot (concat (map (\<lambda>l. l @ ''.'') ls)) = dotted ls"
proof (cases "ls = []")
  case False
  then have "concat (map (\<lambda>l. l @ ''.'') ls) = dotted ls @ ''.''"
    by (induction ls rule: dotted.induct) simp_all
  then show ?thesis by (simp add: pop_dot_def)
qed (simp add: pop_dot_def)

lemma query_flag: "(f :: u8) AND 0x80 = 0 \<Longrightarrow> get_be16 f g AND 0x8000 = 0"
proof (rule bit_word_eqI)
  fix n assume f: "f AND 0x80 = 0" and "n < LENGTH(16)"
  have "\<not> bit (f AND 0x80) 7" by (simp add: f)
  then have "\<not> bit f 7" by (simp add: bit_and_iff)
  moreover have "bit (0x8000 :: u16) n \<Longrightarrow> n = 15"
    using bit_push_bit_iff [of 15 "1 :: u16" n] by (simp add: bit_1_iff)
  ultimately show "bit (get_be16 f g AND 0x8000) n = bit 0 n"
    using bit_imp_le_length [of g 15] by (auto simp: get_be16_def bit_simps)
qed

lemma label_octet:
  assumes "l \<noteq> []" "length l \<le> 63"
  shows "unat (word_of_nat (length l) :: u8) = length l" "(word_of_nat (length l) :: u8) \<noteq> 0"
    "(word_of_nat (length l) :: u8) AND 0xc0 \<noteq> 0xc0"
proof -
  show u: "unat (word_of_nat (length l) :: u8) = length l" using assms(2) by (intro unat_of_nat_below) simp
  then show "(word_of_nat (length l) :: u8) \<noteq> 0" using assms(1) by (metis length_0_conv unat_0)
  show "(word_of_nat (length l) :: u8) AND 0xc0 \<noteq> 0xc0"
  proof
    assume "(word_of_nat (length l) :: u8) AND 0xc0 = 0xc0"
    then have "(0xc0 :: u8) \<le> word_of_nat (length l)" using word_and_le2 [of "word_of_nat (length l) :: u8" "0xc0"] by simp
    then have "unat (0xc0 :: u8) \<le> length l" unfolding word_le_nat_alt u .
    with assms(2) show False by simp
  qed
qed

lemma parse_qname_loop_labels:
  assumes "list_all (\<lambda>l. l \<noteq> [] \<and> length l \<le> 63) ls" "length ls < hops"
    and "msg = pre @ encode_qname ls @ rest" "off = length pre"
  shows "parse_qname_loop hops msg off False endp name =
    Inr (Some (off + length (encode_qname ls), pop_dot (name @ concat (map (\<lambda>l. l @ ''.'') ls))))"
  using assms
proof (induction ls arbitrary: hops pre off name)
  case Nil
  then show ?case by (cases hops) (auto simp: encode_qname_def rd_def nth_append)
next
  case (Cons l ls)
  then obtain h where h: "hops = Suc h" "length ls < h" by (cases hops) auto
  have l: "l \<noteq> []" "length l \<le> 63" using Cons.prems(1) by auto
  note o = label_octet [OF l]
  let ?pre = "pre @ word_of_nat (length l) # bytes_of_string l"
  have msg: "msg = ?pre @ encode_qname ls @ rest" using Cons.prems(3) by (simp add: encode_qname_def)
  have lab: "rd msg off = Inr (word_of_nat (length l))" using msg Cons.prems(4) by (simp add: rd_def nth_append)
  have rng: "rd_range msg (off + 1) (length l) = Inr (bytes_of_string l)"
    using msg Cons.prems(4) by (simp add: rd_range_def)
  have "parse_qname_loop hops msg off False endp name =
      parse_qname_loop h msg (off + 1 + length l) False endp (name @ l @ ''.'')"
    using o rng lab msg Cons.prems(4) by (simp add: h(1))
  also have "\<dots> = Inr (Some (off + 1 + length l + length (encode_qname ls),
      pop_dot ((name @ l @ ''.'') @ concat (map (\<lambda>l. l @ ''.'') ls))))"
    using Cons.prems(1,4) by (intro Cons.IH [OF _ h(2) msg]) auto
  finally show ?case by (simp add: encode_qname_def)
qed

lemma parse_qname_labels:
  assumes "labels_ok ls"
  shows "parse_qname (pre @ encode_qname ls @ rest) (length pre) =
    Inr (Some (length pre + length (encode_qname ls), dotted ls))"
  using assms parse_qname_loop_labels [of ls 16 "pre @ encode_qname ls @ rest" pre rest "length pre" "length pre" "[]"]
  by (simp add: parse_qname_def labels_ok_def pop_dot_labels del: parse_qname_loop.simps)

text \<open>
  The names a node answers to: its host name, and that name followed by the domain with or without
  a final dot, in any mixture of upper and lower case. A node that registered without a host name
  is called after its id.
\<close>

definition dns_names :: "string \<Rightarrow> NodeState \<Rightarrow> string set" where
  "dns_names domain n =
     (let host = (if nd_hostname n = [] then ''node-'' @ nd_stable_id n else nd_hostname n)
      in lower_string ` {host, host @ ''.'' @ domain, host @ ''.'' @ domain @ ''.''})"

lemma tolower_dot: "tolower CHR ''.'' = CHR ''.''"
  by code_simp

lemma dns_match_names: "dns_match (lower_copy qname) (lower_copy domain) n \<longleftrightarrow> lower_string qname \<in> dns_names domain n"
  by (simp add: dns_match_def dns_names_def dns_host_def lower_copy_def Let_def tolower_dot)

lemma get_be16_zero: "get_be16 a b = 0 \<longleftrightarrow> a = 0 \<and> b = 0"
proof
  assume z: "get_be16 a b = 0"
  have "\<not> bit a n \<and> \<not> bit b n" if "n < 8" for n
  proof -
    have "\<not> bit (get_be16 a b) (n + 8)" "\<not> bit (get_be16 a b) n" by (simp_all add: z)
    then show ?thesis using that by (auto simp: get_be16_def bit_simps)
  qed
  then show "a = 0 \<and> b = 0" by (auto intro!: bit_word_eqI)
qed (simp add: get_be16_def)

text \<open>One resource record: a pointer to the question, type, class IN, 30 seconds to live, the data.\<close>

definition dns_record :: "u8 \<Rightarrow> bytes \<Rightarrow> bytes" where
  "dns_record type data = [0xc0, 0x0c, 0, type, 0, 1, 0, 0, 0, 30, 0, word_of_nat (length data)] @ data"

lemma dns_rrs_parsed:
  assumes "inet_pton4 (nd_ipv4 n) = Some a" "nd_ipv6 n \<noteq> []"
    and "inet_pton6 N (takeWhile (\<lambda>c. c \<noteq> CHR 0x00) (nd_ipv6 n)) = Some b"
  shows "dns_rrs N t n = (if t = 1 \<or> t = 255 then [(1, a)] else []) @ (if t = 28 \<or> t = 255 then [(28, b)] else [])"
proof -
  have "nd_ipv4 n \<noteq> []" using assms(1) by (auto simp: inet_pton4_def)
  then show ?thesis using assms by (simp add: dns_rrs_def kTypeA_def kTypeAAAA_def kTypeAny_def)
qed

lemma add_rr_record:
  "length a = 4 \<Longrightarrow> add_rr 1 a [] = dns_record 1 a" "length b = 16 \<Longrightarrow> add_rr 28 b [] = dns_record 28 b"
  by (simp_all add: add_rr_def dns_record_def put_be16_def put_be32_def kClassIN_def)

text \<open>
  C26: A query for a name of a registered node (the bare host name or the qualified one, in any
  mixture of upper and lower case) is answered with the addresses of the first node of that name:
  its IPv4 address in an A record when the query asks for type A or ANY, its IPv6 address in an
  AAAA record when it asks for type AAAA or ANY, no record for any other type. The header counts
  the records, the question is echoed, and what follows it in the query is dropped.
\<close>

theorem dns_resolves:
  assumes "inet6_laws N" "labels_ok ls" "f AND 0x80 = 0" "(d0, d1) \<noteq> (0, 0)"
    and "nodes = earlier @ n # later"
    and "lower_string (dotted ls) \<in> dns_names domain n"
    and "\<forall>m \<in> set earlier. lower_string (dotted ls) \<notin> dns_names domain m"
    and "inet_pton4 (nd_ipv4 n) = Some a"
    and "nd_ipv6 n \<noteq> []" "inet_pton6 N (takeWhile (\<lambda>c. c \<noteq> CHR 0x00) (nd_ipv6 n)) = Some b"
    and "t = get_be16 t0 t1"
  shows "dns_answer N domain nodes
      ([i0, i1, f, g, d0, d1, x6, x7, x8, x9, x10, x11] @ encode_qname ls @ [t0, t1, c0, c1] @ extra) =
    Inr (Some ([i0, i1, 0x81, 0x80, d0, d1, 0, if t = 255 then 2 else if t = 1 \<or> t = 28 then 1 else 0, 0, 0, 0, 0] @
      encode_qname ls @ [t0, t1, c0, c1] @
      (if t = 1 \<or> t = 255 then dns_record 1 a else []) @ (if t = 28 \<or> t = 255 then dns_record 28 b else [])))"
proof -
  let ?hd = "[i0, i1, f, g, d0, d1, x6, x7, x8, x9, x10, x11]"
  let ?q = "?hd @ encode_qname ls @ [t0, t1, c0, c1] @ extra"
  let ?off = "12 + length (encode_qname ls)"
  have hd: "length ?hd = 12" by simp
  have parse: "parse_qname ?q 12 = Inr (Some (?off, dotted ls))"
    using parse_qname_labels [OF assms(2), of ?hd "[t0, t1, c0, c1] @ extra"] unfolding hd .
  have "find (dns_match (lower_copy (dotted ls)) (lower_copy domain)) earlier = None"
    using assms(7) by (simp add: find_None_all list_all_iff dns_match_names)
  then have find: "find (dns_match (lower_copy (dotted ls)) (lower_copy domain)) nodes = Some n"
    using assms(6) by (simp add: assms(5) find_append dns_match_names)
  have ty: "?q ! ?off = t0" "?q ! (?off + 1) = t1" by (simp_all add: nth_append)
  have quest: "take (?off - 8) (drop 12 ?q) = encode_qname ls @ [t0, t1, c0, c1]" by simp
  have hdr: "dns_header ?q True = [i0, i1, 0x81, 0x80, d0, d1, 0, 0, 0, 0, 0, 0]"
    by (simp add: dns_header_def)
  have rrs: "dns_rrs N (get_be16 t0 t1) n =
      (if t = 1 \<or> t = 255 then [(1, a)] else []) @ (if t = 28 \<or> t = 255 then [(28, b)] else [])"
    unfolding assms(11) by (rule dns_rrs_parsed [OF assms(8-10)])
  have len: "length a = 4" "length b = 16"
    using assms(1,10) inet_pton4_length [OF assms(8)] by (simp_all add: inet6_laws_def)
  have "dns_body N domain nodes ?q ?off (dotted ls) =
      [i0, i1, 0x81, 0x80, d0, d1, 0, if t = 255 then 2 else if t = 1 \<or> t = 28 then 1 else 0, 0, 0, 0, 0] @
      encode_qname ls @ [t0, t1, c0, c1] @
      (if t = 1 \<or> t = 255 then dns_record 1 a else []) @ (if t = 28 \<or> t = 255 then dns_record 28 b else [])"
    unfolding dns_body_def find option.case ty quest hdr rrs Let_def by (simp add: add_rr_record len)
  moreover have "get_be16 d0 d1 \<noteq> 0" using assms(4) by (simp add: get_be16_zero)
  then have "dns_answer N domain nodes ?q = Inr (Some (dns_body N domain nodes ?q ?off (dotted ls)))"
    by (intro dns_answer_parsed [OF _ _ _ parse]) (use query_flag [OF assms(3)] in \<open>simp_all add: encode_qname_def\<close>)
  ultimately show ?thesis by (simp only:)
qed

definition dns_demo_node :: NodeState where
  "dns_demo_node = \<lparr>nd_id = 1, nd_stable_id = ''1'', nd_hostname = ''Alice'', nd_machine_key = ''mkey:aa'',
     nd_node_key = ''nodekey:bb'', nd_disco_key = [], nd_ipv4 = ''100.64.0.1'', nd_ipv6 = ''fd7a:115c:a1e0:1'',
     nd_endpoints = [], nd_online = True, nd_ephemeral = False, nd_token = [], nd_shared = True\<rparr>"

theorem dns_resolves_witness:
  "dns_answer hex_inet6 ''wirebone.local'' [dns_demo_node]
     ([0x12, 0x34, 1, 0, 0, 1, 0, 0, 0, 0, 0, 1] @ encode_qname [''aLICE''] @ [0, 255, 0, 1] @ [0, 0, 41]) =
   Inr (Some ([0x12, 0x34, 0x81, 0x80, 0, 1, 0, 2, 0, 0, 0, 0] @ encode_qname [''aLICE''] @ [0, 255, 0, 1] @
     dns_record 1 [100, 64, 0, 1] @ dns_record 28 (bytes_of_string ''fd7a:115c:a1e0:1''))) \<and>
   dns_answer hex_inet6 ''wirebone.local'' [dns_demo_node]
     ([0x12, 0x34, 1, 0, 0, 1, 0, 0, 0, 0, 0, 0] @ encode_qname [''alice'', ''WireBone'', ''local''] @ [0, 1, 0, 1] @ []) =
   Inr (Some ([0x12, 0x34, 0x81, 0x80, 0, 1, 0, 1, 0, 0, 0, 0] @
     encode_qname [''alice'', ''WireBone'', ''local''] @ [0, 1, 0, 1] @ dns_record 1 [100, 64, 0, 1]))"
proof -
  have n: "lower_string (dotted [''aLICE'']) \<in> dns_names ''wirebone.local'' dns_demo_node"
    "lower_string (dotted [''alice'', ''WireBone'', ''local'']) \<in> dns_names ''wirebone.local'' dns_demo_node"
    unfolding dns_names_def by code_simp+
  have a: "inet_pton4 (nd_ipv4 dns_demo_node) = Some [100, 64, 0, 1]" "nd_ipv6 dns_demo_node \<noteq> []"
    "inet_pton6 hex_inet6 (takeWhile (\<lambda>c. c \<noteq> CHR 0x00) (nd_ipv6 dns_demo_node)) = Some (bytes_of_string ''fd7a:115c:a1e0:1'')"
    by code_simp+
  have l: "labels_ok [''aLICE'']" "labels_ok [''alice'', ''WireBone'', ''local'']" by (simp_all add: labels_ok_def)
  have t: "255 = get_be16 0 255" "1 = get_be16 0 1" "(1 :: u8) AND 0x80 = 0" "((0, 1) :: u8 \<times> u8) \<noteq> (0, 0)"
    by (simp_all add: get_be16_def)
  note r = dns_resolves [where earlier = "[]" and later = "[]" and n = dns_demo_node and N = hex_inet6, simplified append_Nil,
      OF hex_inet6_laws _ t(3,4) refl _ _ a]
  show ?thesis using r [OF l(1) n(1) _ t(1)] r [OF l(2) n(2) _ t(2)] by simp
qed

theorem dns_answer_shape_witness:
  "\<exists>r resp. dns_answer hex_inet6 ''wirebone.local'' [dns_demo_node]
       ([0x12, 0x34, 1, 0, 0, 2, 0, 0, 0, 0, 0, 0] @ encode_qname [''bob''] @ [0, 1, 0, 1] @ encode_qname [''alice''] @ [0, 1, 0, 1]) = Inr r \<and>
     r = Some resp \<and> resp ! 5 = 2 \<and> length resp \<le> 76"
proof -
  let ?q = "[0x12, 0x34, 1, 0, 0, 2, 0, 0, 0, 0, 0, 0] @ encode_qname [''bob''] @ [0, 1, 0, 1] @ encode_qname [''alice''] @ [0, 1, 0, 1] :: bytes"
  have "\<not> Option.is_none (projr (dns_answer hex_inet6 ''wirebone.local'' [dns_demo_node] ?q))" by code_simp
  then obtain resp where r: "dns_answer hex_inet6 ''wirebone.local'' [dns_demo_node] ?q = Inr (Some resp)"
    using dns_answer_shape [OF hex_inet6_laws, of "''wirebone.local''" "[dns_demo_node]" ?q]
    by (auto simp: Option.is_none_def)
  have "resp ! 5 = ?q ! 5" "length resp \<le> length ?q + 44"
    using dns_answer_shape [OF hex_inet6_laws, of "''wirebone.local''" "[dns_demo_node]" ?q] r by auto
  moreover have "?q ! 5 = 2" "length ?q \<le> 32" by (simp_all add: encode_qname_def)
  ultimately show ?thesis using r by auto
qed

end
