(* ===== verification/Coordinator.thy ===== *)
theory Coordinator
  imports State_Correct Netmap Noise Http1 Http2 Dns
begin

text \<open>
  Model of \<^verbatim>\<open>src/src/coordinator.cpp\<close>: the object that owns the store, answers the
  requests of authenticated machines and fans map updates out to long polls. A request handler
  is a function from the HTTP/2 session, the coordinator, the outside world and the list of long
  polls of the connection to their new values; an exception that leaves it is \<open>Inl\<close>.
\<close>

section \<open>State\<close>

record Config =
  cf_listen :: string
  cf_server_url :: string
  cf_ip_prefix :: string
  cf_ipv6_prefix :: string
  cf_state_path :: string
  cf_domain :: string
  cf_dns_listen :: string
  cf_keepalive :: int

definition default_Config :: Config where
  "default_Config = \<lparr>cf_listen = ''0.0.0.0:8080'', cf_server_url = ''http://127.0.0.1:8080'',
     cf_ip_prefix = ''100.64.0.0/16'', cf_ipv6_prefix = ''fd7a:115c:a1e0::/48'', cf_state_path = [],
     cf_domain = ''wirebone.local'', cf_dns_listen = ''0.0.0.0:5353'', cf_keepalive = 50\<rparr>"

record PreauthOptions =
  po_reusable :: bool
  po_ephemeral :: bool
  po_expiration :: int
  po_token :: string
  po_shared :: "bool option"

record PreauthInfo =
  pi_key :: string
  pi_reusable :: bool
  pi_ephemeral :: bool
  pi_used :: bool
  pi_token :: string
  pi_shared :: bool

record NodeInfo =
  ni_id :: u64
  ni_stable_id :: string
  ni_hostname :: string
  ni_machine_key :: string
  ni_node_key :: string
  ni_disco_key :: string
  ni_ipv4 :: string
  ni_ipv6 :: string
  ni_endpoints :: "string list"
  ni_online :: bool
  ni_token :: string
  ni_shared :: bool

record LiveMap =
  lm_stream_id :: int
  lm_machine :: string
  lm_zstd :: bool
  lm_last_gen :: u64
  lm_last_send :: int

record Impl =
  im_cfg :: Config
  im_store :: Store
  im_bootstrap_key :: string
  im_bound :: string
  im_listen_fd :: int
  im_running :: bool
  im_stop :: bool
  im_accept_thread :: bool
  im_dns :: "MagicDns option"
  im_map_gen :: u64

text \<open>
  The libraries, and the readings of the clocks during one call: the system clock in seconds when
  a key's expiry is checked, when a map is built and when each node in it is converted, and the
  steady clock in nanoseconds.
\<close>

record libs =
  lib_json :: nlohmann
  lib_inet6 :: inet6
  lib_ssl :: openssl
  lib_zstd :: "bytes \<Rightarrow> bytes option"

record clock =
  ck_unix :: int
  ck_now :: int
  ck_created :: "NodeState \<Rightarrow> int"
  ck_steady :: int

type_synonym conn_state = "Impl \<times> world \<times> LiveMap list"

section \<open>Construction, listing, import and export\<close>

definition new_Impl :: "libs \<Rightarrow> bytes option \<Rightarrow> bytes option \<Rightarrow> clock \<Rightarrow> Config \<Rightarrow> world \<Rightarrow> Impl res \<times> world" where
  "new_Impl E draw1 draw2 K cfg w =
     (case new_Store (lib_json E) (lib_inet6 E) (cf_state_path cfg) (cf_ip_prefix cfg) (cf_ipv6_prefix cfg) draw1 w of
        (Inl e, w1) \<Rightarrow> (Inl e, w1)
      | (Inr s, w1) \<Rightarrow>
          let I = \<lparr>im_cfg = cfg, im_store = s, im_bootstrap_key = [], im_bound = [], im_listen_fd = -1,
                   im_running = False, im_stop = False, im_accept_thread = False, im_dns = None, im_map_gen = 1\<rparr>
          in if st_keys s = [] then
               (case create_preauth_key (lib_json E) draw2 (ck_unix K) True False 0 [] None s w1 of
                  (Inl e, s2, w2) \<Rightarrow> (Inl e, w2)
                | (Inr key, s2, w2) \<Rightarrow> (Inr (I\<lparr>im_store := s2, im_bootstrap_key := key\<rparr>), w2))
             else (Inr I, w1))"

definition Impl_create_preauth_key ::
  "libs \<Rightarrow> bytes option \<Rightarrow> clock \<Rightarrow> PreauthOptions \<Rightarrow> Impl \<Rightarrow> world \<Rightarrow> string res \<times> Impl \<times> world" where
  "Impl_create_preauth_key E draw K opts I w =
     (case create_preauth_key (lib_json E) draw (ck_unix K) (po_reusable opts) (po_ephemeral opts) (po_expiration opts)
             (po_token opts) (po_shared opts) (im_store I) w of
        (r, s, w') \<Rightarrow> (r, I\<lparr>im_store := s\<rparr>, w'))"

definition list_preauth_keys :: "Impl \<Rightarrow> PreauthInfo list" where
  "list_preauth_keys I =
     map (\<lambda>k. \<lparr>pi_key = pk_key k, pi_reusable = pk_reusable k, pi_ephemeral = pk_ephemeral k, pi_used = pk_used k,
               pi_token = pk_token k, pi_shared = pk_shared k\<rparr>) (st_keys (im_store I))"

definition node_info :: "NodeState \<Rightarrow> NodeInfo" where
  "node_info n =
     \<lparr>ni_id = nd_id n, ni_stable_id = nd_stable_id n, ni_hostname = nd_hostname n, ni_machine_key = nd_machine_key n,
      ni_node_key = nd_node_key n, ni_disco_key = nd_disco_key n, ni_ipv4 = nd_ipv4 n, ni_ipv6 = nd_ipv6 n,
      ni_endpoints = nd_endpoints n, ni_online = nd_online n, ni_token = nd_token n, ni_shared = nd_shared n\<rparr>"

definition list_nodes :: "Impl \<Rightarrow> NodeInfo list" where
  "list_nodes I = map node_info (st_nodes (im_store I))"

definition noise_public_key :: "libs \<Rightarrow> Impl \<Rightarrow> string res" where
  "noise_public_key E I = noise_public_text (lib_ssl E) (im_store I)"

definition export_state :: "libs \<Rightarrow> Impl \<Rightarrow> string res" where
  "export_state E I = dump_json (lib_json E) (im_store I)"

definition import_state :: "libs \<Rightarrow> string \<Rightarrow> Impl \<Rightarrow> unit res \<times> Impl" where
  "import_state E text I =
     (case load_json (lib_json E) text (im_store I) of
        (Inl e, s) \<Rightarrow> (Inl e, I\<lparr>im_store := s\<rparr>)
      | (Inr _, s) \<Rightarrow>
          (Inr (), I\<lparr>im_store := s, im_bootstrap_key := (case st_keys s of [] \<Rightarrow> [] | k # _ \<Rightarrow> pk_key k)\<rparr>))"

definition bump_map :: "Impl \<Rightarrow> Impl" where
  "bump_map I = I\<lparr>im_map_gen := im_map_gen I + 1\<rparr>"

section \<open>Request bodies\<close>

definition hostname_from_hostinfo :: "nlohmann \<Rightarrow> json \<Rightarrow> string res" where
  "hostname_from_hostinfo J req =
     (case json_find req ''Hostinfo'' of
        None \<Rightarrow> Inr []
      | Some h \<Rightarrow> if is_object h then json_value (nl_get_string J) h ''Hostname'' [] else Inr [])"

definition endpoints_from_req :: "json \<Rightarrow> string list" where
  "endpoints_from_req req =
     (case json_find req ''Endpoints'' of
        Some (JArr es) \<Rightarrow> concat (map (\<lambda>e. case e of JStr s \<Rightarrow> [s] | _ \<Rightarrow> []) es)
      | _ \<Rightarrow> [])"

text \<open>Where a registration carries its key: an object or a string under \<^verbatim>\<open>Auth\<close>, or \<^verbatim>\<open>AuthKey\<close>.\<close>

definition auth_from_req :: "nlohmann \<Rightarrow> json \<Rightarrow> string res" where
  "auth_from_req J req =
     res_bind
       (case json_find req ''Auth'' of
          None \<Rightarrow> Inr []
        | Some a \<Rightarrow>
            if is_object a then
              res_bind (json_value (nl_get_string J) a ''AuthKey'' []) (\<lambda>k.
                if k = [] then json_value (nl_get_string J) a ''authKey'' [] else Inr k)
            else case a of JStr s \<Rightarrow> Inr s | _ \<Rightarrow> Inr [])
       (\<lambda>auth. if auth = [] then json_value (nl_get_string J) req ''AuthKey'' [] else Inr auth)"

record register_req =
  rr_node_key :: string
  rr_host :: string
  rr_auth :: string
  rr_ephemeral :: bool

definition register_fields :: "nlohmann \<Rightarrow> json \<Rightarrow> register_req res" where
  "register_fields J req =
     res_bind (json_value (nl_get_string J) req ''NodeKey'' []) (\<lambda>node_key.
     res_bind (hostname_from_hostinfo J req) (\<lambda>host.
     res_bind (auth_from_req J req) (\<lambda>auth.
     res_bind (json_value (nl_get_bool J) req ''Ephemeral'' False) (\<lambda>ephemeral.
     Inr \<lparr>rr_node_key = node_key, rr_host = host, rr_auth = auth, rr_ephemeral = ephemeral\<rparr>))))"

record map_req =
  mr_version :: u32
  mr_stream :: bool
  mr_omit_peers :: bool
  mr_zstd :: bool
  mr_node_key :: string
  mr_disco_key :: string
  mr_host :: string

definition map_fields :: "nlohmann \<Rightarrow> json \<Rightarrow> map_req res" where
  "map_fields J req =
     res_bind (json_value (nl_get_int J) req ''Version'' 0) (\<lambda>version.
     res_bind (json_value (nl_get_bool J) req ''Stream'' False) (\<lambda>stream.
     res_bind (json_value (nl_get_bool J) req ''OmitPeers'' False) (\<lambda>omit_peers.
     res_bind (json_value (nl_get_string J) req ''Compress'' []) (\<lambda>compress.
     res_bind (json_value (nl_get_string J) req ''NodeKey'' []) (\<lambda>node_key.
     res_bind (json_value (nl_get_string J) req ''DiscoKey'' []) (\<lambda>disco_key.
     res_bind (hostname_from_hostinfo J req) (\<lambda>host.
     Inr \<lparr>mr_version = version, mr_stream = stream, mr_omit_peers = omit_peers, mr_zstd = (compress = ''zstd''),
          mr_node_key = node_key, mr_disco_key = disco_key, mr_host = host\<rparr>)))))))"

definition mr_readonly :: "map_req \<Rightarrow> bool" where
  "mr_readonly q \<longleftrightarrow> mr_stream q \<and> 68 \<le> sint (mr_version q)"

definition parse_body :: "nlohmann \<Rightarrow> string \<Rightarrow> json option" where
  "parse_body J body = nl_parse J (if body = [] then ''{}'' else body)"

section \<open>Registration\<close>

definition denied_response :: json where
  "denied_response = obj
     [(''User'', user_profile), (''Login'', login_profile), (''MachineAuthorized'', JBool False),
      (''Error'', JStr ''invalid or missing preauth key'')]"

definition json_reply :: "nlohmann \<Rightarrow> int \<Rightarrow> json \<Rightarrow> H2 \<times> 'w \<Rightarrow> unit res \<times> H2 \<times> 'w" where
  "json_reply J sid j s =
     (case nl_dump J j of
        None \<Rightarrow> (Inl Json_type_error, s)
      | Some t \<Rightarrow> (Inr (), reply sid 200 ''application/json'' (bytes_of_string t) (fst s), snd s))"

text \<open>Whether the machine may register: known already, or a preauth key is consumed.\<close>

definition admit ::
  "nlohmann \<Rightarrow> int \<Rightarrow> string \<Rightarrow> register_req \<Rightarrow> Store \<Rightarrow> world \<Rightarrow> (bool \<times> string \<times> bool) option op" where
  "admit J now machine_key q s w =
     (if find_by_machine machine_key s \<noteq> None then (Inr (Some (rr_ephemeral q, [], False)), s, w)
      else if rr_auth q = [] then (Inr None, s, w)
      else case consume_preauth J now (rr_auth q) s w of
             (Inl e, s1, w1) \<Rightarrow> (Inl e, s1, w1)
           | (Inr None, s1, w1) \<Rightarrow> (Inr None, s1, w1)
           | (Inr (Some c), s1, w1) \<Rightarrow> (Inr (Some (pc_ephemeral c, pc_token c, pc_shared c)), s1, w1))"

definition on_register ::
  "libs \<Rightarrow> clock \<Rightarrow> int \<Rightarrow> string \<Rightarrow> string \<Rightarrow> H2 \<times> conn_state \<Rightarrow> unit res \<times> H2 \<times> conn_state" where
  "on_register E K sid machine_key body st =
     (case st of (h, I, w, live) \<Rightarrow>
      let J = lib_json E in
      case parse_body J body of
        None \<Rightarrow> (Inr (), reply sid 400 ''application/json'' (bytes_of_string ''{}'') h, I, w, live)
      | Some req \<Rightarrow>
          (case register_fields J req of
             Inl e \<Rightarrow> (Inl e, h, I, w, live)
           | Inr q \<Rightarrow>
               (case admit J (ck_unix K) machine_key q (im_store I) w of
                  (Inl e, s1, w1) \<Rightarrow> (Inl e, h, I\<lparr>im_store := s1\<rparr>, w1, live)
                | (Inr None, s1, w1) \<Rightarrow> json_reply J sid denied_response (h, I\<lparr>im_store := s1\<rparr>, w1, live)
                | (Inr (Some (ephemeral, token, shared)), s1, w1) \<Rightarrow>
                    (case register_node J (lib_inet6 E) machine_key (rr_node_key q) (rr_host q) ephemeral token shared s1 w1 of
                       (Inl e, s2, w2) \<Rightarrow> (Inl e, h, I\<lparr>im_store := s2\<rparr>, w2, live)
                     | (Inr node, s2, w2) \<Rightarrow>
                         json_reply J sid build_register_response (h, bump_map (I\<lparr>im_store := s2\<rparr>), w2, live)))))"

section \<open>Map requests\<close>

definition map_frame_for :: "libs \<Rightarrow> clock \<Rightarrow> NodeState \<Rightarrow> bool \<Rightarrow> Impl \<Rightarrow> bytes res" where
  "map_frame_for E K self zstd I =
     encode_map_frame (lib_json E) (lib_zstd E)
       (build_full_map (ck_created K) (ck_now K) self (st_nodes (im_store I)) (cf_domain (im_cfg I))) zstd"

text \<open>
  The answer to a map request once the node has been updated: an empty reply, a refusal, one
  frame, or the start of a long poll. The last case returns the compression flag, because the
  long poll has still to be entered in the connection's list.
\<close>

definition map_response :: "libs \<Rightarrow> clock \<Rightarrow> int \<Rightarrow> string \<Rightarrow> map_req \<Rightarrow> Impl \<Rightarrow> H2 \<Rightarrow> (bool option \<times> H2) res" where
  "map_response E K sid machine_key q I h =
     (if mr_omit_peers q \<and> \<not> mr_stream q then Inr (None, reply sid 200 ''application/json'' [] h)
      else case find_by_machine machine_key (im_store I) of
             None \<Rightarrow> Inr (None, reply sid 401 ''text/plain'' (bytes_of_string ''unauthorized'') h)
           | Some self \<Rightarrow>
               res_bind (map_frame_for E K self (mr_zstd q) I) (\<lambda>first.
                 if \<not> mr_stream q then Inr (None, reply sid 200 ''application/json'' first h)
                 else Inr (Some (mr_zstd q), reply_stream_start sid 200 first h)))"

text \<open>
  The part of \<^verbatim>\<open>on_map\<close> before the final critical section, which enters the long poll.
\<close>

definition on_map_answer ::
  "libs \<Rightarrow> clock \<Rightarrow> int \<Rightarrow> string \<Rightarrow> string \<Rightarrow> H2 \<times> Impl \<times> world \<Rightarrow> bool option res \<times> H2 \<times> Impl \<times> world" where
  "on_map_answer E K sid machine_key body st =
     (case st of (h, I, w) \<Rightarrow>
      let J = lib_json E in
      case parse_body J body of
        None \<Rightarrow> (Inr None, reply sid 400 ''application/json'' (bytes_of_string ''{}'') h, I, w)
      | Some req \<Rightarrow>
          (case map_fields J req of
             Inl e \<Rightarrow> (Inl e, h, I, w)
           | Inr q \<Rightarrow>
               (case (if mr_readonly q then (Inr (), im_store I, w)
                      else update_map_info J machine_key (mr_node_key q) (mr_disco_key q) (mr_host q)
                             (endpoints_from_req req) (im_store I) w) of
                  (Inl e, s1, w1) \<Rightarrow> (Inl e, h, I\<lparr>im_store := s1\<rparr>, w1)
                | (Inr _, s1, w1) \<Rightarrow>
                    let I1 = (if mr_readonly q then I else bump_map (I\<lparr>im_store := s1\<rparr>));
                        I2 = I1\<lparr>im_store := set_online machine_key True (im_store I1)\<rparr>
                    in case map_response E K sid machine_key q I2 h of
                         Inl e \<Rightarrow> (Inl e, h, I2, w1)
                       | Inr (a, h') \<Rightarrow> (Inr a, h', I2, w1))))"

definition on_map_enlist :: "clock \<Rightarrow> int \<Rightarrow> string \<Rightarrow> bool \<Rightarrow> Impl \<Rightarrow> LiveMap list \<Rightarrow> LiveMap list" where
  "on_map_enlist K sid machine_key zstd I live =
     live @ [\<lparr>lm_stream_id = sid, lm_machine = machine_key, lm_zstd = zstd, lm_last_gen = im_map_gen I,
              lm_last_send = ck_steady K\<rparr>]"

definition on_map ::
  "libs \<Rightarrow> clock \<Rightarrow> int \<Rightarrow> string \<Rightarrow> string \<Rightarrow> H2 \<times> conn_state \<Rightarrow> unit res \<times> H2 \<times> conn_state" where
  "on_map E K sid machine_key body st =
     (case st of (h, I, w, live) \<Rightarrow>
      case on_map_answer E K sid machine_key body (h, I, w) of
        (Inl e, h', I', w') \<Rightarrow> (Inl e, h', I', w', live)
      | (Inr None, h', I', w') \<Rightarrow> (Inr (), h', I', w', live)
      | (Inr (Some zstd), h', I', w') \<Rightarrow> (Inr (), h', I', w', on_map_enlist K sid machine_key zstd I' live))"

section \<open>Fan-out\<close>

text \<open>
  One long poll of the loop in \<^verbatim>\<open>on_tick\<close>; \<open>gen\<close> and the clock are read once before it.
\<close>

definition tick_one :: "libs \<Rightarrow> clock \<Rightarrow> u64 \<Rightarrow> Impl \<Rightarrow> LiveMap \<Rightarrow> H2 \<Rightarrow> unit res \<times> LiveMap \<times> H2" where
  "tick_one E K gen I m h =
     (if gen \<noteq> lm_last_gen m then
        let m' = m\<lparr>lm_last_gen := gen, lm_last_send := ck_steady K\<rparr> in
        case find_by_machine (lm_machine m) (im_store I) of
          None \<Rightarrow> (Inr (), m', h)
        | Some self \<Rightarrow>
            (case map_frame_for E K self (lm_zstd m) I of
               Inl e \<Rightarrow> (Inl e, m, h)
             | Inr f \<Rightarrow> (Inr (), m', push_data (lm_stream_id m) f h))
      else if cf_keepalive (im_cfg I) * 1000000000 \<le> ck_steady K - lm_last_send m then
        (case encode_map_frame (lib_json E) (lib_zstd E) (build_keepalive (ck_now K)) (lm_zstd m) of
           Inl e \<Rightarrow> (Inl e, m, h)
         | Inr f \<Rightarrow> (Inr (), m\<lparr>lm_last_send := ck_steady K\<rparr>, push_data (lm_stream_id m) f h))
      else (Inr (), m, h))"

fun tick_all :: "libs \<Rightarrow> clock \<Rightarrow> u64 \<Rightarrow> Impl \<Rightarrow> LiveMap list \<Rightarrow> H2 \<Rightarrow> unit res \<times> LiveMap list \<times> H2" where
  "tick_all E K gen I [] h = (Inr (), [], h)"
| "tick_all E K gen I (m # ms) h =
     (case tick_one E K gen I m h of
        (Inl e, m', h') \<Rightarrow> (Inl e, m' # ms, h')
      | (Inr _, m', h') \<Rightarrow> (case tick_all E K gen I ms h' of (r, ms', h'') \<Rightarrow> (r, m' # ms', h'')))"

definition on_tick :: "libs \<Rightarrow> clock \<Rightarrow> H2 \<times> conn_state \<Rightarrow> unit res \<times> H2 \<times> conn_state" where
  "on_tick E K st =
     (case st of (h, I, w, live) \<Rightarrow>
      case tick_all E K (im_map_gen I) I live h of (r, live', h') \<Rightarrow> (r, h', I, w, live'))"

end
