(* ===== verification/Coordinator_Correct.thy ===== *)
theory Coordinator_Correct
  imports Coordinator
begin

text \<open>
  What the request handlers of the coordinator guarantee: who is admitted to the registry, what
  a map request reveals, what the fan-out delivers, and which interleavings it misses.
\<close>

section \<open>Admission\<close>

lemma reload_keys_nodes: "reload_keys_from_disk J s w = (r, s') \<Longrightarrow> st_nodes s' = st_nodes s"
  by (auto simp: reload_keys_from_disk_def reload_install_def split: option.splits prod.splits)

lemma consume_preauth_nodes:
  assumes "consume_preauth J now key s w = (r, s', w')"
  shows "st_nodes s' = st_nodes s"
proof -
  obtain r1 s1 where r1: "reload_keys_from_disk J s w = (r1, s1)" by fastforce
  then have "st_nodes s' = st_nodes s1"
    using assms
    by (auto simp: consume_preauth_def consume_locked_eq dest!: save_and_return_cases(1)
        split: sum.splits option.splits if_splits)
  with reload_keys_nodes [OF r1] show ?thesis by simp
qed

lemma admit_nodes: "admit J now m q s w = (r, s', w') \<Longrightarrow> st_nodes s' = st_nodes s"
  by (auto simp: admit_def dest!: consume_preauth_nodes split: if_splits prod.splits sum.splits option.splits)

lemma admit_lookup: "admit J now m q s w = (r, s', w') \<Longrightarrow> find_by_machine m' s' = find_by_machine m' s"
  using admit_nodes by (fastforce simp: find_by_machine_def)

lemma admit_unknown:
  assumes "admit J now m q s w = (Inr (Some (e, t, sh)), s', w')" "find_by_machine m s = None"
  shows "\<exists>c. rr_auth q \<noteq> [] \<and> consume_preauth J now (rr_auth q) s w = (Inr (Some c), s', w') \<and>
    e = pc_ephemeral c \<and> t = pc_token c \<and> sh = pc_shared c"
  using assms by (auto simp: admit_def split: if_splits prod.splits sum.splits option.splits)

lemma register_node_fresh:
  assumes "register_node J N m nk h e t sh s w = (r, s', w')" "find_by_machine m s = None" "find_by_machine m s' = Some n"
  shows "nd_token n = t \<and> nd_shared n = sh \<and> nd_ephemeral n = e"
  using assms
  by (auto simp: register_node_new find_by_machine_def find_append fresh_node_def bump_counters_def
      dest!: save_and_return_cases(1) split: sum.splits option.splits)

lemma json_reply_state: "json_reply J sid j (h, x) = (r, h', x') \<Longrightarrow> x' = x"
  by (auto simp: json_reply_def split: option.splits)

text \<open>A registration either leaves the nodes alone or runs one \<^verbatim>\<open>register_node\<close> that was admitted.\<close>

lemma on_register_outcome:
  assumes "on_register E K sid m body (h, I, w, live) = (r, h', I', w', live')"
  shows "(st_nodes (im_store I') = st_nodes (im_store I) \<and> im_map_gen I' = im_map_gen I) \<or>
    (\<exists>req q e t sh s1 w1 r2. parse_body (lib_json E) body = Some req \<and> register_fields (lib_json E) req = Inr q \<and>
       admit (lib_json E) (ck_unix K) m q (im_store I) w = (Inr (Some (e, t, sh)), s1, w1) \<and>
       register_node (lib_json E) (lib_inet6 E) m (rr_node_key q) (rr_host q) e t sh s1 w1 = (r2, im_store I', w') \<and>
       im_map_gen I' = (case r2 of Inl _ \<Rightarrow> im_map_gen I | Inr _ \<Rightarrow> im_map_gen I + 1) \<and> (r = Inr () \<longrightarrow> \<not> isl r2))"
proof -
  let ?J = "lib_json E"
  show ?thesis
  proof (cases "parse_body ?J body")
    case (Some req)
    show ?thesis
    proof (cases "register_fields ?J req")
      case (Inr q)
      obtain a s1 w1 where a: "admit ?J (ck_unix K) m q (im_store I) w = (a, s1, w1)" by (metis prod_cases3)
      show ?thesis
      proof (cases "\<exists>e t sh. a = Inr (Some (e, t, sh))")
        case True
        then obtain e t sh where ets: "a = Inr (Some (e, t, sh))" by blast
        obtain r2 s2 w2 where reg: "register_node ?J (lib_inet6 E) m (rr_node_key q) (rr_host q) e t sh s1 w1 = (r2, s2, w2)"
          by (metis prod_cases3)
        have "im_store I' = s2 \<and> w' = w2 \<and> im_map_gen I' = (case r2 of Inl _ \<Rightarrow> im_map_gen I | Inr _ \<Rightarrow> im_map_gen I + 1) \<and>
            (r = Inr () \<longrightarrow> \<not> isl r2)"
          using assms Some Inr a ets reg
          by (cases r2) (auto simp: on_register_def Let_def bump_map_def dest!: json_reply_state)
        then show ?thesis using Some Inr a ets reg by blast
      next
        case False
        then have "im_store I' = s1" "im_map_gen I' = im_map_gen I"
          using assms Some Inr a
          by (auto simp: on_register_def Let_def dest!: json_reply_state split: sum.splits option.splits)
        then show ?thesis using admit_nodes [OF a] by simp
      qed
    qed (use assms Some in \<open>auto simp: on_register_def Let_def\<close>)
  qed (use assms in \<open>auto simp: on_register_def Let_def\<close>)
qed

lemma on_register_bumps:
  assumes "on_register E K sid m body (h, I, w, live) = (Inr (), h', I', w', live')"
    and "find_by_machine m (im_store I) = None" "find_by_machine m (im_store I') \<noteq> None"
  shows "im_map_gen I' = im_map_gen I + 1"
proof -
  have "st_nodes (im_store I') \<noteq> st_nodes (im_store I)" using assms(2,3) by (auto simp: find_by_machine_def)
  then obtain r2 :: "NodeState res" where
    "im_map_gen I' = (case r2 of Inl _ \<Rightarrow> im_map_gen I | Inr _ \<Rightarrow> im_map_gen I + 1)" "\<not> isl r2"
    using on_register_outcome [OF assms(1)] by blast
  then show ?thesis by (cases r2) simp_all
qed

text \<open>
  C6: Nobody enters the registry without a preauth key. If a machine is unknown before a
  registration request and known after it, the request carried a key that was honoured at that
  moment (it existed, was not expired and, if one-shot, not used), and the new node carries the
  mesh group and the flags of that key.
\<close>

theorem admission_needs_key:
  assumes "on_register E K sid m body (h, I, w, live) = (r, h', I', w', live')"
    and "find_by_machine m (im_store I) = None" "find_by_machine m (im_store I') = Some n"
  shows "\<exists>req q s0 k. parse_body (lib_json E) body = Some req \<and> register_fields (lib_json E) req = Inr q \<and>
    rr_auth q \<noteq> [] \<and> reload_keys_from_disk (lib_json E) (im_store I) w = (Inr (), s0) \<and>
    find (\<lambda>k. pk_key k = rr_auth q) (st_keys s0) = Some k \<and>
    (pk_expires_unix k = 0 \<or> ck_unix K \<le> pk_expires_unix k) \<and> (pk_reusable k \<or> \<not> pk_used k) \<and>
    nd_token n = pk_token k \<and> nd_shared n = pk_shared k \<and> nd_ephemeral n = pk_ephemeral k"
proof -
  let ?J = "lib_json E"
  obtain req q e t sh s1 w1 r2 where o: "parse_body ?J body = Some req" "register_fields ?J req = Inr q"
    and a: "admit ?J (ck_unix K) m q (im_store I) w = (Inr (Some (e, t, sh)), s1, w1)"
    and reg: "register_node ?J (lib_inet6 E) m (rr_node_key q) (rr_host q) e t sh s1 w1 = (r2, im_store I', w')"
    using on_register_outcome [OF assms(1)] assms(2,3) by (auto simp: find_by_machine_def)
  obtain c where c: "rr_auth q \<noteq> []" "consume_preauth ?J (ck_unix K) (rr_auth q) (im_store I) w = (Inr (Some c), s1, w1)"
    "e = pc_ephemeral c" "t = pc_token c" "sh = pc_shared c" using admit_unknown [OF a assms(2)] by blast
  obtain s0 k where k: "reload_keys_from_disk ?J (im_store I) w = (Inr (), s0)" "find_key (rr_auth q) s0 = Some k"
    "usable (ck_unix K) k" "c = claim_of k" using consume_preauth_success [OF c(2)] by blast
  have "find_by_machine m s1 = None" using admit_lookup [OF a] assms(2) by simp
  then have "nd_token n = t \<and> nd_shared n = sh \<and> nd_ephemeral n = e"
    using register_node_fresh [OF reg] assms(3) by simp
  then show ?thesis using o c k by (auto simp: usable_def claim_of_def)
qed

lemma on_register_lookup:
  assumes "on_register E K sid m body (h, I, w, live) = (r, h', I', w', live')"
    and "find_by_machine m' (im_store I) = Some n0"
  shows "\<exists>n1. find_by_machine m' (im_store I') = Some n1 \<and> identity n1 = identity n0 \<and> (m' \<noteq> m \<longrightarrow> n1 = n0)"
  using on_register_outcome [OF assms(1)]
proof (elim disjE exE conjE)
  fix req q e t sh s1 w1 r2
  assume a: "admit (lib_json E) (ck_unix K) m q (im_store I) w = (Inr (Some (e, t, sh)), s1, w1)"
    and reg: "register_node (lib_json E) (lib_inet6 E) m (rr_node_key q) (rr_host q) e t sh s1 w1 = (r2, im_store I', w')"
  have "find_by_machine m' s1 = Some n0" using admit_lookup [OF a] assms(2) by simp
  then show ?thesis
    using registry.register_keeps_identity [OF reg, of m' n0] registry.register_other [OF reg, of m'] by force
qed (use assms(2) in \<open>simp add: find_by_machine_def\<close>)

text \<open>
  A registration request touches no node but the caller's own, and a caller that is already
  known keeps its id, addresses and mesh group.
\<close>

theorem register_touches_only_caller:
  assumes "on_register E K sid m body (h, I, w, live) = (r, h', I', w', live')"
    and "find_by_machine m' (im_store I) = Some n0"
  shows "\<exists>n1. find_by_machine m' (im_store I') = Some n1 \<and> identity n1 = identity n0 \<and> (m' \<noteq> m \<longrightarrow> n1 = n0)"
  by (rule on_register_lookup [OF assms])

text \<open>
  A machine that is unknown and whose key is missing or refused is told so, and nothing is
  registered: the nodes and the map generation stay as they are.
\<close>

theorem refused_machine_is_told:
  assumes "parse_body (lib_json E) body = Some req" "register_fields (lib_json E) req = Inr q"
    and "find_by_machine m (im_store I) = None"
    and "rr_auth q = [] \<and> s1 = im_store I \<and> w1 = w \<or>
      rr_auth q \<noteq> [] \<and> consume_preauth (lib_json E) (ck_unix K) (rr_auth q) (im_store I) w = (Inr None, s1, w1)"
    and "nl_dump (lib_json E) denied_response = Some text"
  shows "on_register E K sid m body (h, I, w, live) =
      (Inr (), reply sid 200 ''application/json'' (bytes_of_string text) h, I\<lparr>im_store := s1\<rparr>, w1, live) \<and>
    st_nodes s1 = st_nodes (im_store I)"
proof -
  have a: "admit (lib_json E) (ck_unix K) m q (im_store I) w = (Inr None, s1, w1)"
    using assms(3,4) by (auto simp: admit_def)
  then show ?thesis
    using admit_nodes [OF a] assms(1,2,5) by (simp add: on_register_def Let_def json_reply_def)
qed

section \<open>What a map request reveals\<close>

lemma filter_update_first:
  assumes "find Q xs = Some x" "P x" "P (f x)"
  shows "filter P (update_first Q f xs) = update_first Q f (filter P xs)"
  using assms
proof (induction xs)
  case (Cons a xs)
  then show ?case by (cases "Q a"; cases "P a") simp_all
qed simp

lemma update_first_comp:
  assumes "\<And>x. Q (f x) = Q x"
  shows "update_first Q g (update_first Q f xs) = update_first Q (\<lambda>x. g (f x)) xs"
proof (induction xs)
  case (Cons a xs)
  then show ?case using assms by (cases "Q a") simp_all
qed simp

text \<open>What a map request changes in the caller's node.\<close>

definition map_update :: "map_req \<Rightarrow> json \<Rightarrow> NodeState \<Rightarrow> NodeState" where
  "map_update q req n =
     (if mr_readonly q then n
      else n\<lparr>nd_node_key := (if mr_node_key q \<noteq> [] then mr_node_key q else nd_node_key n),
             nd_disco_key := (if mr_disco_key q \<noteq> [] then mr_disco_key q else nd_disco_key n),
             nd_hostname := (if mr_host q \<noteq> [] then mr_host q else nd_hostname n),
             nd_endpoints := endpoints_from_req req\<rparr>)\<lparr>nd_online := True\<rparr>"

lemma map_update_identity [simp]: "identity (map_update q req n) = identity n"
  by (simp add: map_update_def)

lemma identity_fields:
  assumes "identity a = identity b"
  shows "nd_id a = nd_id b" "nd_machine_key a = nd_machine_key b" "nd_token a = nd_token b" "nd_shared a = nd_shared b"
  using assms by (simp_all add: identity_def)

lemma visible_identity:
  "identity a = identity a' \<Longrightarrow> identity b = identity b' \<Longrightarrow> node_visible_to a b = node_visible_to a' b'"
  by (simp add: node_visible_iff identity_def)

lemma on_map_answer_outcome:
  assumes "on_map_answer E K sid m body (h, I, w) = (Inr a, h', I', w')"
  shows "(parse_body (lib_json E) body = None \<and> a = None \<and>
      h' = reply sid 400 ''application/json'' (bytes_of_string ''{}'') h \<and> I' = I) \<or>
    (\<exists>req q. parse_body (lib_json E) body = Some req \<and> map_fields (lib_json E) req = Inr q \<and>
       st_nodes (im_store I') = update_first (\<lambda>n. nd_machine_key n = m) (map_update q req) (st_nodes (im_store I)) \<and>
       im_cfg I' = im_cfg I \<and> map_response E K sid m q I' h = Inr (a, h'))"
proof -
  let ?J = "lib_json E" and ?Q = "\<lambda>n. nd_machine_key n = m"
  show ?thesis
  proof (cases "parse_body ?J body")
    case (Some req)
    then obtain q where q: "map_fields ?J req = Inr q"
      using assms by (auto simp: on_map_answer_def Let_def split: sum.splits)
    obtain r1 s1 w1 where u: "(if mr_readonly q then (Inr (), im_store I, w)
        else update_map_info ?J m (mr_node_key q) (mr_disco_key q) (mr_host q) (endpoints_from_req req) (im_store I) w) = (r1, s1, w1)"
      by (metis prod_cases3)
    have nodes: "update_first ?Q (\<lambda>n. n\<lparr>nd_online := True\<rparr>) (st_nodes s1) =
        update_first ?Q (map_update q req) (st_nodes (im_store I))"
    proof (cases "mr_readonly q")
      case True
      then show ?thesis using u by (simp add: map_update_def [abs_def])
    next
      case False
      then have "st_nodes s1 = update_first ?Q (\<lambda>n. n\<lparr>nd_node_key := (if mr_node_key q \<noteq> [] then mr_node_key q else nd_node_key n),
             nd_disco_key := (if mr_disco_key q \<noteq> [] then mr_disco_key q else nd_disco_key n),
             nd_hostname := (if mr_host q \<noteq> [] then mr_host q else nd_hostname n),
             nd_endpoints := endpoints_from_req req, nd_online := True\<rparr>) (st_nodes (im_store I))"
        using u by (auto simp: update_map_info_def Let_def find_None_all dest!: save_and_return_cases(1) split: option.splits)
      then show ?thesis using False by (simp add: update_first_comp map_update_def [abs_def])
    qed
    show ?thesis
      using assms Some q u nodes
      by (auto simp: on_map_answer_def Let_def bump_map_def set_online_def split: sum.splits prod.splits if_splits)
  qed (use assms in \<open>auto simp: on_map_answer_def Let_def\<close>)
qed

lemma map_response_cong:
  assumes "find_by_machine m (im_store I1) = find_by_machine m (im_store I2)"
    and "\<And>self. find_by_machine m (im_store I1) = Some self \<Longrightarrow>
      filter (node_visible_to self) (st_nodes (im_store I1)) = filter (node_visible_to self) (st_nodes (im_store I2))"
    and "cf_domain (im_cfg I1) = cf_domain (im_cfg I2)"
  shows "map_response E K sid m q I1 h = map_response E K sid m q I2 h"
proof (cases "find_by_machine m (im_store I1)")
  case (Some self)
  have "map_frame_for E K self z I1 = map_frame_for E K self z I2" for z
    unfolding map_frame_for_def assms(3) build_full_map_cong [OF assms(2) [OF Some]] ..
  moreover have "find_by_machine m (im_store I2) = Some self" using assms(1) Some by simp
  ultimately show ?thesis using Some by (simp add: map_response_def)
qed (use assms(1) in \<open>simp add: map_response_def\<close>)

text \<open>
  C14: Map requests are non-interfering end to end. If two coordinators agree on the caller's
  node and on the nodes visible to it, the same request is answered by the same octets on the
  same stream, whatever other groups are registered, and whatever else differs in their stores,
  files and generations.
\<close>

theorem map_request_isolation:
  assumes self: "find_by_machine m (im_store I1) = Some self" "find_by_machine m (im_store I2) = Some self"
    and vis: "filter (node_visible_to self) (st_nodes (im_store I1)) = filter (node_visible_to self) (st_nodes (im_store I2))"
    and dom: "cf_domain (im_cfg I1) = cf_domain (im_cfg I2)"
    and run1: "on_map_answer E K sid m body (h, I1, w1) = (Inr a1, h1, I1', w1')"
    and run2: "on_map_answer E K sid m body (h, I2, w2) = (Inr a2, h2, I2', w2')"
  shows "h1 = h2 \<and> a1 = a2"
proof (cases "parse_body (lib_json E) body")
  case None
  then show ?thesis using on_map_answer_outcome [OF run1] on_map_answer_outcome [OF run2] by auto
next
  case (Some req)
  let ?Q = "\<lambda>n. nd_machine_key n = m"
  obtain q where q: "map_fields (lib_json E) req = Inr q"
    and n1: "st_nodes (im_store I1') = update_first ?Q (map_update q req) (st_nodes (im_store I1))" "im_cfg I1' = im_cfg I1"
    and r1: "map_response E K sid m q I1' h = Inr (a1, h1)"
    using on_map_answer_outcome [OF run1] Some by auto
  have n2: "st_nodes (im_store I2') = update_first ?Q (map_update q req) (st_nodes (im_store I2))" "im_cfg I2' = im_cfg I2"
    and r2: "map_response E K sid m q I2' h = Inr (a2, h2)"
    using on_map_answer_outcome [OF run2] Some q by auto
  let ?self = "map_update q req self"
  have mk: "?Q (map_update q req n) = ?Q n" for n using identity_fields(2) [OF map_update_identity] by simp
  have f: "find_by_machine m (im_store I1') = Some ?self" "find_by_machine m (im_store I2') = Some ?self"
    using self mk by (simp_all add: find_by_machine_def n1(1) n2(1) find_update_first)
  have v: "node_visible_to ?self n = node_visible_to self n" for n by (rule visible_identity) simp_all
  have vv: "node_visible_to self self" "node_visible_to self ?self"
    using visible_identity [of self self ?self self] by (simp_all add: node_visible_iff)
  have "filter (node_visible_to ?self) (st_nodes (im_store I1')) = filter (node_visible_to ?self) (st_nodes (im_store I2'))"
    using filter_update_first [where P = "node_visible_to self" and f = "map_update q req", OF self(1) [unfolded find_by_machine_def] vv]
      filter_update_first [where P = "node_visible_to self" and f = "map_update q req", OF self(2) [unfolded find_by_machine_def] vv] vis
    by (simp add: v [abs_def] n1(1) n2(1))
  then have "map_response E K sid m q I1' h = map_response E K sid m q I2' h"
    using f dom n1(2) n2(2) by (intro map_response_cong) auto
  then show ?thesis using r1 r2 by simp
qed

section \<open>Fan-out\<close>

lemma tick_one_effect:
  assumes "tick_one E K gen I m h = (Inr (), m', h')"
  shows "lm_last_gen m' = gen \<and> lm_stream_id m' = lm_stream_id m \<and>
    (\<forall>k. k \<noteq> lm_stream_id m \<longrightarrow> h2_streams h' k = h2_streams h k) \<and>
    (\<forall>self st. gen \<noteq> lm_last_gen m \<and> find_by_machine (lm_machine m) (im_store I) = Some self \<and>
        h2_streams h (lm_stream_id m) = Some st \<longrightarrow>
        (\<exists>f. map_frame_for E K self (lm_zstd m) I = Inr f \<and> h2_streams h' (lm_stream_id m) = Some (stream_push f st)))"
  using assms
  by (auto simp: tick_one_def Let_def push_data_def stream_push_def split: if_splits option.splits sum.splits)

lemma tick_all_effect:
  assumes "tick_all E K gen I ms h = (Inr (), ms', h')" "distinct (map lm_stream_id ms)"
  shows "list_all (\<lambda>m. lm_last_gen m = gen) ms' \<and> map lm_stream_id ms' = map lm_stream_id ms \<and>
    (\<forall>k. k \<notin> set (map lm_stream_id ms) \<longrightarrow> h2_streams h' k = h2_streams h k) \<and>
    (\<forall>m self st. m \<in> set ms \<and> gen \<noteq> lm_last_gen m \<and> find_by_machine (lm_machine m) (im_store I) = Some self \<and>
        h2_streams h (lm_stream_id m) = Some st \<longrightarrow>
        (\<exists>f. map_frame_for E K self (lm_zstd m) I = Inr f \<and> h2_streams h' (lm_stream_id m) = Some (stream_push f st)))"
  using assms
proof (induction ms arbitrary: h ms' h')
  case (Cons m ms)
  obtain r1 m1 h1 where 1: "tick_one E K gen I m h = (r1, m1, h1)" by (metis prod_cases3)
  obtain r2 ms2 h2 where 2: "tick_all E K gen I ms h1 = (r2, ms2, h2)" by (metis prod_cases3)
  have r: "r1 = Inr ()" "r2 = Inr ()" "ms' = m1 # ms2" "h' = h2"
    using Cons.prems(1) 1 2 by (auto split: sum.splits)
  have one: "lm_last_gen m1 = gen" "lm_stream_id m1 = lm_stream_id m"
      "\<And>k. k \<noteq> lm_stream_id m \<Longrightarrow> h2_streams h1 k = h2_streams h k"
    and one': "\<And>self st. gen \<noteq> lm_last_gen m \<Longrightarrow> find_by_machine (lm_machine m) (im_store I) = Some self \<Longrightarrow>
        h2_streams h (lm_stream_id m) = Some st \<Longrightarrow>
        \<exists>f. map_frame_for E K self (lm_zstd m) I = Inr f \<and> h2_streams h1 (lm_stream_id m) = Some (stream_push f st)"
    using tick_one_effect [OF 1 [unfolded r(1)]] by blast+
  have d: "distinct (map lm_stream_id ms)" "lm_stream_id m \<notin> set (map lm_stream_id ms)" using Cons.prems(2) by simp_all
  note rest = Cons.IH [OF 2 [unfolded r(2)] d(1)]
  show ?case
  proof (intro conjI allI impI, goal_cases)
    case (4 n self st)
    show ?case
    proof (cases "n = m")
      case True
      then show ?thesis using 4 one' [of self st] rest d(2) by (simp add: r(4))
    next
      case False
      with 4 have n: "n \<in> set ms" by simp
      then have "lm_stream_id n \<noteq> lm_stream_id m" using d(2) by (metis image_eqI set_map)
      with 4 n have "n \<in> set ms" "h2_streams h1 (lm_stream_id n) = Some st" using one(3) by auto
      then show ?thesis using 4 rest by (simp add: r(4))
    qed
  qed (use rest one r in auto)
qed simp

text \<open>
  The fan-out misses no long poll. When a tick completes, every long poll of the connection
  that had not seen the current map generation has exactly one frame appended to its stream, the
  current map of its machine, and all long polls have caught up with the generation.
\<close>

theorem tick_delivers_current_map:
  assumes "on_tick E K (h, I, w, live) = (Inr (), h', I', w', live')" "distinct (map lm_stream_id live)"
    and "m \<in> set live" "lm_last_gen m \<noteq> im_map_gen I"
    and "find_by_machine (lm_machine m) (im_store I) = Some self" "h2_streams h (lm_stream_id m) = Some st"
  shows "I' = I \<and> w' = w \<and> list_all (\<lambda>m. lm_last_gen m = im_map_gen I) live' \<and>
    (\<exists>f. map_frame_for E K self (lm_zstd m) I = Inr f \<and>
       h2_streams h' (lm_stream_id m) = Some (st\<lparr>s_out := s_out st @ f\<rparr>))"
proof -
  have t: "tick_all E K (im_map_gen I) I live h = (Inr (), live', h')" "I' = I" "w' = w"
    using assms(1) by (auto simp: on_tick_def split: prod.splits)
  have "im_map_gen I \<noteq> lm_last_gen m" using assms(4) by simp
  then show ?thesis
    using t tick_all_effect [OF t(1) assms(2)] assms(3,5,6) by (auto simp: stream_push_def)
qed

text \<open>The machine keys of the peers in a map.\<close>

definition map_machines :: "json \<Rightarrow> json set" where
  "map_machines j = (\<lambda>p. the (json_find p ''Machine'')) ` set (map_peers j)"

lemma map_machines_full:
  "JStr b \<in> map_machines (build_full_map created now self all domain) \<longleftrightarrow>
   (\<exists>n\<in>set all. node_visible_to self n \<and> nd_id n \<noteq> nd_id self \<and> nd_machine_key n = b)"
  by (auto simp: map_machines_def map_peers_full image_iff)

text \<open>
  C34: A change can be missed by a long poll that is just starting. The first frame is built
  from the registry, but the generation recorded for the long poll is read later: if another
  connection registers a machine in between, the long poll is entered as up to date although its
  only frame does not show that machine, and the next tick sends nothing.
\<close>

theorem long_poll_misses_update:
  assumes "on_map_answer E K sid m body (h, I, w) = (Inr (Some z), h1, I1, w1)"
    and "on_register E K' sid' b body' (hb, I1, w1, liveb) = (Inr (), hb', I2, w2, liveb')"
    and "find_by_machine b (im_store I1) = None" "find_by_machine b (im_store I2) = Some n"
    and "0 < cf_keepalive (im_cfg I2)"
  shows "\<exists>self first. find_by_machine m (im_store I2) = Some self \<and>
    map_frame_for E K self z I1 = Inr first \<and> h1 = reply_stream_start sid 200 first h \<and>
    on_tick E K (h1, I2, w2, on_map_enlist K sid m z I2 []) = (Inr (), h1, I2, w2, on_map_enlist K sid m z I2 []) \<and>
    JStr b \<notin> map_machines (build_full_map (ck_created K) (ck_now K) self (st_nodes (im_store I1)) domain) \<and>
    (node_visible_to self n \<and> nd_id n \<noteq> nd_id self \<longrightarrow>
       JStr b \<in> map_machines (build_full_map (ck_created K) (ck_now K) self (st_nodes (im_store I2)) domain))"
proof -
  obtain q where "map_response E K sid m q I1 h = Inr (Some z, h1)"
    using on_map_answer_outcome [OF assms(1)] by auto
  then obtain self first where f: "find_by_machine m (im_store I1) = Some self"
      "map_frame_for E K self z I1 = Inr first" "h1 = reply_stream_start sid 200 first h"
    by (auto simp: map_response_def res_bind_Inr split: if_splits option.splits)
  have "m \<noteq> b" using f(1) assms(3) by auto
  then have "find_by_machine m (im_store I2) = Some self"
    using on_register_lookup [OF assms(2) f(1)] by auto
  moreover have "on_tick E K (h1, I2, w2, on_map_enlist K sid m z I2 []) = (Inr (), h1, I2, w2, on_map_enlist K sid m z I2 [])"
    using assms(5) by (simp add: on_tick_def on_map_enlist_def tick_one_def)
  moreover have "JStr b \<notin> map_machines (build_full_map (ck_created K) (ck_now K) self (st_nodes (im_store I1)) domain)"
    using assms(3) by (auto simp: map_machines_full find_by_machine_def find_None_all)
  moreover have "n \<in> set (st_nodes (im_store I2)) \<and> nd_machine_key n = b"
    using assms(4) find_Some_in by (fastforce simp: find_by_machine_def)
  ultimately show ?thesis using f by (auto simp: map_machines_full)
qed

section \<open>Witnesses\<close>

definition demo_libs :: libs where
  "demo_libs = \<lparr>lib_json = ref_json, lib_inet6 = hex_inet6, lib_ssl = ref_openssl, lib_zstd = Some\<rparr>"

definition demo_clock :: clock where
  "demo_clock = \<lparr>ck_unix = 100, ck_now = 101, ck_created = (\<lambda>_. 102), ck_steady = 0\<rparr>"

definition demo_impl :: "Store \<Rightarrow> Impl" where
  "demo_impl s = \<lparr>im_cfg = default_Config, im_store = s, im_bootstrap_key = [], im_bound = [], im_listen_fd = -1,
     im_running = False, im_stop = False, im_accept_thread = False, im_dns = None, im_map_gen = 1\<rparr>"

definition demo_register_body :: string where
  "demo_register_body = ref_text (obj [(''NodeKey'', JStr ''nodekey:bb''), (''AuthKey'', JStr ''wbkey-1'')])"

lemma demo_libs_simps [simp]:
  "lib_json demo_libs = ref_json" "lib_inet6 demo_libs = hex_inet6" "lib_zstd demo_libs = Some"
  "ck_unix demo_clock = 100" "ck_steady demo_clock = 0" "im_store (demo_impl s) = s" "im_map_gen (demo_impl s) = 1"
  "im_cfg (demo_impl s) = default_Config"
  by (simp_all add: demo_libs_def demo_clock_def demo_impl_def)

lemma demo_register_fields:
  "parse_body ref_json demo_register_body = Some (obj [(''NodeKey'', JStr ''nodekey:bb''), (''AuthKey'', JStr ''wbkey-1'')])"
  "register_fields ref_json (obj [(''NodeKey'', JStr ''nodekey:bb''), (''AuthKey'', JStr ''wbkey-1'')]) =
     Inr \<lparr>rr_node_key = ''nodekey:bb'', rr_host = [], rr_auth = ''wbkey-1'', rr_ephemeral = False\<rparr>"
  by (simp_all add: parse_body_def demo_register_body_def register_fields_def auth_from_req_def
      hostname_from_hostinfo_def json_value_obj)

text \<open>The key file of \<^const>\<open>demo_world\<close> admits a machine to any store that uses it.\<close>

lemma demo_consume_any:
  assumes "st_path s = ''state.json''" "\<not> st_persist_hook s"
  defines "s' \<equiv> mark_used ''wbkey-1'' (s\<lparr>st_keys := [demo_key]\<rparr>)"
  shows "consume_preauth ref_json 100 ''wbkey-1'' s demo_world =
    (Inr (Some (claim_of demo_key)), s', snd (save_locked ref_json s' demo_world))"
proof -
  have "reload_read ref_json s demo_world = Some (JArr (map key_to_json [demo_key]))"
    using assms(1) by (simp add: reload_read_def readable_def demo_world_def demo_store_def snapshot_locked_def)
  then have "reload_keys_from_disk ref_json s demo_world = (Inr (), s\<lparr>st_keys := [demo_key]\<rparr>)"
    using reload_install_keys [OF ref_json_laws, of "[demo_key]" s]
    by (simp add: reload_keys_from_disk_def demo_key_def int32_range_def)
  moreover have "usable 100 demo_key" by (simp add: usable_def demo_key_def)
  moreover have "find_key ''wbkey-1'' (s\<lparr>st_keys := [demo_key]\<rparr>) = Some demo_key" by (simp add: demo_key_def)
  moreover have "save_locked ref_json s' demo_world = (Inr (), snd (save_locked ref_json s' demo_world))"
    using assms(1,2) by (intro demo_save) (simp_all add: s'_def)
  ultimately show ?thesis
    by (simp add: consume_preauth_def consume_locked_eq save_and_return_Inr s'_def)
qed

lemma demo_on_register:
  assumes "st_path s = ''state.json''" "\<not> st_persist_hook s" "st_alloc s = cgnat"
    and "find_by_machine ''mkey:bb'' s = None" "0 < st_next_ip_index s" "st_next_ip_index s \<le> 9"
  shows "\<exists>n s2 w2. on_register demo_libs demo_clock sid ''mkey:bb'' demo_register_body (h, demo_impl s, demo_world, live) =
      (Inr (), reply sid 200 ''application/json'' (bytes_of_string (ref_text build_register_response)) h,
       bump_map (demo_impl s2), w2, live) \<and>
    find_by_machine ''mkey:bb'' s2 = Some n \<and> nd_id n = st_next_node_id s \<and> nd_token n = ''alpha'' \<and>
    (st_nodes s = [] \<and> st_next_node_id s = 1 \<and> st_next_ip_index s = 1 \<and> length (st_noise_private s) = 32 \<longrightarrow> snapshot_fits s2)"
proof -
  define s1 where "s1 = mark_used ''wbkey-1'' (s\<lparr>st_keys := [demo_key]\<rparr>)"
  define w1 where "w1 = snd (save_locked ref_json s1 demo_world)"
  have s1: "find_by_machine m s1 = find_by_machine m s" "st_alloc s1 = cgnat" "st_next_ip_index s1 = st_next_ip_index s"
    "st_next_node_id s1 = st_next_node_id s" "st_path s1 = ''state.json''" "\<not> st_persist_hook s1" for m
    using assms(1-3) by (simp_all add: s1_def find_by_machine_def)
  have a: "admit ref_json 100 ''mkey:bb'' \<lparr>rr_node_key = ''nodekey:bb'', rr_host = [], rr_auth = ''wbkey-1'', rr_ephemeral = False\<rparr> s demo_world =
      (Inr (Some (False, ''alpha'', False)), s1, w1)"
    using demo_consume_any [OF assms(1,2)] assms(4)
    by (simp add: admit_def s1_def w1_def claim_of_def demo_key_def)
  have "st_next_ip_index s \<le> ipv4_hosts cgnat" using assms(6) order_trans [of "st_next_ip_index s" 9] by (simp add: cgnat_def)
  then obtain p where p: "address_for hex_inet6 (st_alloc s1) (st_next_ip_index s1) = Inr p"
    using pool.addr_defined [of "st_next_ip_index s" cgnat hex_inet6] assms(5) s1(2,3) by auto
  let ?n = "fresh_node ''mkey:bb'' ''nodekey:bb'' [] False ''alpha'' False p s1"
  let ?s2 = "(bump_counters s1)\<lparr>st_nodes := st_nodes s1 @ [?n]\<rparr>"
  have w1: "w_can_open w1 = w_can_open demo_world" "w_can_rename w1 = w_can_rename demo_world"
    using ref_save(2,3) [of demo_world s1] s1 by (simp_all add: w1_def demo_world_def)
  have "fst (save_locked ref_json ?s2 w1) = Inr ()"
    using w1 s1 by (intro ref_save(1)) (simp_all add: demo_world_def bump_counters_def)
  then obtain w2 where "save_locked ref_json ?s2 w1 = (Inr (), w2)" by (metis prod.collapse)
  then have reg: "register_node ref_json hex_inet6 ''mkey:bb'' ''nodekey:bb'' [] False ''alpha'' False s1 w1 = (Inr ?n, ?s2, w2)"
    using s1(1) assms(4) p by (simp add: register_node_new save_and_return_Inr)
  have "find_by_machine ''mkey:bb'' ?s2 = Some ?n"
    using registry.register_lookup [OF reg] .
  moreover have "on_register demo_libs demo_clock sid ''mkey:bb'' demo_register_body (h, demo_impl s, demo_world, live) =
      (Inr (), reply sid 200 ''application/json'' (bytes_of_string (ref_text build_register_response)) h,
       bump_map (demo_impl ?s2), w2, live)"
    using a reg by (simp add: on_register_def Let_def demo_register_fields json_reply_def) (simp add: demo_impl_def)
  moreover have "nd_id ?n = st_next_node_id s" "nd_token ?n = ''alpha''" by (simp_all add: fresh_node_def s1(4))
  moreover have "st_nodes s = [] \<and> st_next_node_id s = 1 \<and> st_next_ip_index s = 1 \<and> length (st_noise_private s) = 32 \<longrightarrow> snapshot_fits ?s2"
    by (auto simp: snapshot_fits_def s1_def bump_counters_def fresh_node_def demo_key_def int32_range_def)
  ultimately show ?thesis by blast
qed

lemma demo_store_ready:
  "st_path demo_store = ''state.json''" "\<not> st_persist_hook demo_store" "st_alloc demo_store = cgnat"
  "find_by_machine m demo_store = None" "st_next_ip_index demo_store = 1"
  by (simp_all add: demo_store_def find_by_machine_def)

theorem admission_needs_key_witness:
  "\<exists>h' I' w' n. on_register demo_libs demo_clock 1 ''mkey:bb'' demo_register_body (new_H2, demo_impl demo_store, demo_world, []) =
      (Inr (), h', I', w', []) \<and> find_by_machine ''mkey:bb'' (im_store I') = Some n \<and>
    (\<exists>s0 k. reload_keys_from_disk ref_json demo_store demo_world = (Inr (), s0) \<and>
       find (\<lambda>k. pk_key k = ''wbkey-1'') (st_keys s0) = Some k \<and> nd_token n = pk_token k)"
proof -
  obtain n s2 w2 h' where r: "on_register demo_libs demo_clock 1 ''mkey:bb'' demo_register_body (new_H2, demo_impl demo_store, demo_world, []) =
      (Inr (), h', bump_map (demo_impl s2), w2, [])" and n: "find_by_machine ''mkey:bb'' (im_store (bump_map (demo_impl s2))) = Some n"
    using demo_on_register [of demo_store 1 new_H2 "[]"] demo_store_ready by (auto simp: bump_map_def demo_impl_def)
  have "find_by_machine ''mkey:bb'' (im_store (demo_impl demo_store)) = None" using demo_store_ready by simp
  from admission_needs_key [OF r this n] r n show ?thesis by (auto simp: demo_register_fields)
qed

definition demo_store2 :: Store where
  "demo_store2 = demo_store\<lparr>st_nodes := [demo_node], st_next_node_id := 2, st_next_ip_index := 2\<rparr>"

lemma demo_node_simps:
  "nd_machine_key demo_node = ''mkey:aa''" "nd_token demo_node = ''alpha''" "\<not> nd_shared demo_node" "nd_id demo_node = 1"
  by (simp_all add: demo_node_def fresh_node_def demo_store_def)

lemma demo_store2_ready:
  "st_path demo_store2 = ''state.json''" "\<not> st_persist_hook demo_store2" "st_alloc demo_store2 = cgnat"
  "find_by_machine ''mkey:bb'' demo_store2 = None" "find_by_machine ''mkey:aa'' demo_store2 = Some demo_node"
  "st_next_ip_index demo_store2 = 2" "st_next_node_id demo_store2 = 2" "st_nodes demo_store2 = [demo_node]"
  by (simp_all add: demo_store2_def demo_store_def find_by_machine_def demo_node_simps)

theorem register_touches_only_caller_witness:
  "\<exists>r h' I' w' live'. on_register demo_libs demo_clock 1 ''mkey:bb'' demo_register_body (new_H2, demo_impl demo_store2, demo_world, []) =
      (r, h', I', w', live') \<and> find_by_machine ''mkey:aa'' (im_store I') = Some demo_node"
proof -
  obtain r h' I' w' live' where r: "on_register demo_libs demo_clock 1 ''mkey:bb'' demo_register_body (new_H2, demo_impl demo_store2, demo_world, []) =
      (r, h', I', w', live')" by (metis prod_cases5)
  have "find_by_machine ''mkey:aa'' (im_store (demo_impl demo_store2)) = Some demo_node" using demo_store2_ready by simp
  from register_touches_only_caller [OF r this] r show ?thesis by auto
qed

theorem refused_machine_is_told_witness:
  "on_register demo_libs demo_clock 1 ''mkey:bb'' (ref_text (obj [])) (new_H2, demo_impl demo_store2, demo_world, []) =
     (Inr (), reply 1 200 ''application/json'' (bytes_of_string (ref_text denied_response)) new_H2,
      (demo_impl demo_store2)\<lparr>im_store := demo_store2\<rparr>, demo_world, [])"
proof -
  let ?q = "\<lparr>rr_node_key = [], rr_host = [], rr_auth = [], rr_ephemeral = False\<rparr>"
  have "parse_body (lib_json demo_libs) (ref_text (obj [])) = Some (obj [])" by (simp add: parse_body_def)
  moreover have "register_fields (lib_json demo_libs) (obj []) = Inr ?q"
    by (simp add: register_fields_def auth_from_req_def hostname_from_hostinfo_def json_value_obj)
  moreover have "find_by_machine ''mkey:bb'' (im_store (demo_impl demo_store2)) = None" using demo_store2_ready by simp
  ultimately show ?thesis
    using refused_machine_is_told [of demo_libs "ref_text (obj [])" "obj []" ?q "''mkey:bb''" "demo_impl demo_store2"
        demo_store2 demo_world demo_world demo_clock "ref_text denied_response" 1 new_H2 "[]"] by simp
qed

definition demo_map_body :: string where
  "demo_map_body = ref_text (obj [(''Version'', JInt 68), (''Stream'', JBool True)])"

lemma demo_map_fields:
  "parse_body ref_json demo_map_body = Some (obj [(''Version'', JInt 68), (''Stream'', JBool True)])"
  "map_fields ref_json (obj [(''Version'', JInt 68), (''Stream'', JBool True)]) =
     Inr \<lparr>mr_version = 68, mr_stream = True, mr_omit_peers = False, mr_zstd = False, mr_node_key = [], mr_disco_key = [], mr_host = []\<rparr>"
  by (simp_all add: parse_body_def demo_map_body_def map_fields_def hostname_from_hostinfo_def json_value_obj)

lemma demo_frame: "\<exists>f. map_frame_for demo_libs demo_clock self z I = Inr f"
  by (simp add: map_frame_for_def encode_map_frame_def)

lemma demo_on_map:
  assumes "find_by_machine ''mkey:aa'' s = Some n"
  shows "\<exists>f. on_map_answer demo_libs demo_clock sid ''mkey:aa'' demo_map_body (h, demo_impl s, w) =
    (Inr (Some False), reply_stream_start sid 200 f h, demo_impl (set_online ''mkey:aa'' True s), w)"
proof -
  let ?q = "\<lparr>mr_version = 68, mr_stream = True, mr_omit_peers = False, mr_zstd = False, mr_node_key = [], mr_disco_key = [], mr_host = []\<rparr>"
  let ?I = "demo_impl (set_online ''mkey:aa'' True s)"
  have ro: "mr_readonly ?q" by (simp add: mr_readonly_def)
  have "find_by_machine ''mkey:aa'' (im_store ?I) = Some (n\<lparr>nd_online := True\<rparr>)"
    using assms by (simp add: set_online_def find_by_machine_update)
  moreover obtain f where "map_frame_for demo_libs demo_clock (n\<lparr>nd_online := True\<rparr>) False ?I = Inr f" using demo_frame by blast
  ultimately have "map_response demo_libs demo_clock sid ''mkey:aa'' ?q ?I h = Inr (Some False, reply_stream_start sid 200 f h)"
    by (simp add: map_response_def)
  moreover have "(demo_impl s)\<lparr>im_store := set_online ''mkey:aa'' True s\<rparr> = ?I" by (simp add: demo_impl_def)
  ultimately show ?thesis using ro by (intro exI [of _ f]) (simp add: on_map_answer_def Let_def demo_map_fields)
qed

definition hidden_node :: NodeState where
  "hidden_node = sample_node 7 ''spy'' ''100.64.0.7'' ''beta'' False"

theorem map_request_isolation_witness:
  "\<exists>h1 h2 a1 a2 I1 I2.
     on_map_answer demo_libs demo_clock 1 ''mkey:aa'' demo_map_body (demo_h2, demo_impl demo_store2, demo_world) = (Inr a1, h1, I1, demo_world) \<and>
     on_map_answer demo_libs demo_clock 1 ''mkey:aa'' demo_map_body
       (demo_h2, demo_impl (demo_store2\<lparr>st_nodes := [demo_node, hidden_node]\<rparr>), demo_world) = (Inr a2, h2, I2, demo_world) \<and>
     h1 = h2 \<and> a1 = a2"
proof -
  let ?s = "demo_store2\<lparr>st_nodes := [demo_node, hidden_node]\<rparr>"
  have f: "find_by_machine ''mkey:aa'' demo_store2 = Some demo_node" "find_by_machine ''mkey:aa'' ?s = Some demo_node"
    using demo_store2_ready by (simp_all add: find_by_machine_def demo_node_simps)
  have v: "filter (node_visible_to demo_node) (st_nodes (im_store (demo_impl demo_store2))) =
      filter (node_visible_to demo_node) (st_nodes (im_store (demo_impl ?s)))"
    using demo_store2_ready by (simp add: node_visible_iff demo_node_simps hidden_node_def)
  obtain f1 where 1: "on_map_answer demo_libs demo_clock 1 ''mkey:aa'' demo_map_body (demo_h2, demo_impl demo_store2, demo_world) =
      (Inr (Some False), reply_stream_start 1 200 f1 demo_h2, demo_impl (set_online ''mkey:aa'' True demo_store2), demo_world)"
    using demo_on_map [OF f(1)] by blast
  obtain f2 where 2: "on_map_answer demo_libs demo_clock 1 ''mkey:aa'' demo_map_body (demo_h2, demo_impl ?s, demo_world) =
      (Inr (Some False), reply_stream_start 1 200 f2 demo_h2, demo_impl (set_online ''mkey:aa'' True ?s), demo_world)"
    using demo_on_map [OF f(2)] by blast
  have "find_by_machine ''mkey:aa'' (im_store (demo_impl demo_store2)) = Some demo_node"
    "find_by_machine ''mkey:aa'' (im_store (demo_impl ?s)) = Some demo_node" using f by simp_all
  from map_request_isolation [OF this v _ 1 2] 1 2 show ?thesis by auto
qed

definition demo_live :: LiveMap where
  "demo_live = \<lparr>lm_stream_id = 1, lm_machine = ''mkey:aa'', lm_zstd = False, lm_last_gen = 0, lm_last_send = 0\<rparr>"

theorem tick_delivers_current_map_witness:
  "\<exists>h' live' f. on_tick demo_libs demo_clock (demo_h2, demo_impl demo_store2, demo_world, [demo_live]) =
       (Inr (), h', demo_impl demo_store2, demo_world, live') \<and>
     map_frame_for demo_libs demo_clock demo_node False (demo_impl demo_store2) = Inr f \<and>
     h2_streams h' 1 = Some ((new_Stream 1)\<lparr>s_out := s_out (new_Stream 1) @ f\<rparr>)"
proof -
  have l: "lm_last_gen demo_live \<noteq> im_map_gen (demo_impl demo_store2)" "lm_stream_id demo_live = 1" "\<not> lm_zstd demo_live"
    "find_by_machine (lm_machine demo_live) (im_store (demo_impl demo_store2)) = Some demo_node"
    using demo_store2_ready by (simp_all add: demo_live_def)
  obtain f where "map_frame_for demo_libs demo_clock demo_node False (demo_impl demo_store2) = Inr f" using demo_frame by blast
  then obtain h' live' where t: "on_tick demo_libs demo_clock (demo_h2, demo_impl demo_store2, demo_world, [demo_live]) =
      (Inr (), h', demo_impl demo_store2, demo_world, live')"
    using l by (simp add: on_tick_def tick_one_def Let_def)
  have "distinct (map lm_stream_id [demo_live])" "demo_live \<in> set [demo_live]" by simp_all
  from tick_delivers_current_map [OF t this l(1,4), of "new_Stream 1"] t l(2,3) demo_h2_stream show ?thesis by auto
qed

theorem long_poll_misses_update_witness:
  "\<exists>h1 I1 w1 hb' I2 w2 liveb' self n.
     on_map_answer demo_libs demo_clock 1 ''mkey:aa'' demo_map_body (demo_h2, demo_impl demo_store2, demo_world) = (Inr (Some False), h1, I1, w1) \<and>
     on_register demo_libs demo_clock 1 ''mkey:bb'' demo_register_body (demo_h2, I1, w1, []) = (Inr (), hb', I2, w2, liveb') \<and>
     on_tick demo_libs demo_clock (h1, I2, w2, on_map_enlist demo_clock 1 ''mkey:aa'' False I2 []) =
       (Inr (), h1, I2, w2, on_map_enlist demo_clock 1 ''mkey:aa'' False I2 []) \<and>
     JStr ''mkey:bb'' \<notin> map_machines (build_full_map (ck_created demo_clock) (ck_now demo_clock) self (st_nodes (im_store I1)) ''wirebone.local'')"
proof -
  let ?s = "set_online ''mkey:aa'' True demo_store2"
  have b: "find_by_machine ''mkey:bb'' ?s = None"
    using demo_store2_ready(8) by (simp add: set_online_def find_by_machine_def demo_node_simps)
  obtain f1 where 1: "on_map_answer demo_libs demo_clock 1 ''mkey:aa'' demo_map_body (demo_h2, demo_impl demo_store2, demo_world) =
      (Inr (Some False), reply_stream_start 1 200 f1 demo_h2, demo_impl ?s, demo_world)"
    using demo_on_map [OF demo_store2_ready(5)] by blast
  have "\<exists>n s2 w2. on_register demo_libs demo_clock 1 ''mkey:bb'' demo_register_body (demo_h2, demo_impl ?s, demo_world, []) =
      (Inr (), reply 1 200 ''application/json'' (bytes_of_string (ref_text build_register_response)) demo_h2,
       bump_map (demo_impl s2), w2, []) \<and>
    find_by_machine ''mkey:bb'' s2 = Some n"
    using demo_store2_ready b demo_on_register [of ?s 1 demo_h2 "[]"] by (fastforce simp: set_online_def)
  then obtain n s2 w2 where 2: "on_register demo_libs demo_clock 1 ''mkey:bb'' demo_register_body (demo_h2, demo_impl ?s, demo_world, []) =
      (Inr (), reply 1 200 ''application/json'' (bytes_of_string (ref_text build_register_response)) demo_h2,
       bump_map (demo_impl s2), w2, [])" and n: "find_by_machine ''mkey:bb'' (im_store (bump_map (demo_impl s2))) = Some n"
    by (auto simp: bump_map_def)
  have "0 < cf_keepalive (im_cfg (bump_map (demo_impl s2)))" by (simp add: bump_map_def default_Config_def)
  from long_poll_misses_update [OF 1 2 _ n this, of "''wirebone.local''"] b 1 2 show ?thesis by fastforce
qed

end
