(* ===== verification/Server.thy ===== *)
theory Server
  imports Coordinator_Correct
begin

text \<open>
  Model of the connection handling and of the life cycle in \<^verbatim>\<open>src/src/coordinator.cpp\<close>: the
  routes of the plain HTTP listener, the upgrade to Noise and HTTP/2, the thread that owns a
  client's descriptor, and starting and stopping the listeners. What the library and the
  operating system do during a session is an input: the rounds of the serving loop, each with
  its clock and with what other connections did to the shared coordinator before it. Every
  \<^verbatim>\<open>close\<close> of a descriptor is recorded, so that its ownership can be stated.
\<close>

section \<open>Sessions\<close>

definition h2_dispatch :: "libs \<Rightarrow> clock \<Rightarrow> string \<Rightarrow> conn_state handler" where
  "h2_dispatch E K machine_key sid method path body st =
     (if method \<noteq> ''POST'' then (Inr (), reply sid 405 ''text/plain'' (bytes_of_string ''method not allowed'') (fst st), snd st)
      else if path = ''/machine/register'' then on_register E K sid machine_key body st
      else if path = ''/machine/map'' then on_map E K sid machine_key body st
      else (Inr (), reply sid 404 ''text/plain'' (bytes_of_string ''not found'') (fst st), snd st))"

record session_round =
  sr_clock :: clock
  sr_others :: "Impl \<times> world \<Rightarrow> Impl \<times> world"
  sr_round :: h2_round

text \<open>
  The handler and the tick of a round. Other connections work on the same coordinator at the
  same time; what they did in a round takes effect between its requests and its tick.
\<close>

definition session_tick :: "libs \<Rightarrow> session_round \<Rightarrow> H2 \<times> conn_state \<Rightarrow> unit res \<times> H2 \<times> conn_state" where
  "session_tick E r st =
     (case st of (h, I, w, live) \<Rightarrow> case sr_others r (I, w) of (I', w') \<Rightarrow> on_tick E (sr_clock r) (h, I', w', live))"

definition h2_rounds ::
  "libs \<Rightarrow> string \<Rightarrow> session_round list \<Rightarrow>
   (conn_state handler \<times> (H2 \<times> conn_state \<Rightarrow> unit res \<times> H2 \<times> conn_state) \<times> h2_round) list" where
  "h2_rounds E machine_key rs =
     map (\<lambda>r. (h2_dispatch E (sr_clock r) machine_key, session_tick E r, sr_round r)) rs"

text \<open>
  \<^verbatim>\<open>serve_h2\<close>: \<open>hello\<close> are the callbacks of the session's first flush. \<open>Inr True\<close>: the session is still running; \<open>Inr False\<close>: it ended and the
  node went offline; \<open>Inl\<close>: an exception left the loop.
\<close>

type_synonym session_state = "(NoiseConn \<times> sock) \<times> Impl \<times> world"

definition serve_h2 :: "libs \<Rightarrow> h2_callback list \<Rightarrow> session_round list \<Rightarrow> string \<Rightarrow> session_state \<Rightarrow> bool res \<times> session_state" where
  "serve_h2 E hello rs machine_key st =
     (case st of (c, I, w) \<Rightarrow>
      case new_session (lib_ssl E) hello c (I, w, []) of
        (Inl e, (h, c1, (I1, w1, live))) \<Rightarrow> (Inl e, c1, I1, w1)
      | (Inr _, s1) \<Rightarrow>
          (case h2_run (lib_ssl E) (h2_rounds E machine_key rs) s1 of
             (Inl e, (h, c2, (I2, w2, live))) \<Rightarrow> (Inl e, c2, I2, w2)
           | (Inr True, (h, c2, (I2, w2, live))) \<Rightarrow> (Inr True, c2, I2, w2)
           | (Inr False, (h, c2, (I2, w2, live))) \<Rightarrow>
               (Inr False, c2, bump_map (I2\<lparr>im_store := set_online machine_key False (im_store I2)\<rparr>), w2)))"

section \<open>Connections\<close>

text \<open>A client connection: its socket, the \<^verbatim>\<open>close\<close> calls made on its descriptor, the coordinator.\<close>

record client_conn =
  cc_sock :: sock
  cc_closed :: "int list"
  cc_impl :: Impl
  cc_world :: world

definition close_fd :: "int \<Rightarrow> client_conn \<Rightarrow> client_conn" where
  "close_fd fd C = C\<lparr>cc_closed := cc_closed C @ [fd], cc_sock := (cc_sock C)\<lparr>sk_in := [], sk_send := []\<rparr>\<rparr>"

definition respond :: "int \<Rightarrow> string \<Rightarrow> string \<Rightarrow> string \<Rightarrow> client_conn \<Rightarrow> client_conn" where
  "respond status text ctype body C = C\<lparr>cc_sock := write_http_response status text ctype body (cc_sock C)\<rparr>"

definition send_all :: "bytes \<Rightarrow> client_conn \<Rightarrow> bool \<times> client_conn" where
  "send_all data C =
     (case write_all data (sk_send (cc_sock C)) (sk_out (cc_sock C)) of
        (ok, ws, out) \<Rightarrow> (ok, C\<lparr>cc_sock := (cc_sock C)\<lparr>sk_send := ws, sk_out := out\<rparr>\<rparr>))"

definition switching_protocols :: string where
  "switching_protocols = ''HTTP/1.1 101 Switching Protocols'' @ crlf @ ''Upgrade: tailscale-control-protocol'' @ crlf @
     ''Connection: upgrade'' @ crlf @ crlf"

record session_input =
  si_draw :: "bytes option"
  si_hello :: "h2_callback list"
  si_rounds :: "session_round list"

text \<open>
  The session on an upgraded connection: the \<^verbatim>\<open>NoiseConn\<close> owns the descriptor and closes it
  when it goes out of scope, also when an exception passes. \<open>Inr True\<close> is a session that has not
  ended yet.
\<close>

definition run_session :: "libs \<Rightarrow> session_input \<Rightarrow> int \<Rightarrow> NoiseResult \<Rightarrow> client_conn \<Rightarrow> bool res \<times> client_conn" where
  "run_session E S fd nr C =
     (let machine = format_key Machine (nr_peer_machine_public nr);
          nconn = new_NoiseConn fd (nr_tx_key nr) (nr_rx_key nr)
      in case serve_h2 E (si_hello S) (si_rounds S) machine ((nconn, cc_sock C), cc_impl C, cc_world C) of
           (r, (c', k'), I', w') \<Rightarrow>
             let C1 = C\<lparr>cc_sock := k', cc_impl := I', cc_world := w'\<rparr>;
                 destroyed = (if 0 \<le> nc_fd c' then close_fd (nc_fd c') C1 else C1)
             in case r of
                  Inr True \<Rightarrow> (Inr True, C1)
                | Inr False \<Rightarrow> (Inr False, destroyed)
                | Inl e \<Rightarrow> (Inl e, destroyed))"

definition handle_ts2021 :: "libs \<Rightarrow> session_input \<Rightarrow> int \<Rightarrow> HttpRequest \<Rightarrow> client_conn \<Rightarrow> bool res \<times> client_conn" where
  "handle_ts2021 E S fd req C =
     (let init_b64 = header_get req ''x-tailscale-handshake'' in
      if header_get req ''upgrade'' \<noteq> ''tailscale-control-protocol''
      then (Inr False, close_fd fd (respond 400 ''Bad Request'' ''text/plain'' (''missing upgrade'' @ [CHR 0x0A]) C))
      else if init_b64 = []
      then (Inr False, close_fd fd (respond 400 ''Bad Request'' ''text/plain'' (''missing handshake'' @ [CHR 0x0A]) C))
      else case b64_decode (lib_ssl E) init_b64 of
             Inl _ \<Rightarrow> (Inr False, close_fd fd (respond 400 ''Bad Request'' ''text/plain'' (''bad handshake'' @ [CHR 0x0A]) C))
           | Inr init \<Rightarrow>
               (case send_all (bytes_of_string switching_protocols) C of
                  (False, C1) \<Rightarrow> (Inr False, close_fd fd C1)
                | (True, C1) \<Rightarrow>
                    (case noise_server_handshake (lib_ssl E) (si_draw S) (st_noise_private (im_store (cc_impl C1))) init of
                       Inl e \<Rightarrow> (Inl e, C1)
                     | Inr (Inl msg) \<Rightarrow> (Inr False, close_fd fd C1)
                     | Inr (Inr (resp, nr)) \<Rightarrow>
                         (case send_all resp C1 of
                            (False, C2) \<Rightarrow> (Inr False, close_fd fd C2)
                          | (True, C2) \<Rightarrow> run_session E S fd nr C2))))"

text \<open>
  \<^verbatim>\<open>handle_client\<close>: the outcome is whether the caller still owns the descriptor, or
  \<open>None\<close> while a session is running. The octets read beyond the request head are dropped.
\<close>

definition handle_client :: "libs \<Rightarrow> session_input \<Rightarrow> int \<Rightarrow> client_conn \<Rightarrow> bool option res \<times> client_conn" where
  "handle_client E S fd C =
     (case read_http_request (sk_in (cc_sock C)) of
        (None, cs) \<Rightarrow> (Inr (Some True), C\<lparr>cc_sock := (cc_sock C)\<lparr>sk_in := cs\<rparr>\<rparr>)
      | (Some (req, extra), cs) \<Rightarrow>
          let C1 = C\<lparr>cc_sock := (cc_sock C)\<lparr>sk_in := cs\<rparr>\<rparr> in
          if rq_path req = ''/key'' then
            (case noise_public_text (lib_ssl E) (im_store (cc_impl C1)) of
               Inl e \<Rightarrow> (Inl e, C1)
             | Inr pub \<Rightarrow>
                 (case nl_dump (lib_json E) (obj [(''legacyPublicKey'', JStr zero_machine_key), (''publicKey'', JStr pub)]) of
                    None \<Rightarrow> (Inl Json_type_error, C1)
                  | Some body \<Rightarrow> (Inr (Some True), respond 200 ''OK'' ''application/json'' body C1)))
          else if rq_path req = ''/healthz'' then (Inr (Some True), respond 200 ''OK'' ''text/plain'' (''ok'' @ [CHR 0x0A]) C1)
          else if rq_path req = ''/ts2021'' then
            (case handle_ts2021 E S fd req C1 of
               (Inl e, C2) \<Rightarrow> (Inl e, C2)
             | (Inr running, C2) \<Rightarrow> (Inr (if running then None else Some False), C2))
          else (Inr (Some True), respond 404 ''Not Found'' ''text/plain'' (''not found'' @ [CHR 0x0A]) C1))"

text \<open>The thread of a client; an exception is logged and leaves \<^verbatim>\<open>close_fd\<close> true. \<open>None\<close>: still running.\<close>

definition client_thread :: "libs \<Rightarrow> session_input \<Rightarrow> int \<Rightarrow> client_conn \<Rightarrow> client_conn option" where
  "client_thread E S fd C =
     (case handle_client E S fd C of
        (Inr None, C1) \<Rightarrow> None
      | (Inr (Some owns), C1) \<Rightarrow> Some (if owns \<and> 0 \<le> fd then close_fd fd C1 else C1)
      | (Inl e, C1) \<Rightarrow> Some (if 0 \<le> fd then close_fd fd C1 else C1))"

section \<open>Starting and stopping\<close>

record listen_os =
  lo_socket :: int
  lo_bind :: "bytes option \<Rightarrow> u16 \<Rightarrow> bool"
  lo_listen :: bool
  lo_bound_ip :: string
  lo_bound_port :: u16
  lo_dns :: dns_os

text \<open>The file has its own copy of the resolver's \<^verbatim>\<open>parse_hostport\<close>, word for word.\<close>

definition tcp_parse_hostport :: "string \<Rightarrow> (string \<times> u16) res" where
  "tcp_parse_hostport s = parse_hostport s"

text \<open>The bound descriptor and address.\<close>

definition listen_tcp :: "listen_os \<Rightarrow> string \<Rightarrow> (int \<times> string) res" where
  "listen_tcp Q spec =
     res_bind (tcp_parse_hostport spec) (\<lambda>(host, port).
       if lo_socket Q < 0 then Inl (Runtime_error ''socket'')
       else if \<not> lo_bind Q (inet_pton4 host) port then Inl (Runtime_error (''bind failed on '' @ spec))
       else if \<not> lo_listen Q then Inl (Runtime_error ''listen'')
       else Inr (lo_socket Q, lo_bound_ip Q @ '':'' @ to_string (unat (lo_bound_port Q))))"

definition start_listen :: "listen_os \<Rightarrow> Impl \<Rightarrow> unit res \<times> Impl" where
  "start_listen Q I =
     (if im_running I then (Inl (Runtime_error ''coordinator already running''), I)
      else
        let I1 = I\<lparr>im_running := True, im_stop := False\<rparr> in
        case listen_tcp Q (cf_listen (im_cfg I)) of
          Inl e \<Rightarrow> (Inl e, I1)
        | Inr (fd, bound) \<Rightarrow>
            let I2 = I1\<lparr>im_listen_fd := fd, im_bound := bound\<rparr> in
            if cf_dns_listen (im_cfg I) = [] then (Inr (), I2)
            else case dns_start (lo_dns Q) (new_MagicDns (cf_domain (im_cfg I)) (cf_dns_listen (im_cfg I))) of
                   (r, D) \<Rightarrow> (r, I2\<lparr>im_dns := Some D\<rparr>))"

definition run_async :: "listen_os \<Rightarrow> Impl \<Rightarrow> unit res \<times> Impl" where
  "run_async Q I =
     (case start_listen Q I of (Inl e, I1) \<Rightarrow> (Inl e, I1) | (Inr _, I1) \<Rightarrow> (Inr (), I1\<lparr>im_accept_thread := True\<rparr>))"

definition Impl_stop :: "Impl \<Rightarrow> Impl" where
  "Impl_stop I =
     (let I1 = I\<lparr>im_stop := True\<rparr>;
          I2 = (if 0 \<le> im_listen_fd I1 then I1\<lparr>im_listen_fd := -1\<rparr> else I1);
          I3 = (case im_dns I2 of None \<Rightarrow> I2 | Some D \<Rightarrow> I2\<lparr>im_dns := None\<rparr>);
          I4 = (if im_accept_thread I3 then I3\<lparr>im_accept_thread := False\<rparr> else I3)
      in I4\<lparr>im_running := False\<rparr>)"

text \<open>
  \<^verbatim>\<open>accept_loop\<close> over what successive \<^verbatim>\<open>accept\<close> calls return, each with the value of
  \<^verbatim>\<open>stop_\<close> after it; \<open>stopped\<close> is its value on entry. The result is the descriptors handed to
  client threads.
\<close>

fun accept_loop :: "bool \<Rightarrow> (int \<times> bool) list \<Rightarrow> int list" where
  "accept_loop stopped [] = []"
| "accept_loop stopped ((cfd, stop) # es) =
     (if stopped then []
      else if cfd < 0 then if stop then [] else accept_loop stop es
      else cfd # accept_loop stop es)"

text \<open>\<^verbatim>\<open>run\<close> serves in the calling thread.\<close>

definition Impl_run :: "listen_os \<Rightarrow> (int \<times> bool) list \<Rightarrow> Impl \<Rightarrow> int list res \<times> Impl" where
  "Impl_run Q es I =
     (case start_listen Q I of (Inl e, I1) \<Rightarrow> (Inl e, I1) | (Inr _, I1) \<Rightarrow> (Inr (accept_loop (im_stop I1) es), I1))"

section \<open>Ownership of descriptors\<close>

lemma close_fd_simps [simp]:
  "cc_closed (close_fd fd C) = cc_closed C @ [fd]" "cc_impl (close_fd fd C) = cc_impl C" "cc_world (close_fd fd C) = cc_world C"
  by (simp_all add: close_fd_def)

lemma respond_simps [simp]:
  "cc_closed (respond st t ct b C) = cc_closed C" "cc_impl (respond st t ct b C) = cc_impl C" "cc_world (respond st t ct b C) = cc_world C"
  by (simp_all add: respond_def)

lemma send_all_state:
  "send_all d C = (ok, C') \<Longrightarrow> cc_closed C' = cc_closed C \<and> cc_impl C' = cc_impl C \<and> cc_world C' = cc_world C"
  by (auto simp: send_all_def split: prod.splits)

text \<open>Nothing in the serving loop touches the descriptor of the connection.\<close>

lemma noise_fill_fd: "noise_fill L c cs = (ok, c', cs') \<Longrightarrow> nc_fd c' = nc_fd c"
proof (induction "length (concat cs)" arbitrary: c cs rule: less_induct)
  case less
  obtain b c1 cs1 where d: "decrypt_one L c cs = (b, c1, cs1)" by (metis prod_cases3)
  have fd: "nc_fd c1 = nc_fd c"
    using d by (auto simp: decrypt_one_def Let_def split: prod.splits option.splits if_splits)
  show ?case
  proof (cases "nc_plaintext c = [] \<and> b")
    case True
    then show ?thesis
      using less.prems less.hyps [of cs1 c1] decrypt_one_consumes d fd by (simp add: noise_fill.simps [of L c])
  qed (use less.prems d fd in \<open>auto simp: noise_fill.simps [of L c] split: if_splits\<close>)
qed

lemma noise_read_fd: "noise_read L n c cs = (d, c', cs') \<Longrightarrow> nc_fd c' = nc_fd c"
  by (auto simp: noise_read_def Let_def dest!: noise_fill_fd split: if_splits prod.splits bool.splits)

lemma noise_write_fd: "noise_write_loop L sent rest c ws out = (r, c', ws', out') \<Longrightarrow> nc_fd c' = nc_fd c"
proof (induction "length rest" arbitrary: sent rest c ws out rule: less_induct)
  case less
  note p = less.prems [unfolded noise_write_loop.simps [of L sent rest c ws out] Let_def]
  show ?case
  proof (cases "rest = []")
    case False
    then have "length (drop (min (length rest) kMaxPlaintext) rest) < length rest" by (simp add: noise_consts)
    from less.hyps [OF this] p False show ?thesis
      by (fastforce split: sum.splits prod.splits bool.splits)
  qed (use p in simp)
qed

lemma h2_callback_fd:
  "h2_callback_step L f cb (h, (c, k), w) = (r, h', (c', k'), w') \<Longrightarrow> nc_fd c' = nc_fd c"
  by (cases cb) (auto simp: h2_callback_step_def send_cb_def noise_write_def dest!: noise_write_fd
      split: option.splits prod.splits)

lemma h2_callbacks_fd:
  "h2_callbacks L f cbs (h, (c, k), w) = (r, h', (c', k'), w') \<Longrightarrow> nc_fd c' = nc_fd c"
proof (induction cbs arbitrary: h c k w)
  case (Cons cb cbs)
  obtain r1 h1 c1 k1 w1 where 1: "h2_callback_step L f cb (h, (c, k), w) = (r1, h1, (c1, k1), w1)"
    by (metis prod.collapse)
  show ?case using Cons 1 h2_callback_fd [OF 1] by (cases r1) auto
qed simp

lemma h2_round_fd:
  assumes "h2_round_step L f t R (h, (c, k), w) = (r, h', (c', k'), w')"
  shows "nc_fd c' = nc_fd c"
proof -
  have recv: "nc_fd c2 = nc_fd c1" if "h2_receive L f R (h1, (c1, k1), w1) = (r2, h2, (c2, k2), w2)" for h1 c1 k1 w1 r2 h2 c2 k2 w2
    using that
    by (auto simp: h2_receive_def Let_def dest!: noise_read_fd h2_callbacks_fd split: if_splits prod.splits sum.splits)
  have flush: "nc_fd c2 = nc_fd c1" if "h2_flush L f b so (h1, (c1, k1), w1) = (r2, h2, (c2, k2), w2)" for b so h1 c1 k1 w1 r2 h2 c2 k2 w2
    using that by (auto simp: h2_flush_def dest!: h2_callbacks_fd split: if_splits prod.splits sum.splits)
  show ?thesis
    using assms
    by (auto simp: h2_round_step_def and_then_def dest!: recv flush split: if_splits prod.splits sum.splits bool.splits)
qed

lemma h2_run_fd:
  "h2_run L Rs (h, (c, k), w) = (r, h', (c', k'), w') \<Longrightarrow> nc_fd c' = nc_fd c"
proof (induction Rs arbitrary: h c k w)
  case (Cons x Rs)
  obtain f t R where x: "x = (f, t, R)" by (metis prod_cases3)
  obtain r1 h1 c1 k1 w1 where 1: "h2_round_step L f t R (h, (c, k), w) = (r1, h1, (c1, k1), w1)"
    by (metis prod.collapse)
  show ?case using Cons x 1 h2_round_fd [OF 1] by (auto split: sum.splits bool.splits)
qed simp

lemma serve_h2_fd: "serve_h2 E hello rs m ((c, k), I, w) = (r, (c', k'), I', w') \<Longrightarrow> nc_fd c' = nc_fd c"
  by (auto simp: serve_h2_def new_session_def dest!: h2_callbacks_fd h2_run_fd split: prod.splits sum.splits bool.splits)

lemma run_session_state:
  assumes "run_session E S fd nr C = (r, C')" "0 \<le> fd" "r \<noteq> Inr True"
  shows "cc_closed C' = cc_closed C @ [fd]"
proof -
  obtain r1 c' k' I' w' where s: "serve_h2 E (si_hello S) (si_rounds S) (format_key Machine (nr_peer_machine_public nr))
      ((new_NoiseConn fd (nr_tx_key nr) (nr_rx_key nr), cc_sock C), cc_impl C, cc_world C) = (r1, (c', k'), I', w')"
    by (metis prod.collapse)
  have "nc_fd c' = fd" using serve_h2_fd [OF s] by (simp add: new_NoiseConn_def)
  then show ?thesis
    using assms s by (auto simp: run_session_def Let_def split: sum.splits bool.splits)
qed

text \<open>
  The session of a connection, down to the rounds of the serving loop: the machine key under which
  the requests are dispatched, the record keys, and what remains of the coordinator, the files and
  the descriptor on each way out.
\<close>

lemma run_session_rounds:
  assumes "0 \<le> fd"
  shows "run_session E S fd nr C =
    (let M = format_key Machine (nr_peer_machine_public nr);
         back = (\<lambda>k' I' w'. C\<lparr>cc_sock := k', cc_impl := I', cc_world := w'\<rparr>)
     in case new_session (lib_ssl E) (si_hello S) (new_NoiseConn fd (nr_tx_key nr) (nr_rx_key nr), cc_sock C) (cc_impl C, cc_world C, []) of
          (Inl e, h, (c', k'), I', w', live) \<Rightarrow> (Inl e, close_fd fd (back k' I' w'))
        | (Inr _, s) \<Rightarrow>
            (case h2_run (lib_ssl E) (map (\<lambda>r. (h2_dispatch E (sr_clock r) M, session_tick E r, sr_round r)) (si_rounds S)) s of
               (Inl e, h, (c', k'), I', w', live) \<Rightarrow> (Inl e, close_fd fd (back k' I' w'))
             | (Inr True, h, (c', k'), I', w', live) \<Rightarrow> (Inr True, back k' I' w')
             | (Inr False, h, (c', k'), I', w', live) \<Rightarrow>
                 (Inr False, close_fd fd (back k' (bump_map (I'\<lparr>im_store := set_online M False (im_store I')\<rparr>)) w'))))"
proof -
  let ?M = "format_key Machine (nr_peer_machine_public nr)"
  let ?c = "new_NoiseConn fd (nr_tx_key nr) (nr_rx_key nr)"
  obtain r0 h0 c0 k0 I0 w0 and l0 :: "LiveMap list" where n: "new_session (lib_ssl E) (si_hello S) (?c, cc_sock C) (cc_impl C, cc_world C, []) =
      (r0, h0, (c0, k0), I0, w0, l0)" by (metis prod.collapse)
  obtain r1 h1 c1 k1 I1 w1 l1 where u: "h2_run (lib_ssl E) (h2_rounds E ?M (si_rounds S)) (h0, (c0, k0), I0, w0, l0) =
      (r1, h1, (c1, k1), I1, w1, l1)" by (metis prod.collapse)
  have fd: "nc_fd c0 = fd" "nc_fd c1 = fd"
    using h2_callbacks_fd [OF n [unfolded new_session_def]] h2_run_fd [OF u] by (simp_all add: new_NoiseConn_def)
  show ?thesis
    unfolding run_session_def serve_h2_def Let_def n
    using u [unfolded h2_rounds_def] fd assms
    by (simp add: n u h2_rounds_def split: sum.split bool.split)
qed

text \<open>The connection after an upgrade request that did not lead to a session, and where a session starts.\<close>

lemma handle_ts2021_cases [consumes 1, case_names closed crypto session]:
  assumes "handle_ts2021 E S fd req C = (r, C')"
  obtains (closed) C1 where "r = Inr False" "C' = close_fd fd C1" "cc_closed C1 = cc_closed C" "cc_impl C1 = cc_impl C" "cc_world C1 = cc_world C"
  | (crypto) e where "r = Inl e" "cc_closed C' = cc_closed C" "cc_impl C' = cc_impl C" "cc_world C' = cc_world C"
  | (session) init resp nr C2 where "b64_decode (lib_ssl E) (header_get req ''x-tailscale-handshake'') = Inr init"
      "noise_server_handshake (lib_ssl E) (si_draw S) (st_noise_private (im_store (cc_impl C))) init = Inr (Inr (resp, nr))"
      "run_session E S fd nr C2 = (r, C')" "cc_closed C2 = cc_closed C" "cc_impl C2 = cc_impl C" "cc_world C2 = cc_world C"
proof -
  let ?early = "header_get req ''upgrade'' \<noteq> ''tailscale-control-protocol'' \<or> header_get req ''x-tailscale-handshake'' = []"
  obtain ok1 C1 where s1: "send_all (bytes_of_string switching_protocols) C = (ok1, C1)" by fastforce
  note st1 = send_all_state [OF s1]
  show thesis
  proof (cases "?early \<or> (\<exists>x. b64_decode (lib_ssl E) (header_get req ''x-tailscale-handshake'') = Inl x) \<or> \<not> ok1")
    case True
    then show thesis
      using assms s1 st1
      by (intro closed [of "if ?early \<or> (\<exists>x. b64_decode (lib_ssl E) (header_get req ''x-tailscale-handshake'') = Inl x) then
          respond 400 ''Bad Request'' ''text/plain''
            (if header_get req ''upgrade'' \<noteq> ''tailscale-control-protocol'' then ''missing upgrade'' @ [CHR 0x0A]
             else if header_get req ''x-tailscale-handshake'' = [] then ''missing handshake'' @ [CHR 0x0A] else ''bad handshake'' @ [CHR 0x0A]) C
          else C1"])
        (auto simp: handle_ts2021_def Let_def split: if_splits sum.splits)
  next
    case False
    then obtain init where init: "b64_decode (lib_ssl E) (header_get req ''x-tailscale-handshake'') = Inr init" by (metis sum.exhaust)
    let ?hs = "noise_server_handshake (lib_ssl E) (si_draw S) (st_noise_private (im_store (cc_impl C))) init"
    have run: "(r, C') = (case ?hs of Inl e \<Rightarrow> (Inl e, C1) | Inr (Inl msg) \<Rightarrow> (Inr False, close_fd fd C1)
        | Inr (Inr (resp, nr)) \<Rightarrow> (case send_all resp C1 of (False, C2) \<Rightarrow> (Inr False, close_fd fd C2) | (True, C2) \<Rightarrow> run_session E S fd nr C2))"
      using assms False init s1 st1 by (simp add: handle_ts2021_def Let_def)
    show thesis
    proof (cases "\<exists>resp nr. ?hs = Inr (Inr (resp, nr))")
      case True
      then obtain resp nr where hs: "?hs = Inr (Inr (resp, nr))" by blast
      obtain ok2 C2 where s2: "send_all resp C1 = (ok2, C2)" by fastforce
      note st2 = send_all_state [OF s2]
      show thesis
        using run hs s2 st1 st2 closed [of C2] session [OF init hs, of C2] by (cases ok2) auto
    next
      case False
      then show thesis using run st1 closed [of C1] crypto by (auto split: sum.splits)
    qed
  qed
qed

text \<open>
  C31: The thread of a client closes its descriptor exactly once on every path on which no
  exception escapes the handler: malformed requests, the plain routes, refused upgrades, failed
  handshakes, failed sends and complete sessions.
\<close>

theorem descriptor_closed_once:
  assumes "client_thread E S fd C = Some C'" "0 \<le> fd" "handle_client E S fd C = (Inr owns, C1)"
  shows "cc_closed C' = cc_closed C @ [fd]"
proof -
  obtain ow where o: "owns = Some ow" "C' = (if ow then close_fd fd C1 else C1)"
    using assms by (cases owns) (auto simp: client_thread_def split: if_splits)
  obtain q cs where rd: "read_http_request (sk_in (cc_sock C)) = (q, cs)" by fastforce
  let ?C = "C\<lparr>cc_sock := (cc_sock C)\<lparr>sk_in := cs\<rparr>\<rparr>"
  show ?thesis
  proof (cases "\<exists>req extra. q = Some (req, extra) \<and> rq_path req = ''/ts2021''")
    case False
    then show ?thesis
      using assms(3) o rd
      by (auto simp: handle_client_def Let_def split: option.splits sum.splits if_splits)
  next
    case True
    then obtain req extra where q: "q = Some (req, extra)" "rq_path req = ''/ts2021''" by blast
    obtain r C2 where ts: "handle_ts2021 E S fd req ?C = (r, C2)" by fastforce
    have res: "r = Inr False" "C1 = C2" "\<not> ow"
      using assms(3) o rd q ts by (auto simp: handle_client_def Let_def split: sum.splits if_splits)
    from ts show ?thesis
    proof (cases rule: handle_ts2021_cases)
      case (session init resp nr C3)
      then show ?thesis using run_session_state [OF session(3) assms(2)] res o by auto
    qed (use res o in auto)
  qed
qed

text \<open>
  C37: An exception in a session makes the thread close the descriptor twice: the connection
  object closes it while the exception passes, and the thread, which still counts itself the
  owner, closes the number again, although it may by then belong to another connection. The
  end of the session is not recorded either: the coordinator stays exactly as the serving loop
  left it when the exception passed, so a node that was online then stays online and the map
  generation is not raised, and the other long polls are told nothing.
\<close>

theorem exception_closes_twice:
  assumes "read_http_request (sk_in (cc_sock C)) = (Some (req, extra), cs)" "rq_path req = ''/ts2021''" "0 \<le> fd"
    and "handle_ts2021 E S fd req (C\<lparr>cc_sock := (cc_sock C)\<lparr>sk_in := cs\<rparr>\<rparr>) = run_session E S fd nr C2"
    and "cc_closed C2 = cc_closed C"
    and "new_session (lib_ssl E) (si_hello S) (new_NoiseConn fd (nr_tx_key nr) (nr_rx_key nr), cc_sock C2) (cc_impl C2, cc_world C2, []) =
      (Inr (), s)"
    and "h2_run (lib_ssl E) (h2_rounds E (format_key Machine (nr_peer_machine_public nr)) (si_rounds S)) s = (Inl e, h, c', I', w', live)"
  shows "\<exists>C'. client_thread E S fd C = Some C' \<and> cc_closed C' = cc_closed C @ [fd, fd] \<and>
    im_map_gen (cc_impl C') = im_map_gen I' \<and> st_nodes (im_store (cc_impl C')) = st_nodes (im_store I') \<and> cc_impl C' = I'"
proof -
  obtain c1 k1 where c': "c' = (c1, k1)" by fastforce
  have "\<exists>C3. run_session E S fd nr C2 = (Inl e, C3) \<and> cc_impl C3 = I'"
    unfolding run_session_rounds [OF assms(3)] Let_def assms(6)
    using assms(7) c' by (simp add: h2_rounds_def)
  then obtain C3 where s: "run_session E S fd nr C2 = (Inl e, C3)" "cc_impl C3 = I'" by blast
  have "cc_closed C3 = cc_closed C @ [fd]" using run_session_state [OF s(1) assms(3)] assms(5) by simp
  then show ?thesis
    using assms(1-4) s by (simp add: client_thread_def handle_client_def Let_def)
qed

text \<open>
  A body that is JSON but not an object escapes both request handlers as an exception,
  before anything is answered or changed.
\<close>

theorem non_object_body_throws:
  assumes "parse_body (lib_json E) body = Some j" "\<not> is_object j" "path = ''/machine/register'' \<or> path = ''/machine/map''"
  shows "h2_dispatch E K m sid ''POST'' path body st = (Inl Json_type_error, st)"
proof -
  obtain h I w live where st: "st = (h, I, w, live)" by (metis prod_cases4)
  have "register_fields (lib_json E) j = Inl Json_type_error" "map_fields (lib_json E) j = Inl Json_type_error"
    using assms(2) by (simp_all add: register_fields_def map_fields_def)
  then show ?thesis
    using assms(1,3) by (auto simp: h2_dispatch_def st on_register_def on_map_def on_map_answer_def Let_def)
qed

text \<open>
  C8: Nobody changes the coordinator without completing the Noise handshake. If a client thread
  leaves the registry, the keys or the files different from how it found them, the client sent
  an upgrade request whose initiation the handshake accepted under the coordinator's own key.
\<close>

theorem only_authenticated_clients_change_state:
  assumes "client_thread E S fd C = Some C'"
    and "cc_impl C' \<noteq> cc_impl C \<or> cc_world C' \<noteq> cc_world C"
  shows "\<exists>req extra cs init resp nr. read_http_request (sk_in (cc_sock C)) = (Some (req, extra), cs) \<and>
    rq_path req = ''/ts2021'' \<and> b64_decode (lib_ssl E) (header_get req ''x-tailscale-handshake'') = Inr init \<and>
    noise_server_handshake (lib_ssl E) (si_draw S) (st_noise_private (im_store (cc_impl C))) init = Inr (Inr (resp, nr))"
proof -
  obtain q cs where rd: "read_http_request (sk_in (cc_sock C)) = (q, cs)" by fastforce
  let ?C = "C\<lparr>cc_sock := (cc_sock C)\<lparr>sk_in := cs\<rparr>\<rparr>"
  obtain r C1 where h: "handle_client E S fd C = (r, C1)" by fastforce
  have diff: "cc_impl C1 \<noteq> cc_impl C \<or> cc_world C1 \<noteq> cc_world C"
    using assms h by (auto simp: client_thread_def split: sum.splits option.splits if_splits)
  then obtain req extra where q: "q = Some (req, extra)" "rq_path req = ''/ts2021''"
    using h rd by (auto simp: handle_client_def Let_def split: option.splits sum.splits if_splits)
  obtain r2 C2 where ts: "handle_ts2021 E S fd req ?C = (r2, C2)" by fastforce
  have "C1 = C2" using h rd q ts by (auto simp: handle_client_def Let_def split: sum.splits)
  note d = diff [unfolded this]
  from ts show ?thesis using d rd q by (cases rule: handle_ts2021_cases) auto
qed

section \<open>Requests of a session\<close>

text \<open>The coordinator as the owner of a session: its handlers and its tick only answer.\<close>

lemma json_reply_requests: "json_reply J sid j (h, x) = (r, h', x') \<Longrightarrow> requests h' = requests h"
  by (auto simp: json_reply_def split: option.splits)

lemma on_register_requests: "on_register E K sid m body (h, x) = (r, h', x') \<Longrightarrow> requests h' = requests h"
  by (auto simp: on_register_def Let_def dest: json_reply_requests split: prod.splits option.splits sum.splits)

lemma map_response_requests: "map_response E K sid m q I h = Inr (a, h') \<Longrightarrow> requests h' = requests h"
  by (auto simp: map_response_def res_bind_Inr split: if_splits option.splits)

lemma on_map_requests:
  assumes "on_map E K sid m body (h, x) = (r, h', x')"
  shows "requests h' = requests h"
proof -
  have "requests h1 = requests h" if "on_map_answer E K sid m body (h, I, w) = (a, h1, I1, w1)" for I w a h1 I1 w1
    using that by (auto simp: on_map_answer_def Let_def dest: map_response_requests
        split: prod.splits option.splits sum.splits)
  then show ?thesis using assms by (auto simp: on_map_def split: prod.splits option.splits sum.splits)
qed

lemma tick_all_requests: "tick_all E K gen I ms h = (r, ms', h') \<Longrightarrow> requests h' = requests h"
proof (induction ms arbitrary: h ms')
  case (Cons m ms)
  have "requests h1 = requests h" if "tick_one E K gen I m h = (r1, m1, h1)" for r1 m1 h1
    using that by (auto simp: tick_one_def Let_def split: if_splits option.splits sum.splits)
  then show ?case using Cons by (fastforce split: prod.splits sum.splits)
qed simp

interpretation session: h2_owner "h2_dispatch E K m" "session_tick E R" for E K m R
proof unfold_locales
  fix i me p b h w r h' w'
  assume "h2_dispatch E K m i me p b (h, w) = (r, h', w')"
  then show "requests h' = requests h"
    by (auto simp: h2_dispatch_def dest: on_register_requests on_map_requests split: if_splits)
next
  fix h w r h' w'
  assume "session_tick E R (h, w) = (r, h', w')"
  then show "requests h' = requests h"
    by (auto simp: session_tick_def on_tick_def dest!: tick_all_requests split: prod.splits)
qed

lemma session_run_requests:
  assumes "h2_run (lib_ssl E) (h2_rounds E m rs) (h, c, w) = (Inr True, h', c', w')"
  shows "requests h' = fold request_step (run_callbacks (lib_ssl E) (h2_rounds E m rs) (h, c, w)) (requests h)"
  using run_requests [OF assms] session.h2_owner_axioms by (auto simp: h2_rounds_def)

text \<open>
  C30: Requests of concurrent streams are kept apart. Take any number of complete rounds of a
  session and the callbacks of the next one up to the frame that ends a request, and suppose that
  among all of them the library began the request on the stream and neither restarted nor closed
  that stream since. Whatever other frames of this stream and whatever callbacks of other streams
  came in between (their requests, which were handled, their responses, the updates pushed to
  their long polls, octets sent out), the coordinator's dispatcher is given the stream's
  identifier, the last method and path received for it, and all pieces of its body in order.
\<close>

theorem request_assembly:
  assumes "h2_run (lib_ssl E) (h2_rounds E m rs) s = (Inr True, h1, c1, w1)"
    and "h2_callbacks (lib_ssl E) (h2_dispatch E K m) cbs (h1, c2, w1) = (Inr (), h2, c3, w2)"
    and "run_callbacks (lib_ssl E) (h2_rounds E m rs) s @ cbs =
      before @ Begin_headers NGHTTP2_HEADERS NGHTTP2_HCAT_REQUEST sid # es"
    and "list_all (keeps_stream sid) es" "type = NGHTTP2_HEADERS \<or> type = NGHTTP2_DATA"
    and "flags AND NGHTTP2_FLAG_END_STREAM \<noteq> 0"
  shows "h2_callback_step (lib_ssl E) (h2_dispatch E K m) (Frame_recv type flags sid) (h2, c3, w2) =
    (case h2_dispatch E K m sid (header_of sid '':method'' es []) (header_of sid '':path'' es []) (string_of_bytes (body_of sid es)) (h2, w2) of
       (r, h3, w3) \<Rightarrow> (r, h3, c3, w3))"
proof -
  obtain h c w where s: "s = (h, c, w)" by (metis prod_cases3)
  have "requests h2 = fold request_step cbs (fold request_step (run_callbacks (lib_ssl E) (h2_rounds E m rs) s) (requests h))"
    using session.callbacks_requests [OF assms(2)] session_run_requests [OF assms(1) [unfolded s]] by (simp add: s)
  also have "\<dots> = fold request_step (run_callbacks (lib_ssl E) (h2_rounds E m rs) s @ cbs) (requests h)" by simp
  finally have "requests h2 = fold request_step es
      (request_step (Begin_headers NGHTTP2_HEADERS NGHTTP2_HCAT_REQUEST sid) (fold request_step before (requests h)))"
    by (simp only: assms(3) fold_append fold_simps o_apply)
  then have "requests h2 sid =
      Some (sid, header_of sid '':method'' es [], header_of sid '':path'' es [], string_of_bytes (body_of sid es))"
    using request_collected [OF assms(4)] by simp
  then show ?thesis by (rule request_handed_over [OF _ assms(5,6)])
qed

section \<open>The upgrade\<close>

lemma send_all_True:
  "send_all d C = (True, C') \<Longrightarrow> \<exists>ws. C' = C\<lparr>cc_sock := (cc_sock C)\<lparr>sk_send := ws, sk_out := sk_out (cc_sock C) @ d\<rparr>\<rparr>"
  by (auto simp: send_all_def write_all_def dest: write_full_True split: prod.splits)

lemma upgrade_completes:
  assumes laws: "openssl_laws (lib_ssl E)"
    and key: "length (st_noise_private (im_store (cc_impl C))) = 32"
      "x25519_public (lib_ssl E) (st_noise_private (im_store (cc_impl C))) = Inr c_pub"
    and client: "length m_priv = 32" "x25519_public (lib_ssl E) m_priv = Inr m_pub" "length r1 = 32"
      "noise_client_init (lib_ssl E) (Some r1) m_priv c_pub v = Inr (init, eph, h, ck)"
    and draw: "si_draw S = Some r2" "length r2 = 32"
    and req: "header_get req ''upgrade'' = ''tailscale-control-protocol''" "header_get req ''x-tailscale-handshake'' \<noteq> []"
      "b64_decode (lib_ssl E) (header_get req ''x-tailscale-handshake'') = Inr init"
    and sends: "send_all (bytes_of_string switching_protocols) C = (True, C1)"
      "\<And>resp. length resp = 51 \<Longrightarrow> fst (send_all resp C1)"
  obtains resp srv cli ws where "handle_ts2021 E S fd req C = run_session E S fd srv
      (C\<lparr>cc_sock := (cc_sock C)\<lparr>sk_send := ws, sk_out := sk_out (cc_sock C) @ bytes_of_string switching_protocols @ resp\<rparr>\<rparr>)"
    "noise_client_finish (lib_ssl E) m_priv eph resp h ck out = Inr (Inr cli)"
    "nr_peer_machine_public srv = m_pub" "nr_tx_key cli = nr_rx_key srv" "nr_rx_key cli = nr_tx_key srv"
proof -
  obtain resp srv cli where hs: "noise_server_handshake (lib_ssl E) (Some r2) (st_noise_private (im_store (cc_impl C))) init = Inr (Inr (resp, srv))"
      "noise_client_finish (lib_ssl E) m_priv eph resp h ck out = Inr (Inr cli)" "length resp = 51"
      "nr_peer_machine_public srv = m_pub" "nr_tx_key cli = nr_rx_key srv" "nr_rx_key cli = nr_tx_key srv"
    using handshake_completes [OF laws client(1) key(1) client(3) draw(2) key(2) client(2), of v out] client(4) by auto
  obtain ws1 where C1: "C1 = C\<lparr>cc_sock := (cc_sock C)\<lparr>sk_send := ws1, sk_out := sk_out (cc_sock C) @ bytes_of_string switching_protocols\<rparr>\<rparr>"
    using send_all_True [OF sends(1)] by blast
  obtain C2 where s2: "send_all resp C1 = (True, C2)" using sends(2) [OF hs(3)] by (metis prod.collapse)
  obtain ws where C2: "C2 = C\<lparr>cc_sock := (cc_sock C)\<lparr>sk_send := ws, sk_out := sk_out (cc_sock C) @ bytes_of_string switching_protocols @ resp\<rparr>\<rparr>"
    using send_all_True [OF s2] by (auto simp: C1)
  have "handle_ts2021 E S fd req C = run_session E S fd srv C2"
    using req draw hs(1) sends(1) s2 by (simp add: handle_ts2021_def Let_def C1)
  then show thesis using that [OF _ hs(2,4,5,6)] C2 by blast
qed

text \<open>
  C7: An honest client that knows the coordinator's public key gets a session under its true
  identity whenever its connection takes the two answers of the upgrade (the switching response
  and the 51 octets of the handshake). The client accepts the handshake's answer; every request of
  the session is then dispatched under the machine key that belongs to the client's private key,
  the records of the session are sealed with the key under which the client opens and opened with
  the one under which it seals, and when the session ends it is this machine that goes offline and
  the change of the map is announced.
\<close>

theorem upgrade_authenticates:
  assumes "openssl_laws (lib_ssl E)" "0 \<le> fd"
    and "length (st_noise_private (im_store (cc_impl C))) = 32"
      "x25519_public (lib_ssl E) (st_noise_private (im_store (cc_impl C))) = Inr c_pub"
    and "length m_priv = 32" "x25519_public (lib_ssl E) m_priv = Inr m_pub" "length r1 = 32"
      "noise_client_init (lib_ssl E) (Some r1) m_priv c_pub v = Inr (init, eph, h, ck)"
    and "si_draw S = Some r2" "length r2 = 32"
    and "header_get req ''upgrade'' = ''tailscale-control-protocol''" "header_get req ''x-tailscale-handshake'' \<noteq> []"
      "b64_decode (lib_ssl E) (header_get req ''x-tailscale-handshake'') = Inr init"
    and "send_all (bytes_of_string switching_protocols) C = (True, C1)"
      "\<And>resp. length resp = 51 \<Longrightarrow> fst (send_all resp C1)"
  shows "\<exists>resp cli k. noise_client_finish (lib_ssl E) m_priv eph resp h ck out = Inr (Inr cli) \<and>
    sk_in k = sk_in (cc_sock C) \<and> sk_out k = sk_out (cc_sock C) @ bytes_of_string switching_protocols @ resp \<and>
    handle_ts2021 E S fd req C =
     (case new_session (lib_ssl E) (si_hello S) (new_NoiseConn fd (nr_rx_key cli) (nr_tx_key cli), k) (cc_impl C, cc_world C, []) of
        (Inl e, h, (c', k'), I', w', live) \<Rightarrow> (Inl e, close_fd fd (C\<lparr>cc_sock := k', cc_impl := I', cc_world := w'\<rparr>))
      | (Inr _, s) \<Rightarrow>
          (case h2_run (lib_ssl E)
                  (map (\<lambda>r. (h2_dispatch E (sr_clock r) (format_key Machine m_pub), session_tick E r, sr_round r)) (si_rounds S)) s of
             (Inl e, h, (c', k'), I', w', live) \<Rightarrow> (Inl e, close_fd fd (C\<lparr>cc_sock := k', cc_impl := I', cc_world := w'\<rparr>))
           | (Inr True, h, (c', k'), I', w', live) \<Rightarrow> (Inr True, C\<lparr>cc_sock := k', cc_impl := I', cc_world := w'\<rparr>)
           | (Inr False, h, (c', k'), I', w', live) \<Rightarrow>
               (Inr False, close_fd fd (C\<lparr>cc_sock := k',
                  cc_impl := bump_map (I'\<lparr>im_store := set_online (format_key Machine m_pub) False (im_store I')\<rparr>), cc_world := w'\<rparr>))))"
proof -
  obtain resp srv cli ws where u: "handle_ts2021 E S fd req C = run_session E S fd srv
      (C\<lparr>cc_sock := (cc_sock C)\<lparr>sk_send := ws, sk_out := sk_out (cc_sock C) @ bytes_of_string switching_protocols @ resp\<rparr>\<rparr>)"
    "noise_client_finish (lib_ssl E) m_priv eph resp h ck out = Inr (Inr cli)"
    "nr_peer_machine_public srv = m_pub" "nr_tx_key cli = nr_rx_key srv" "nr_rx_key cli = nr_tx_key srv"
    by (rule upgrade_completes [OF assms(1,3-15), of fd out])
  have "(C\<lparr>cc_sock := k\<rparr>)\<lparr>cc_sock := k', cc_impl := I', cc_world := w'\<rparr> = C\<lparr>cc_sock := k', cc_impl := I', cc_world := w'\<rparr>" for k k' I' w'
    by simp
  then show ?thesis
    using u by (intro exI [of _ resp] exI [of _ cli]
        exI [of _ "(cc_sock C)\<lparr>sk_send := ws, sk_out := sk_out (cc_sock C) @ bytes_of_string switching_protocols @ resp\<rparr>"])
      (simp add: run_session_rounds [OF assms(2)] Let_def)
qed

section \<open>Life cycle\<close>

text \<open>
  C40: A start that fails leaves the coordinator marked as running: every later start is refused
  with \<^verbatim>\<open>coordinator already running\<close> until it is stopped, and stopping makes it startable
  again.
\<close>

theorem failed_start_sticks:
  assumes "\<not> im_running I" "run_async Q I = (Inl e, I')"
  shows "im_running I' \<and> run_async Q' I' = (Inl (Runtime_error ''coordinator already running''), I') \<and>
    \<not> im_running (Impl_stop I') \<and> im_listen_fd (Impl_stop I') < 0 \<and> im_dns (Impl_stop I') = None"
proof -
  have "im_running I'"
    using assms by (auto simp: run_async_def start_listen_def Let_def split: sum.splits prod.splits if_splits)
  then show ?thesis by (auto simp: run_async_def start_listen_def Impl_stop_def Let_def split: option.split)
qed

section \<open>A concrete session\<close>

text \<open>
  A client that upgrades with a valid initiation (which the base64 text \<^verbatim>\<open>hs\<close> stands for) and
  then sends one request whose body is the
  JSON number \<^verbatim>\<open>5\<close>, or hangs up: the concrete input of the theorems below.
\<close>

definition five_json :: nlohmann where
  "five_json = \<lparr>nl_parse = (\<lambda>t. if t = ''5'' then Some (JInt 5) else None), nl_read = (\<lambda>_. None), nl_dump = (\<lambda>_. None),
     nl_dump2 = (\<lambda>_. None), nl_get_string = (\<lambda>_. None), nl_get_bool = (\<lambda>_. None), nl_get_int = (\<lambda>_. None),
     nl_get_strings = (\<lambda>_. None)\<rparr>"

definition session_init :: bytes where
  "session_init =
     (case noise_client_init ref_openssl (Some (replicate 32 5)) (replicate 32 3) (replicate 32 8) 106 of
        Inr (init, _) \<Rightarrow> init | Inl _ \<Rightarrow> [])"

definition session_ssl :: openssl where
  "session_ssl = ref_openssl\<lparr>bio_b64_decode := (\<lambda>t. if t = ''hs'' then Some session_init else None)\<rparr>"

definition session_libs :: libs where
  "session_libs = \<lparr>lib_json = five_json, lib_inet6 = hex_inet6, lib_ssl = session_ssl, lib_zstd = Some\<rparr>"

definition upgrade_headers :: "(string \<times> string) list" where
  "upgrade_headers = [(''Upgrade'', ''tailscale-control-protocol''), (''X-Tailscale-Handshake'', ''hs'')]"

definition upgrade_request :: bytes where
  "upgrade_request = bytes_of_string (join_lines (request_lines ''GET'' ''/ts2021'' upgrade_headers) @ crlf2 @ [])"

definition number_record :: bytes where
  "number_record = kMsgRecord # put_be16 17 @ [1] @ replicate 16 7"

text \<open>The client's machine is registered, and online from an earlier session.\<close>

definition session_impl :: Impl where
  "session_impl = demo_impl (demo_store\<lparr>st_nodes :=
     [(sample_node 1 ''alice'' ''100.64.0.1'' ''alpha'' False)\<lparr>nd_machine_key := format_key Machine (replicate 32 3), nd_online := True\<rparr>]\<rparr>)"

definition session_conn :: "bytes list \<Rightarrow> client_conn" where
  "session_conn cs = \<lparr>cc_sock = \<lparr>sk_in = cs, sk_send = [200, 200], sk_out = []\<rparr>, cc_closed = [],
     cc_impl = session_impl,
     cc_world = \<lparr>w_files = (\<lambda>_. None), w_can_read = (\<lambda>_. True), w_can_open = (\<lambda>_. True), w_can_rename = (\<lambda>_. True),
       w_room = (\<lambda>_. None), w_hook_calls = [], w_hook_throws = (\<lambda>_. None)\<rparr>\<rparr>"

lemma session_impl_simps [simp]:
  "st_noise_private (im_store session_impl) = replicate 32 8" "im_map_gen session_impl = 1"
  by (simp_all add: session_impl_def demo_impl_def demo_store_def)

definition number_request :: "h2_callback list" where
  "number_request = [Begin_headers NGHTTP2_HEADERS NGHTTP2_HCAT_REQUEST 1, Header NGHTTP2_HEADERS 1 '':method'' ''POST'',
     Header NGHTTP2_HEADERS 1 '':path'' ''/machine/register'', Data_chunk 1 (bytes_of_string ''5''),
     Frame_recv NGHTTP2_DATA NGHTTP2_FLAG_END_STREAM 1]"

definition one_round :: "int \<Rightarrow> session_input" where
  "one_round ready = \<lparr>si_draw = Some (replicate 32 6), si_hello = [],
     si_rounds = [\<lparr>sr_clock = demo_clock, sr_others = id,
       sr_round = \<lparr>hr_poll = ready, hr_error = False, hr_readable = True, hr_recv = (\<lambda>_. (number_request, 0)),
         hr_want_write1 = False, hr_send1 = ([], 0), hr_want_write2 = False, hr_send2 = ([], 0), hr_done = False\<rparr>\<rparr>]\<rparr>"

text \<open>The handshake does not depend on the base64 codec.\<close>

lemma crypto_b64:
  "blake2s256 (L\<lparr>bio_b64_decode := f\<rparr>) = blake2s256 L" "x25519_public (L\<lparr>bio_b64_decode := f\<rparr>) = x25519_public L"
  "x25519_shared (L\<lparr>bio_b64_decode := f\<rparr>) = x25519_shared L" "aead_seal (L\<lparr>bio_b64_decode := f\<rparr>) = aead_seal L"
  by (intro ext; simp add: blake2s256_def x25519_public_def x25519_shared_def aead_seal_def Let_def)+

lemma hmac_b64: "hmac_blake2s (L\<lparr>bio_b64_decode := f\<rparr>) = hmac_blake2s L"
  by (intro ext) (simp only: hmac_blake2s_def crypto_b64)

lemma hkdf_loop_b64: "hkdf_loop (L\<lparr>bio_b64_decode := f\<rparr>) prk t i n = hkdf_loop L prk t i n"
proof (induction n arbitrary: t i rule: less_induct)
  case (less n)
  then show ?case
    unfolding hkdf_loop.simps [of _ _ t] hmac_b64 by (auto simp: Let_def split: sum.split)
qed

lemma noise_client_init_b64:
  "noise_client_init (L\<lparr>bio_b64_decode := f\<rparr>) d m_priv c_pub v = noise_client_init L d m_priv c_pub v"
  by (simp only: noise_client_init_def mix_hash_def mix_dh_def initial_hash_def encrypt_and_hash_def hkdf_blake2s_def
      hkdf_loop_b64 hmac_b64 crypto_b64)

lemma session_ssl_laws: "openssl_laws session_ssl"
  using ref_openssl_laws unfolding openssl_laws_def session_ssl_def by simp blast

lemma session_public: "x25519_public session_ssl (replicate 32 a) = Inr (replicate 32 a)"
  by (simp add: x25519_public_def session_ssl_def ref_openssl_def)

lemma session_client_init:
  "\<exists>eph h ck. noise_client_init session_ssl (Some (replicate 32 5)) (replicate 32 3) (replicate 32 8) 106 = Inr (session_init, eph, h, ck)"
  using ref_handshake [of 8] by (auto simp: session_ssl_def noise_client_init_b64 session_init_def)

lemma upgrade_request_parsed:
  "\<exists>req. read_http_request (upgrade_request # cs) = (Some (req, []), cs) \<and> rq_path req = ''/ts2021'' \<and>
    header_get req ''upgrade'' = ''tailscale-control-protocol'' \<and> header_get req ''x-tailscale-handshake'' = ''hs''"
proof -
  have ok: "word_ok ''GET''" "word_ok ''/ts2021''" "list_all header_ok upgrade_headers"
    by (simp_all add: word_ok_def is_space_def header_ok_def plain_line_def upgrade_headers_def)
  have low: "map_of (rev (map (\<lambda>(n, v). (lower_string n, v)) upgrade_headers)) (lower_string ''upgrade'') = Some ''tailscale-control-protocol''"
    "map_of (rev (map (\<lambda>(n, v). (lower_string n, v)) upgrade_headers)) (lower_string ''x-tailscale-handshake'') = Some ''hs''"
    by code_simp+
  have "length upgrade_request \<le> 1024" by (simp add: upgrade_request_def request_lines_def upgrade_headers_def crlf2_def)
  moreover have "find_sub crlf2 (string_of_bytes upgrade_request) = Some (join_lines (request_lines ''GET'' ''/ts2021'' upgrade_headers), [])"
    using find_sub_request [OF ok, of "[]"] by (simp add: upgrade_request_def)
  ultimately show ?thesis
    using parse_head_request [OF ok] low by (auto simp: read_http_request_one_segment)
qed

text \<open>The upgrade of this client leads to a session, in which its record can be read.\<close>

lemma session_sends:
  "send_all (bytes_of_string switching_protocols) (session_conn cs) =
     (True, (session_conn cs)\<lparr>cc_sock := \<lparr>sk_in = cs, sk_send = [200], sk_out = bytes_of_string switching_protocols\<rparr>\<rparr>)"
  "length resp = 51 \<Longrightarrow>
   fst (send_all resp ((session_conn cs)\<lparr>cc_sock := \<lparr>sk_in = cs, sk_send = [200], sk_out = out\<rparr>\<rparr>))"
  by (cases "bytes_of_string switching_protocols"; cases resp;
      simp add: send_all_def write_all_def session_conn_def; simp add: switching_protocols_def; auto)+

lemma session_starts:
  obtains req srv out ws where "read_http_request (upgrade_request # cs') = (Some (req, []), cs')" "rq_path req = ''/ts2021''"
    "nr_peer_machine_public srv = replicate 32 3"
    "handle_ts2021 session_libs (one_round ready) 7 req (session_conn cs') =
     run_session session_libs (one_round ready) 7 srv
       ((session_conn cs')\<lparr>cc_sock := \<lparr>sk_in = cs', sk_send = ws, sk_out = out\<rparr>\<rparr>)"
proof -
  obtain req where req: "read_http_request (upgrade_request # cs') = (Some (req, []), cs')" "rq_path req = ''/ts2021''"
    "header_get req ''upgrade'' = ''tailscale-control-protocol''" "header_get req ''x-tailscale-handshake'' = ''hs''"
    using upgrade_request_parsed by blast
  obtain eph h ck where ci: "noise_client_init session_ssl (Some (replicate 32 5)) (replicate 32 3) (replicate 32 8) 106 = Inr (session_init, eph, h, ck)"
    using session_client_init by blast
  let ?C = "session_conn cs'"
  have C: "st_noise_private (im_store (cc_impl ?C)) = replicate 32 8" "lib_ssl session_libs = session_ssl"
    "si_draw (one_round ready) = Some (replicate 32 6)" "cc_sock ?C = \<lparr>sk_in = cs', sk_send = [200, 200], sk_out = []\<rparr>"
    by (simp_all add: session_conn_def session_libs_def one_round_def)
  have b: "b64_decode session_ssl ''hs'' = Inr session_init" by (simp add: b64_decode_def session_ssl_def)
  obtain resp srv ws where "nr_peer_machine_public srv = replicate 32 3"
    "handle_ts2021 session_libs (one_round ready) 7 req ?C = run_session session_libs (one_round ready) 7 srv
      (?C\<lparr>cc_sock := (cc_sock ?C)\<lparr>sk_send := ws, sk_out := sk_out (cc_sock ?C) @ bytes_of_string switching_protocols @ resp\<rparr>\<rparr>)"
    by (rule upgrade_completes [of session_libs ?C "replicate 32 8" "replicate 32 3" "replicate 32 3" "replicate 32 5" 106 session_init eph h ck
        "one_round ready" "replicate 32 6" req _ 7 empty_NoiseResult, OF _ _ _ _ _ _ _ _ _ _ _ _ session_sends])
      (simp_all add: C session_ssl_laws session_public ci req(3,4) b)
  then show thesis using that req(1,2) C(4) by simp
qed

lemma session_hangs_up:
  "\<exists>c' k' I'. serve_h2 session_libs [] (si_rounds (one_round (-1))) m ((c, k), I, w) = (Inr False, (c', k'), I', w) \<and>
    im_map_gen I' = im_map_gen I + 1"
  by (simp add: serve_h2_def new_session_def h2_rounds_def one_round_def h2_round_step_def bump_map_def)

lemma number_record_read:
  assumes "nc_plaintext c = []"
  shows "\<exists>c'. noise_read session_ssl 8192 c [number_record] = ([1], c', [])"
proof -
  have "read_full 3 [number_record] [] = (Some [4, 0, 17], [1 # replicate 16 7])"
    by (simp add: read_full.simps number_record_def put_be16_def noise_consts)
  moreover have "read_full 17 [1 # replicate 16 7] [] = (Some (1 # replicate 16 7), [])"
    by (simp add: read_full.simps)
  moreover have "aead_open session_ssl k (record_nonce n) [] (1 # replicate 16 7) = Some [1]" for k n
    by (simp add: aead_open_def session_ssl_def ref_openssl_def)
  ultimately have "decrypt_one session_ssl c [number_record] = (True, c\<lparr>nc_rx_nonce := nc_rx_nonce c + 1, nc_plaintext := [1]\<rparr>, [])"
    using assms by (simp add: decrypt_one_def noise_consts get_be16_def)
  then show ?thesis using assms by (simp add: noise_read_def noise_fill.simps)
qed

lemma number_request_throws:
  "h2_callbacks L (h2_dispatch session_libs K m) number_request (new_H2, c, (I, w, live)) =
   (Inl Json_type_error, new_H2\<lparr>h2_streams := (h2_streams new_H2)(1 \<mapsto> (new_Stream 1)\<lparr>s_method := ''POST'', s_path := ''/machine/register'', s_body := ''5''\<rparr>)\<rparr>, c, I, w, live)"
  by (simp add: number_request_def h2_callback_step_def on_begin_headers_def on_header_def on_data_def on_frame_def
      NGHTTP2_HEADERS_def NGHTTP2_HCAT_REQUEST_def NGHTTP2_DATA_def NGHTTP2_FLAG_END_STREAM_def new_Stream_def
      h2_dispatch_def on_register_def register_fields_def session_libs_def five_json_def parse_body_def)

lemma session_throws:
  assumes "sk_in k = [number_record]" "nc_plaintext c = []"
  shows "\<exists>h c'. h2_run session_ssl (h2_rounds session_libs m (si_rounds (one_round 1))) (new_H2, (c, k), I, w, live) =
    (Inl Json_type_error, h, c', I, w, live)"
proof -
  obtain c' where "noise_read session_ssl 8192 c [number_record] = ([1], c', [])"
    using number_record_read [OF assms(2)] by blast
  then show ?thesis
    using assms by (simp add: h2_rounds_def one_round_def h2_round_step_def h2_receive_def and_then_def number_request_throws)
qed

text \<open>The thread of this client when it hangs up right after the upgrade.\<close>

lemma hang_up_thread:
  "\<exists>C1. handle_client session_libs (one_round (-1)) 7 (session_conn [upgrade_request]) = (Inr (Some False), C1) \<and>
    im_map_gen (cc_impl C1) = 2"
proof -
  obtain req srv out ws where h: "read_http_request [upgrade_request] = (Some (req, []), [])" "rq_path req = ''/ts2021''"
    "nr_peer_machine_public srv = replicate 32 3"
    "handle_ts2021 session_libs (one_round (-1)) 7 req (session_conn []) = run_session session_libs (one_round (-1)) 7 srv
       ((session_conn [])\<lparr>cc_sock := \<lparr>sk_in = [], sk_send = ws, sk_out = out\<rparr>\<rparr>)"
    by (rule session_starts)
  let ?C = "(session_conn [])\<lparr>cc_sock := \<lparr>sk_in = [], sk_send = ws, sk_out = out\<rparr>\<rparr>"
  obtain c' k' I' where "serve_h2 session_libs [] (si_rounds (one_round (-1))) (format_key Machine (nr_peer_machine_public srv))
      ((new_NoiseConn 7 (nr_tx_key srv) (nr_rx_key srv), cc_sock ?C), cc_impl ?C, cc_world ?C) = (Inr False, (c', k'), I', cc_world ?C)"
      "im_map_gen I' = im_map_gen (cc_impl ?C) + 1"
    using session_hangs_up by blast
  moreover have "si_hello (one_round (-1)) = []" "im_map_gen (cc_impl ?C) = 1" by (simp_all add: one_round_def session_conn_def)
  ultimately have "\<exists>C1. run_session session_libs (one_round (-1)) 7 srv ?C = (Inr False, C1) \<and> im_map_gen (cc_impl C1) = 2"
    by (simp add: run_session_def Let_def)
  moreover have "(session_conn [upgrade_request])\<lparr>cc_sock := (cc_sock (session_conn [upgrade_request]))\<lparr>sk_in := []\<rparr>\<rparr> = session_conn []"
    by (simp add: session_conn_def)
  moreover have "sk_in (cc_sock (session_conn [upgrade_request])) = [upgrade_request]" by (simp add: session_conn_def)
  ultimately show ?thesis using h by (auto simp: handle_client_def Let_def)
qed

theorem descriptor_closed_once_witness:
  "\<exists>C'. client_thread session_libs (one_round (-1)) 7 (session_conn [upgrade_request]) = Some C' \<and> cc_closed C' = [7]"
proof -
  obtain C1 where h: "handle_client session_libs (one_round (-1)) 7 (session_conn [upgrade_request]) = (Inr (Some False), C1)"
    using hang_up_thread by blast
  then have t: "client_thread session_libs (one_round (-1)) 7 (session_conn [upgrade_request]) = Some C1"
    by (simp add: client_thread_def)
  have "cc_closed (session_conn [upgrade_request]) = []" by (simp add: session_conn_def)
  then show ?thesis using descriptor_closed_once [OF t _ h] t by simp
qed

theorem only_authenticated_clients_change_state_witness:
  "\<exists>C' req extra cs init resp nr. client_thread session_libs (one_round (-1)) 7 (session_conn [upgrade_request]) = Some C' \<and>
    im_map_gen (cc_impl C') = 2 \<and> im_map_gen (cc_impl (session_conn [upgrade_request])) = 1 \<and>
    read_http_request [upgrade_request] = (Some (req, extra), cs) \<and> rq_path req = ''/ts2021'' \<and>
    noise_server_handshake session_ssl (Some (replicate 32 6)) (replicate 32 8) init = Inr (Inr (resp, nr))"
proof -
  obtain C1 where h: "handle_client session_libs (one_round (-1)) 7 (session_conn [upgrade_request]) = (Inr (Some False), C1)"
      "im_map_gen (cc_impl C1) = 2"
    using hang_up_thread by blast
  then have t: "client_thread session_libs (one_round (-1)) 7 (session_conn [upgrade_request]) = Some C1"
    by (simp add: client_thread_def)
  have c: "im_map_gen (cc_impl (session_conn [upgrade_request])) = 1" "sk_in (cc_sock (session_conn [upgrade_request])) = [upgrade_request]"
    "st_noise_private (im_store (cc_impl (session_conn [upgrade_request]))) = replicate 32 8"
    "si_draw (one_round (-1)) = Some (replicate 32 6)" "lib_ssl session_libs = session_ssl"
    by (simp_all add: session_conn_def demo_impl_def demo_store_def one_round_def session_libs_def)
  then have "cc_impl C1 \<noteq> cc_impl (session_conn [upgrade_request])" using h(2) by auto
  then show ?thesis
    using only_authenticated_clients_change_state [OF t] t h(2) c by auto
qed

theorem exception_closes_twice_witness:
  "\<exists>C' n. client_thread session_libs (one_round 1) 7 (session_conn [upgrade_request, number_record]) = Some C' \<and>
    cc_closed C' = [7, 7] \<and> st_nodes (im_store (cc_impl C')) = [n] \<and>
    nd_machine_key n = format_key Machine (replicate 32 3) \<and> nd_online n \<and> im_map_gen (cc_impl C') = 1"
proof -
  let ?D = "session_conn [upgrade_request, number_record]" and ?n = "[number_record]"
  obtain req srv out ws where h: "read_http_request [upgrade_request, number_record] = (Some (req, []), ?n)" "rq_path req = ''/ts2021''"
    "nr_peer_machine_public srv = replicate 32 3"
    "handle_ts2021 session_libs (one_round 1) 7 req (session_conn ?n) = run_session session_libs (one_round 1) 7 srv
       ((session_conn ?n)\<lparr>cc_sock := \<lparr>sk_in = ?n, sk_send = ws, sk_out = out\<rparr>\<rparr>)"
    by (rule session_starts)
  let ?C = "(session_conn ?n)\<lparr>cc_sock := \<lparr>sk_in = ?n, sk_send = ws, sk_out = out\<rparr>\<rparr>"
  let ?c = "new_NoiseConn 7 (nr_tx_key srv) (nr_rx_key srv)"
  have ns: "new_session (lib_ssl session_libs) (si_hello (one_round 1)) (?c, cc_sock ?C) (cc_impl ?C, cc_world ?C, []) =
      (Inr (), (new_H2, (?c, cc_sock ?C), cc_impl ?C, cc_world ?C, []))"
    by (simp add: new_session_def one_round_def)
  obtain hh c' where s: "h2_run (lib_ssl session_libs) (h2_rounds session_libs (format_key Machine (nr_peer_machine_public srv)) (si_rounds (one_round 1)))
      (new_H2, (?c, cc_sock ?C), cc_impl ?C, cc_world ?C, []) = (Inl Json_type_error, hh, c', cc_impl ?C, cc_world ?C, [])"
  proof -
    have "sk_in (cc_sock ?C) = [number_record]" "nc_plaintext ?c = []" "lib_ssl session_libs = session_ssl"
      by (simp_all add: new_NoiseConn_def session_libs_def)
    then show thesis using that session_throws [of "cc_sock ?C" ?c] by metis
  qed
  have c: "?D\<lparr>cc_sock := (cc_sock ?D)\<lparr>sk_in := ?n\<rparr>\<rparr> = session_conn ?n"
    "sk_in (cc_sock ?D) = [upgrade_request, number_record]" "cc_closed ?C = cc_closed ?D" "cc_closed ?D = []" "cc_impl ?C = session_impl"
    by (simp_all add: session_conn_def)
  obtain n where n: "st_nodes (im_store session_impl) = [n]" "nd_machine_key n = format_key Machine (replicate 32 3)" "nd_online n"
    by (simp add: session_impl_def demo_impl_def)
  obtain C' where "client_thread session_libs (one_round 1) 7 ?D = Some C'" "cc_closed C' = cc_closed ?D @ [7, 7]"
    "st_nodes (im_store (cc_impl C')) = st_nodes (im_store (cc_impl ?C))" "im_map_gen (cc_impl C') = im_map_gen (cc_impl ?C)"
    using exception_closes_twice [of ?D req "[]" ?n 7 session_libs "one_round 1" srv ?C, OF _ h(2) _ _ c(3) ns s] h(1,4)
    by (auto simp: c(1,2))
  then show ?thesis using n by (simp add: c(4,5))
qed

theorem upgrade_authenticates_witness:
  "\<exists>req resp cli k eph h ck C'. noise_client_finish session_ssl (replicate 32 3) eph resp h ck empty_NoiseResult = Inr (Inr cli) \<and>
    sk_out (k :: sock) = bytes_of_string switching_protocols @ resp \<and>
    handle_ts2021 session_libs (one_round (-1)) 7 req (session_conn []) = (Inr False, C') \<and>
    cc_closed C' = [7] \<and> im_map_gen (cc_impl C') = 2 \<and> (\<forall>n \<in> set (st_nodes (im_store (cc_impl C'))). \<not> nd_online n)"
proof -
  obtain req where req: "header_get req ''upgrade'' = ''tailscale-control-protocol''" "header_get req ''x-tailscale-handshake'' = ''hs''"
    using upgrade_request_parsed by blast
  obtain eph h ck where ci: "noise_client_init session_ssl (Some (replicate 32 5)) (replicate 32 3) (replicate 32 8) 106 = Inr (session_init, eph, h, ck)"
    using session_client_init by blast
  let ?C = "session_conn []"
  have C: "st_noise_private (im_store (cc_impl ?C)) = replicate 32 8" "lib_ssl session_libs = session_ssl"
    "si_draw (one_round (-1)) = Some (replicate 32 6)" "cc_sock ?C = \<lparr>sk_in = [], sk_send = [200, 200], sk_out = []\<rparr>"
    by (simp_all add: session_conn_def session_libs_def one_round_def)
  have b: "b64_decode session_ssl ''hs'' = Inr session_init" by (simp add: b64_decode_def session_ssl_def)
  note u = upgrade_authenticates [of session_libs 7 ?C "replicate 32 8" "replicate 32 3" "replicate 32 3" "replicate 32 5" 106 session_init eph h ck
        "one_round (-1)" "replicate 32 6" req _ empty_NoiseResult, OF _ _ _ _ _ _ _ _ _ _ _ _ _ session_sends]
  have rounds: "h2_run session_ssl (map (\<lambda>r. (f r, g r, sr_round r)) (si_rounds (one_round (-1)))) (hh, c, x) =
      (Inr False, hh\<lparr>h2_alive := False\<rparr>, c, x)" for f g hh c x
    by (simp add: one_round_def h2_round_step_def)
  have hello: "si_hello (one_round (-1)) = []" by (simp add: one_round_def)
  obtain resp cli k where f: "noise_client_finish session_ssl (replicate 32 3) eph resp h ck empty_NoiseResult = Inr (Inr cli)"
    "sk_out k = bytes_of_string switching_protocols @ resp" and
    ts: "handle_ts2021 session_libs (one_round (-1)) 7 req ?C =
      (Inr False, close_fd 7 (?C\<lparr>cc_sock := k, cc_impl := bump_map ((cc_impl ?C)\<lparr>im_store :=
          set_online (format_key Machine (replicate 32 3)) False (im_store (cc_impl ?C))\<rparr>), cc_world := cc_world ?C\<rparr>))"
    using u by (simp add: C session_ssl_laws session_public ci req b rounds hello new_session_def) blast
  let ?C' = "close_fd 7 (?C\<lparr>cc_sock := k, cc_impl := bump_map ((cc_impl ?C)\<lparr>im_store :=
      set_online (format_key Machine (replicate 32 3)) False (im_store (cc_impl ?C))\<rparr>), cc_world := cc_world ?C\<rparr>)"
  have "\<forall>n \<in> set (st_nodes (set_online (format_key Machine (replicate 32 3)) False (im_store session_impl))). \<not> nd_online n"
    by (simp add: session_impl_def demo_impl_def set_online_def)
  then have "cc_closed ?C' = [7]" "im_map_gen (cc_impl ?C') = 2" "\<forall>n \<in> set (st_nodes (im_store (cc_impl ?C'))). \<not> nd_online n"
    by (simp_all add: bump_map_def session_conn_def)
  with f ts show ?thesis by (intro exI conjI) assumption+
qed

theorem non_object_body_throws_witness:
  "h2_dispatch session_libs demo_clock ''mkey:aa'' 1 ''POST'' ''/machine/map'' ''5'' (new_H2, demo_impl demo_store, demo_world, []) =
   (Inl Json_type_error, (new_H2, demo_impl demo_store, demo_world, []))"
  by (rule non_object_body_throws [of _ _ "JInt 5"]) (simp_all add: session_libs_def five_json_def parse_body_def)

text \<open>
  A POST whose head arrives in one round and whose body in the next, between the frames of another
  request that is answered at once.
\<close>

definition post_head :: "h2_callback list" where
  "post_head = [Begin_headers NGHTTP2_HEADERS NGHTTP2_HCAT_REQUEST 5, Header NGHTTP2_HEADERS 5 '':method'' ''POST'',
     Header NGHTTP2_HEADERS 5 '':path'' ''/machine/map'', Frame_recv NGHTTP2_HEADERS 4 5]"

definition post_body :: "h2_callback list" where
  "post_body = [Begin_headers NGHTTP2_HEADERS NGHTTP2_HCAT_REQUEST 7, Header NGHTTP2_HEADERS 7 '':method'' ''GET'', Data_chunk 5 [123],
     Frame_recv NGHTTP2_HEADERS 5 7, Data_source_read 7 100, Stream_close 7, Data_chunk 5 [125]]"

definition head_round :: session_round where
  "head_round = \<lparr>sr_clock = demo_clock, sr_others = id,
     sr_round = \<lparr>hr_poll = 1, hr_error = False, hr_readable = True, hr_recv = (\<lambda>_. (post_head, 0)),
       hr_want_write1 = False, hr_send1 = ([], 0), hr_want_write2 = False, hr_send2 = ([], 0), hr_done = False\<rparr>\<rparr>"

lemmas h2_eval = h2_callback_step_def on_begin_headers_def on_header_def on_data_def on_frame_def on_close_def
  NGHTTP2_HEADERS_def NGHTTP2_HCAT_REQUEST_def NGHTTP2_DATA_def NGHTTP2_FLAG_END_STREAM_def new_Stream_def

theorem request_assembly_witness:
  "\<exists>c k h1 c1 h2 c2. h2_run session_ssl (h2_rounds session_libs ''mkey:aa'' [head_round]) (new_H2, (c, k), session_impl, demo_world, []) =
      (Inr True, h1, c1, session_impl, demo_world, []) \<and>
    h2_callbacks session_ssl (h2_dispatch session_libs demo_clock ''mkey:aa'') post_body (h1, c1, session_impl, demo_world, []) =
      (Inr (), h2, c2, session_impl, demo_world, []) \<and>
    h2_callback_step session_ssl (h2_dispatch session_libs demo_clock ''mkey:aa'') (Frame_recv NGHTTP2_DATA 1 5) (h2, c2, session_impl, demo_world, []) =
      (case h2_dispatch session_libs demo_clock ''mkey:aa'' 5 ''POST'' ''/machine/map'' ''{}'' (h2, session_impl, demo_world, []) of
         (r, h3, w3) \<Rightarrow> (r, h3, c2, w3))"
proof -
  let ?c = "new_NoiseConn 7 [] []" and ?k = "\<lparr>sk_in = [number_record], sk_send = [], sk_out = []\<rparr>"
  let ?w = "(session_impl, demo_world, [])" and ?f = "h2_dispatch session_libs demo_clock ''mkey:aa''"
  let ?h1 = "new_H2\<lparr>h2_streams := (h2_streams new_H2)(5 \<mapsto> (new_Stream 5)\<lparr>s_method := ''POST'', s_path := ''/machine/map''\<rparr>)\<rparr>"
  have ssl: "lib_ssl session_libs = session_ssl" by (simp add: session_libs_def)
  obtain c1 where rd: "noise_read session_ssl 8192 ?c [number_record] = ([1], c1, [])"
    using number_record_read [of ?c] by (auto simp: new_NoiseConn_def)
  let ?c1 = "(c1, ?k\<lparr>sk_in := []\<rparr>)"
  have head: "h2_callbacks session_ssl f post_head (new_H2, c, x) = (Inr (), ?h1, c, x)" for f c x
    by (simp add: post_head_def h2_eval)
  have run: "h2_run session_ssl (h2_rounds session_libs ''mkey:aa'' [head_round]) (new_H2, (?c, ?k), ?w) = (Inr True, ?h1, ?c1, ?w)"
    by (simp add: h2_rounds_def head_round_def h2_round_step_def h2_receive_def h2_flush_def and_then_def rd head
        session_tick_def on_tick_def)
  have "\<exists>h2. h2_callbacks session_ssl ?f post_body (?h1, ?c1, ?w) = (Inr (), h2, ?c1, ?w)"
    by (simp add: post_body_def h2_eval h2_dispatch_def reply_def submit_response_def Let_def)
  then obtain h2 where body: "h2_callbacks session_ssl ?f post_body (?h1, ?c1, ?w) = (Inr (), h2, ?c1, ?w)" by blast
  have cbs: "run_callbacks session_ssl (h2_rounds session_libs ''mkey:aa'' [head_round]) (new_H2, (?c, ?k), ?w) @ post_body =
      [] @ Begin_headers NGHTTP2_HEADERS NGHTTP2_HCAT_REQUEST 5 # tl post_head @ post_body"
    by (simp add: h2_rounds_def head_round_def round_callbacks_def post_head_def)
  have keep: "list_all (keeps_stream 5) (tl post_head @ post_body)" by (simp add: post_head_def post_body_def)
  have parts: "header_of 5 '':method'' (tl post_head @ post_body) [] = ''POST''"
    "header_of 5 '':path'' (tl post_head @ post_body) [] = ''/machine/map''"
    "string_of_bytes (body_of 5 (tl post_head @ post_body)) = ''{}''"
    by code_simp+
  have flags: "(1 :: u8) AND NGHTTP2_FLAG_END_STREAM \<noteq> 0" by (simp add: NGHTTP2_FLAG_END_STREAM_def)
  note ra = request_assembly [of session_libs, unfolded ssl, OF run body cbs keep disjI2 [OF refl] flags, unfolded parts]
  show ?thesis using run body ra by blast
qed

definition no_socket :: listen_os where
  "no_socket = \<lparr>lo_socket = -1, lo_bind = (\<lambda>_ _. True), lo_listen = True, lo_bound_ip = ''0.0.0.0'', lo_bound_port = 8080,
     lo_dns = \<lparr>os_socket = -1, os_bind = (\<lambda>_ _. True), os_bound_ip = [], os_bound_port = 0\<rparr>\<rparr>"

theorem failed_start_sticks_witness:
  "\<exists>e I'. run_async no_socket (demo_impl demo_store) = (Inl e, I') \<and> im_running I' \<and>
    run_async no_socket I' = (Inl (Runtime_error ''coordinator already running''), I') \<and> \<not> im_running (Impl_stop I')"
proof -
  have "case run_async no_socket (demo_impl demo_store) of (Inl e, I') \<Rightarrow> True | (Inr _, I') \<Rightarrow> False" by code_simp
  then obtain e I' where r: "run_async no_socket (demo_impl demo_store) = (Inl e, I')" by (auto split: prod.splits sum.splits)
  have "\<not> im_running (demo_impl demo_store)" by (simp add: demo_impl_def)
  from failed_start_sticks [OF this r] r show ?thesis by blast
qed

end
