(* ===== verification/Api.thy ===== *)
theory Api
  imports Server
begin

text \<open>
  Model of \<^verbatim>\<open>src/src/c_api.cpp\<close>: the C interface through which a host program embeds the
  coordinator. A handle is \<^const>\<open>None\<close> for a null pointer, a C string is \<^const>\<open>None\<close> for a null
  pointer, an exception that crosses the C boundary is \<open>Inl\<close>. What \<^verbatim>\<open>malloc\<close> answers is an
  argument of the calls that allocate.
\<close>

section \<open>Strings and handles\<close>

type_synonym cstr = "string option"

definition c_str :: "string \<Rightarrow> string" where
  "c_str s = takeWhile (\<lambda>c. c \<noteq> CHR 0x00) s"

definition dup_str :: "bool \<Rightarrow> string \<Rightarrow> cstr" where
  "dup_str mem s = (if mem then Some (c_str s) else None)"

definition or_def :: "cstr \<Rightarrow> string \<Rightarrow> string" where
  "or_def v d = (case v of None \<Rightarrow> d | Some s \<Rightarrow> if s = [] then d else s)"

record wirebone_config =
  wc_listen :: cstr
  wc_server_url :: cstr
  wc_ip_prefix :: cstr
  wc_ipv6_prefix :: cstr
  wc_state_path :: cstr
  wc_domain :: cstr
  wc_dns_listen :: cstr

text \<open>
  The object behind a handle. \<open>ca_callback\<close> is whether a persist callback is installed and
  \<open>ca_delivered\<close> what it was called with; the store's hook is the wrapper of
  \<^verbatim>\<open>Impl::set_persist_hook\<close>, which stays installed when the callback is removed.
\<close>

record wirebone_coordinator =
  ca_impl :: Impl
  ca_callback :: bool
  ca_delivered :: "string list"

type_synonym handle = "wirebone_coordinator option"

definition deliver :: "world \<Rightarrow> world \<Rightarrow> wirebone_coordinator \<Rightarrow> wirebone_coordinator" where
  "deliver w w' c =
     (if ca_callback c
      then c\<lparr>ca_delivered := ca_delivered c @ map c_str (drop (length (w_hook_calls w)) (w_hook_calls w'))\<rparr>
      else c)"

section \<open>Life cycle\<close>

definition config_of :: "wirebone_config option \<Rightarrow> Config" where
  "config_of cfg =
     (case cfg of
        None \<Rightarrow> default_Config
      | Some g \<Rightarrow> default_Config
          \<lparr>cf_listen := or_def (wc_listen g) ''0.0.0.0:8080'',
           cf_server_url := or_def (wc_server_url g) ''http://127.0.0.1:8080'',
           cf_ip_prefix := or_def (wc_ip_prefix g) ''100.64.0.0/16'',
           cf_ipv6_prefix := or_def (wc_ipv6_prefix g) ''fd7a:115c:a1e0::/48'',
           cf_state_path := (case wc_state_path g of None \<Rightarrow> [] | Some p \<Rightarrow> p),
           cf_domain := or_def (wc_domain g) ''wirebone.local'',
           cf_dns_listen := (case wc_dns_listen g of None \<Rightarrow> ''0.0.0.0:5353'' | Some d \<Rightarrow> d)\<rparr>)"

definition wirebone_create ::
  "libs \<Rightarrow> bytes option \<Rightarrow> bytes option \<Rightarrow> clock \<Rightarrow> wirebone_config option \<Rightarrow> world \<Rightarrow> handle \<times> world" where
  "wirebone_create E draw1 draw2 K cfg w =
     (case new_Impl E draw1 draw2 K (config_of cfg) w of
        (Inl e, w') \<Rightarrow> (None, w')
      | (Inr I, w') \<Rightarrow> (Some \<lparr>ca_impl = I, ca_callback = False, ca_delivered = []\<rparr>, w'))"

definition wirebone_start :: "listen_os \<Rightarrow> handle \<Rightarrow> int \<times> handle" where
  "wirebone_start Q c =
     (case c of
        None \<Rightarrow> (-1, None)
      | Some a \<Rightarrow>
          (case run_async Q (ca_impl a) of
             (Inl e, I) \<Rightarrow> (-1, Some (a\<lparr>ca_impl := I\<rparr>))
           | (Inr _, I) \<Rightarrow> (0, Some (a\<lparr>ca_impl := I\<rparr>))))"

definition wirebone_stop :: "handle \<Rightarrow> handle" where
  "wirebone_stop c = map_option (\<lambda>a. a\<lparr>ca_impl := Impl_stop (ca_impl a)\<rparr>) c"

text \<open>Deleting the object stops it first; the result is what is left to free.\<close>

definition wirebone_destroy :: "handle \<Rightarrow> Impl option" where
  "wirebone_destroy c = map_option (\<lambda>a. Impl_stop (ca_impl a)) c"

definition wirebone_running :: "handle \<Rightarrow> int" where
  "wirebone_running c = (case c of None \<Rightarrow> 0 | Some a \<Rightarrow> if im_running (ca_impl a) then 1 else 0)"

definition wirebone_bound_address :: "bool \<Rightarrow> handle \<Rightarrow> cstr" where
  "wirebone_bound_address mem c = (case c of None \<Rightarrow> None | Some a \<Rightarrow> dup_str mem (im_bound (ca_impl a)))"

section \<open>Keys and nodes\<close>

definition wirebone_bootstrap_key :: "bool \<Rightarrow> handle \<Rightarrow> cstr" where
  "wirebone_bootstrap_key mem c = (case c of None \<Rightarrow> None | Some a \<Rightarrow> dup_str mem (im_bootstrap_key (ca_impl a)))"

definition wirebone_create_preauth_key_ex ::
  "libs \<Rightarrow> bytes option \<Rightarrow> clock \<Rightarrow> bool \<Rightarrow> int \<Rightarrow> int \<Rightarrow> cstr \<Rightarrow> int \<Rightarrow> handle \<Rightarrow> world \<Rightarrow> cstr \<times> handle \<times> world" where
  "wirebone_create_preauth_key_ex E draw K mem reusable ephemeral token shared c w =
     (case c of
        None \<Rightarrow> (None, None, w)
      | Some a \<Rightarrow>
          let opts = \<lparr>po_reusable = reusable \<noteq> 0, po_ephemeral = ephemeral \<noteq> 0, po_expiration = 0,
                      po_token = or_def token [], po_shared = (if 0 \<le> shared then Some (shared \<noteq> 0) else None)\<rparr>
          in case Impl_create_preauth_key E draw K opts (ca_impl a) w of
               (Inl e, I, w') \<Rightarrow> (None, Some (deliver w w' (a\<lparr>ca_impl := I\<rparr>)), w')
             | (Inr key, I, w') \<Rightarrow> (dup_str mem key, Some (deliver w w' (a\<lparr>ca_impl := I\<rparr>)), w'))"

definition wirebone_create_preauth_key ::
  "libs \<Rightarrow> bytes option \<Rightarrow> clock \<Rightarrow> bool \<Rightarrow> int \<Rightarrow> int \<Rightarrow> handle \<Rightarrow> world \<Rightarrow> cstr \<times> handle \<times> world" where
  "wirebone_create_preauth_key E draw K mem reusable ephemeral c w =
     wirebone_create_preauth_key_ex E draw K mem reusable ephemeral None (-1) c w"

definition wirebone_noise_public_key :: "libs \<Rightarrow> bool \<Rightarrow> handle \<Rightarrow> cstr res" where
  "wirebone_noise_public_key E mem c =
     (case c of None \<Rightarrow> Inr None | Some a \<Rightarrow> res_bind (noise_public_key E (ca_impl a)) (\<lambda>k. Inr (dup_str mem k)))"

record wirebone_node_info =
  wn_id :: u64
  wn_hostname :: cstr
  wn_ipv4 :: cstr
  wn_ipv6 :: cstr
  wn_node_key :: cstr
  wn_online :: int
  wn_token :: cstr
  wn_shared :: int

definition c_node :: "(nat \<Rightarrow> bool) \<Rightarrow> nat \<Rightarrow> NodeInfo \<Rightarrow> wirebone_node_info" where
  "c_node mem i n =
     \<lparr>wn_id = ni_id n, wn_hostname = dup_str (mem (5 * i)) (ni_hostname n), wn_ipv4 = dup_str (mem (5 * i + 1)) (ni_ipv4 n),
      wn_ipv6 = dup_str (mem (5 * i + 2)) (ni_ipv6 n), wn_node_key = dup_str (mem (5 * i + 3)) (ni_node_key n),
      wn_online = (if ni_online n then 1 else 0), wn_token = dup_str (mem (5 * i + 4)) (ni_token n),
      wn_shared = (if ni_shared n then 1 else 0)\<rparr>"

text \<open>
  \<open>has_count\<close>: the caller passed a place for the count. \<open>calloc\<close> and \<open>mem i\<close>: whether the array
  and the \<open>i\<close>-th string could be allocated. The result is the array and the count written.
\<close>

definition wirebone_list_nodes ::
  "bool \<Rightarrow> (nat \<Rightarrow> bool) \<Rightarrow> bool \<Rightarrow> handle \<Rightarrow> wirebone_node_info list option \<times> nat option" where
  "wirebone_list_nodes calloc mem has_count c =
     (case c of
        None \<Rightarrow> (None, if has_count then Some 0 else None)
      | Some a \<Rightarrow>
          if \<not> has_count then (None, None)
          else
            let nodes = list_nodes (ca_impl a) in
            if nodes = [] \<or> \<not> calloc then (None, Some 0)
            else (Some (map (\<lambda>(i, n). c_node mem i n) (enumerate 0 nodes)), Some (length nodes)))"

text \<open>The strings handed to \<^verbatim>\<open>free\<close>; reading past the end of the array is undefined.\<close>

definition wirebone_free_nodes :: "wirebone_node_info list option \<Rightarrow> nat \<Rightarrow> cstr list res" where
  "wirebone_free_nodes nodes count =
     (case nodes of
        None \<Rightarrow> Inr []
      | Some ns \<Rightarrow>
          if length ns < count then Inl Undefined_behaviour
          else Inr (concat (map (\<lambda>n. [wn_hostname n, wn_ipv4 n, wn_ipv6 n, wn_node_key n, wn_token n]) (take count ns))))"

section \<open>Snapshots\<close>

definition wirebone_export_state :: "libs \<Rightarrow> bool \<Rightarrow> handle \<Rightarrow> cstr res" where
  "wirebone_export_state E mem c =
     (case c of None \<Rightarrow> Inr None | Some a \<Rightarrow> res_bind (export_state E (ca_impl a)) (\<lambda>t. Inr (dup_str mem t)))"

definition wirebone_import_state :: "libs \<Rightarrow> cstr \<Rightarrow> handle \<Rightarrow> int \<times> handle" where
  "wirebone_import_state E json c =
     (case c of
        None \<Rightarrow> (-1, None)
      | Some a \<Rightarrow>
          (case import_state E (case json of None \<Rightarrow> ''{}'' | Some t \<Rightarrow> t) (ca_impl a) of
             (Inl e, I) \<Rightarrow> (-1, Some (a\<lparr>ca_impl := I\<rparr>))
           | (Inr _, I) \<Rightarrow> (0, Some (a\<lparr>ca_impl := I\<rparr>))))"

definition Impl_persist :: "libs \<Rightarrow> Impl \<Rightarrow> world \<Rightarrow> unit res \<times> Impl \<times> world" where
  "Impl_persist E I w = (case persist (lib_json E) (im_store I) w of (r, s, w') \<Rightarrow> (r, I\<lparr>im_store := s\<rparr>, w'))"

definition wirebone_persist :: "libs \<Rightarrow> handle \<Rightarrow> world \<Rightarrow> int \<times> handle \<times> world" where
  "wirebone_persist E c w =
     (case c of
        None \<Rightarrow> (-1, None, w)
      | Some a \<Rightarrow>
          (case Impl_persist E (ca_impl a) w of
             (Inl e, I, w') \<Rightarrow> (-1, Some (deliver w w' (a\<lparr>ca_impl := I\<rparr>)), w')
           | (Inr _, I, w') \<Rightarrow> (0, Some (deliver w w' (a\<lparr>ca_impl := I\<rparr>)), w')))"

definition Impl_set_persist_hook :: "Impl \<Rightarrow> Impl" where
  "Impl_set_persist_hook I = I\<lparr>im_store := set_persist_hook True (im_store I)\<rparr>"

definition wirebone_set_persist_callback :: "bool \<Rightarrow> handle \<Rightarrow> handle" where
  "wirebone_set_persist_callback cb c =
     map_option (\<lambda>a. a\<lparr>ca_impl := Impl_set_persist_hook (ca_impl a), ca_callback := cb\<rparr>) c"

section \<open>Moving a coordinator\<close>

text \<open>\<^verbatim>\<open>dump\<close> escapes every control character.\<close>

definition dump_has_no_nul :: "nlohmann \<Rightarrow> bool" where
  "dump_has_no_nul J \<longleftrightarrow> (\<forall>j t. nl_dump J j = Some t \<longrightarrow> CHR 0x00 \<notin> set t)"

lemma c_str_plain: "CHR 0x00 \<notin> set s \<Longrightarrow> c_str s = s"
  by (auto simp: c_str_def takeWhile_eq_all_conv)

text \<open>
  C23: A host that exports one coordinator through the C interface and imports the text into
  another one gets a coordinator with the same nodes, the same preauth keys and the same Noise
  identity, whatever the second one held before, as long as counters, node ids and expiry times
  fit a 32-bit \<^verbatim>\<open>int\<close>; its bootstrap key is the first imported key.
\<close>

theorem c_export_import:
  assumes "nl_laws (lib_json E)" "snapshot_text_laws (lib_json E)" "dump_has_no_nul (lib_json E)"
    and "snapshot_fits (im_store (ca_impl a))"
    and "wirebone_export_state E True (Some a) = Inr (Some t)"
  shows "\<exists>b'. wirebone_import_state E (Some t) (Some b) = (0, Some b') \<and>
    wirebone_list_nodes calloc mem True (Some b') = wirebone_list_nodes calloc mem True (Some a) \<and>
    list_preauth_keys (ca_impl b') = list_preauth_keys (ca_impl a) \<and>
    wirebone_noise_public_key E m (Some b') = wirebone_noise_public_key E m (Some a) \<and>
    wirebone_bootstrap_key True (Some b') =
      Some (case list_preauth_keys (ca_impl a) of [] \<Rightarrow> [] | k # _ \<Rightarrow> c_str (pi_key k))"
proof -
  have d: "dump_json (lib_json E) (im_store (ca_impl a)) = Inr t"
    using assms(3,5)
    by (auto simp: wirebone_export_state_def export_state_def dump_json_def dup_str_def dump_has_no_nul_def c_str_plain
        split: option.splits)
  show ?thesis
    using dump_load_json [OF assms(1,2,4) d, of "im_store (ca_impl b)"]
    by (cases "st_keys (im_store (ca_impl a))")
      (auto simp: wirebone_import_state_def import_state_def wirebone_list_nodes_def list_nodes_def list_preauth_keys_def
        wirebone_noise_public_key_def noise_public_key_def noise_public_text_def wirebone_bootstrap_key_def dup_str_def c_str_def)
qed

section \<open>The persist callback\<close>

lemma save_locked_hook:
  assumes "save_locked J s w = (Inr (), w')" "st_persist_hook s"
  shows "\<exists>t. nl_dump J (snapshot_locked s) = Some t \<and> w_hook_calls w' = w_hook_calls w @ [t]"
  using assms by (auto simp: save_locked_def write_state_eq Let_def split: if_splits option.splits)

text \<open>
  Once a persist callback is installed, every key the host creates is reported to it: a
  successful call delivers exactly one text, and it is the text an export of the new state
  gives. The new key carries the requested group, and without an explicit flag it is shared
  exactly when no group was named.
\<close>

theorem created_key_is_reported:
  assumes "wirebone_create_preauth_key_ex E draw K mem reusable ephemeral token shared
      (wirebone_set_persist_callback True (Some b)) w = (Some key, Some a, w')"
  shows "\<exists>t. ca_delivered a = ca_delivered b @ [t] \<and> wirebone_export_state E True (Some a) = Inr (Some t) \<and>
    (\<exists>k. list_preauth_keys (ca_impl a) = list_preauth_keys (ca_impl b) @ [k] \<and> c_str (pi_key k) = key \<and>
       \<not> pi_used k \<and> (pi_reusable k \<longleftrightarrow> reusable \<noteq> 0) \<and> (pi_ephemeral k \<longleftrightarrow> ephemeral \<noteq> 0) \<and>
       pi_token k = or_def token [] \<and> (pi_shared k \<longleftrightarrow> (if shared < 0 then or_def token [] = [] else shared \<noteq> 0)))"
proof -
  obtain raw where r: "random_token draw = Inr raw"
    using assms
    by (cases "random_token draw")
      (auto simp: wirebone_create_preauth_key_ex_def wirebone_set_persist_callback_def Impl_create_preauth_key_def create_preauth_key_def)
  define k where "k = \<lparr>pk_key = raw, pk_reusable = reusable \<noteq> 0, pk_ephemeral = ephemeral \<noteq> 0, pk_used = False, pk_expires_unix = 0,
    pk_token = or_def token [], pk_shared = resolve_shared (or_def token []) (if 0 \<le> shared then Some (shared \<noteq> 0) else None)\<rparr>"
  define s where "s = set_persist_hook True (im_store (ca_impl b))"
  define s1 where "s1 = s\<lparr>st_keys := st_keys s @ [k]\<rparr>"
  obtain w1 where sv: "save_locked (lib_json E) s1 w = (Inr (), w1)"
    and a: "key = c_str raw" "a = deliver w w1 (b\<lparr>ca_callback := True, ca_impl := (ca_impl b)\<lparr>im_store := s1\<rparr>\<rparr>)"
    using assms r
    by (cases "save_locked (lib_json E) s1 w")
      (auto simp: wirebone_create_preauth_key_ex_def wirebone_set_persist_callback_def Impl_create_preauth_key_def create_preauth_key_def
        save_and_return_def Impl_set_persist_hook_def s_def [symmetric] k_def [symmetric] s1_def [symmetric] dup_str_def
        split: sum.splits if_splits)
  obtain t where t: "nl_dump (lib_json E) (snapshot_locked s1) = Some t" "w_hook_calls w1 = w_hook_calls w @ [t]"
    using save_locked_hook [OF sv] by (auto simp: s1_def s_def set_persist_hook_def)
  have "ca_impl a = (ca_impl b)\<lparr>im_store := s1\<rparr>" "ca_delivered a = ca_delivered b @ [c_str t]"
    using a(2) t(2) by (simp_all add: deliver_def)
  then show ?thesis
    using t(1) a(1)
    by (auto simp: wirebone_export_state_def export_state_def dump_json_def dup_str_def list_preauth_keys_def s1_def s_def
        set_persist_hook_def k_def resolve_shared_def)
qed

section \<open>Text that cannot be printed\<close>

text \<open>A store with a key that the library cannot print.\<close>

definition unprintable :: "nlohmann \<Rightarrow> Store \<Rightarrow> bool" where
  "unprintable J s \<longleftrightarrow> st_path s \<noteq> [] \<and> nl_dump J (snapshot_locked s) = None \<and> nl_dump2 J (snapshot_locked s) = None"

lemma save_unprintable:
  assumes "unprintable J s"
  shows "\<exists>e w'. save_locked J s w = (Inl e, w') \<and> w_files w' (st_path s) = w_files w (st_path s)"
  using assms by (auto simp: unprintable_def save_locked_def write_state_eq Let_def)

lemma save_and_return_unprintable: "unprintable J s \<Longrightarrow> \<exists>e w'. save_and_return J x s w = (Inl e, s, w')"
  using save_unprintable [of J s w] by (auto simp: save_and_return_def)

lemma create_key_unprintable:
  assumes "\<And>k. unprintable (lib_json E) ((im_store (ca_impl a))\<lparr>st_keys := st_keys (im_store (ca_impl a)) @ [k]\<rparr>)"
  shows "fst (wirebone_create_preauth_key_ex E draw K mem r e t sh (Some a) w) = None"
proof -
  let ?s = "im_store (ca_impl a)"
  have "isl (fst (save_and_return (lib_json E) y (?s\<lparr>st_keys := st_keys ?s @ [k]\<rparr>) w))" for k and y :: string
    using save_and_return_unprintable [OF assms, of y k w] by auto
  then have "isl (fst (create_preauth_key (lib_json E) draw n rr x 0 tk sg ?s w))" for n rr x tk sg
    by (simp add: create_preauth_key_def Let_def split: sum.split)
  then show ?thesis
    by (auto simp: wirebone_create_preauth_key_ex_def Impl_create_preauth_key_def Let_def isl_def split: sum.splits prod.splits)
      (metis fst_conv sum.distinct(1))+
qed

lemma update_map_unprintable:
  assumes "find_by_machine m s = Some n" "\<And>ns. unprintable J (s\<lparr>st_nodes := ns\<rparr>)"
  shows "isl (fst (update_map_info J m nk dk hn eps s w))"
proof -
  have "isl (fst (save_and_return J () (s\<lparr>st_nodes := ns\<rparr>) w))" for ns
    using save_and_return_unprintable [OF assms(2), of "()" ns w] by auto
  then show ?thesis using assms(1) by (simp add: update_map_info_def find_by_machine_def Let_def)
qed

text \<open>
  C38: A group name that the JSON library refuses to print (octets that are not UTF-8) is only
  noticed when the state is saved. The call returns a null pointer and the file keeps its old
  text, but the key stays in the list in memory. As long as it is there no save succeeds: the host
  can neither persist nor create another key, the map requests of registered machines fail, and an
  export throws through the C boundary. The next attempt to use a preauth key ends this when the
  state file can be read: it replaces the list by the keys of the file.
\<close>

theorem invalid_token_poisons_state:
  assumes laws: "nl_laws (lib_json E)"
    and bad: "\<forall>s. (\<exists>k\<in>set (st_keys s). pk_token k = t) \<longrightarrow>
      nl_dump (lib_json E) (snapshot_locked s) = None \<and> nl_dump2 (lib_json E) (snapshot_locked s) = None"
    and "t \<noteq> []" "st_path (im_store (ca_impl a)) \<noteq> []" "random_token draw = Inr raw"
  shows "\<exists>a' w'. wirebone_create_preauth_key_ex E draw K mem reusable ephemeral (Some t) shared (Some a) w = (None, Some a', w') \<and>
    w_files w' (st_path (im_store (ca_impl a))) = w_files w (st_path (im_store (ca_impl a))) \<and>
    wirebone_export_state E mem2 (Some a') = Inl Json_type_error \<and>
    (\<forall>w2. fst (wirebone_persist E (Some a') w2) = -1) \<and>
    (\<forall>draw2 K2 r2 e2 t2 sh2 w2. fst (wirebone_create_preauth_key_ex E draw2 K2 mem r2 e2 t2 sh2 (Some a') w2) = None) \<and>
    (\<forall>m n nk dk hn eps w2. find_by_machine m (im_store (ca_impl a')) = Some n \<longrightarrow>
       isl (fst (update_map_info (lib_json E) m nk dk hn eps (im_store (ca_impl a')) w2))) \<and>
    (\<forall>ks now key w2. reload_read (lib_json E) (im_store (ca_impl a')) w2 = Some (JArr (map key_to_json ks)) \<and>
         (\<forall>k\<in>set ks. int32_range (pk_expires_unix k)) \<longrightarrow>
       consume_preauth (lib_json E) now key (im_store (ca_impl a')) w2 =
       consume_locked (lib_json E) now key ((im_store (ca_impl a'))\<lparr>st_keys := ks\<rparr>) w2)"
proof -
  let ?J = "lib_json E"
  define s1 where "s1 = (im_store (ca_impl a))\<lparr>st_keys := st_keys (im_store (ca_impl a)) @ [\<lparr>pk_key = raw, pk_reusable = reusable \<noteq> 0,
    pk_ephemeral = ephemeral \<noteq> 0, pk_used = False, pk_expires_unix = 0, pk_token = t,
    pk_shared = resolve_shared t (if 0 \<le> shared then Some (shared \<noteq> 0) else None)\<rparr>]\<rparr>"
  have un: "unprintable ?J s" if "\<exists>k\<in>set (st_keys s). pk_token k = t" "st_path s = st_path s1" for s
    using bad that assms(4) by (simp add: unprintable_def s1_def)
  have s1: "\<exists>k\<in>set (st_keys s1). pk_token k = t" by (simp add: s1_def)
  obtain e w' where sv: "save_locked ?J s1 w = (Inl e, w')" "w_files w' (st_path s1) = w_files w (st_path s1)"
    using save_unprintable [OF un [OF s1 refl]] by blast
  define a' where "a' = deliver w w' (a\<lparr>ca_impl := (ca_impl a)\<lparr>im_store := s1\<rparr>\<rparr>)"
  have ia: "im_store (ca_impl a') = s1" by (simp add: a'_def deliver_def)
  have created: "wirebone_create_preauth_key_ex E draw K mem reusable ephemeral (Some t) shared (Some a) w = (None, Some a', w')"
    using sv(1) assms(3,5)
    by (simp add: wirebone_create_preauth_key_ex_def Impl_create_preauth_key_def create_preauth_key_def save_and_return_def
        or_def_def s1_def a'_def)
  have kept: "w_files w' (st_path (im_store (ca_impl a))) = w_files w (st_path (im_store (ca_impl a)))"
    using sv(2) by (simp add: s1_def)
  have export: "wirebone_export_state E mem2 (Some a') = Inl Json_type_error"
    using un [OF s1 refl] by (simp add: wirebone_export_state_def export_state_def dump_json_def ia unprintable_def)
  have save: "fst (wirebone_persist E (Some a') w2) = -1" for w2
    using save_and_return_unprintable [OF un [OF s1 refl], of "()" w2]
    by (auto simp: wirebone_persist_def Impl_persist_def persist_def ia)
  have no_key: "fst (wirebone_create_preauth_key_ex E draw2 K2 mem r2 e2 t2 sh2 (Some a') w2) = None" for draw2 K2 r2 e2 t2 sh2 w2
    using s1 by (intro create_key_unprintable) (auto simp: ia intro!: un)
  have no_map: "isl (fst (update_map_info ?J m nk dk hn eps s1 w2))" if "find_by_machine m s1 = Some n" for m n nk dk hn eps w2
    using s1 by (intro update_map_unprintable [OF that]) (auto intro!: un)
  have reload: "consume_preauth ?J now key s1 w2 = consume_locked ?J now key (s1\<lparr>st_keys := ks\<rparr>) w2"
    if "reload_read ?J s1 w2 = Some (JArr (map key_to_json ks))" "\<forall>k\<in>set ks. int32_range (pk_expires_unix k)" for ks now key w2
    using reload_install_keys [OF laws that(2), of s1] that(1) by (simp add: consume_preauth_def reload_keys_from_disk_def)
  show ?thesis
    by (rule exI [of _ a'], rule exI [of _ w'], unfold ia) (use created kept export save no_key no_map reload in blast)
qed

section \<open>The node list\<close>

text \<open>
  The node list handed to C is complete and can be given back: its length is the count that
  was written, its entries are the registered nodes in order, a null pointer stands for an empty
  list, and freeing it with that count frees every string of every entry and nothing else.
\<close>

theorem node_list_is_complete:
  "\<exists>ns. wirebone_list_nodes True (\<lambda>_. True) True (Some a) = (if ns = [] then None else Some ns, Some (length ns)) \<and>
    map wn_id ns = map nd_id (st_nodes (im_store (ca_impl a))) \<and>
    map wn_ipv4 ns = map (\<lambda>n. Some (c_str (nd_ipv4 n))) (st_nodes (im_store (ca_impl a))) \<and>
    map wn_token ns = map (\<lambda>n. Some (c_str (nd_token n))) (st_nodes (im_store (ca_impl a))) \<and>
    map wn_shared ns = map (\<lambda>n. if nd_shared n then 1 else 0) (st_nodes (im_store (ca_impl a))) \<and>
    wirebone_free_nodes (Some ns) (length ns) =
      Inr (concat (map (\<lambda>n. [wn_hostname n, wn_ipv4 n, wn_ipv6 n, wn_node_key n, wn_token n]) ns))"
proof -
  let ?ns = "map (\<lambda>(i, n). c_node (\<lambda>_. True) i n) (enumerate 0 (list_nodes (ca_impl a)))"
  have proj: "map f ?ns = map g (st_nodes (im_store (ca_impl a)))" if "\<And>i n. f (c_node (\<lambda>_. True) i (node_info n)) = g n" for f g
  proof -
    have "map f (map (\<lambda>(i, n). c_node (\<lambda>_. True) i n) (enumerate k (map node_info ms))) = map g ms" for k ms
      using that by (induction ms arbitrary: k) auto
    then show ?thesis by (simp add: list_nodes_def)
  qed
  have "map wn_id ?ns = map nd_id (st_nodes (im_store (ca_impl a)))"
    "map wn_ipv4 ?ns = map (\<lambda>n. Some (c_str (nd_ipv4 n))) (st_nodes (im_store (ca_impl a)))"
    "map wn_token ?ns = map (\<lambda>n. Some (c_str (nd_token n))) (st_nodes (im_store (ca_impl a)))"
    "map wn_shared ?ns = map (\<lambda>n. if nd_shared n then 1 else 0) (st_nodes (im_store (ca_impl a)))"
    by (intro proj; simp add: c_node_def node_info_def dup_str_def)+
  then show ?thesis
    by (intro exI [of _ ?ns])
      (simp add: wirebone_list_nodes_def wirebone_free_nodes_def list_nodes_def Let_def enumerate_eq_zip)
qed

section \<open>Concrete hosts\<close>

definition demo_host :: "Store \<Rightarrow> wirebone_coordinator" where
  "demo_host s = \<lparr>ca_impl = demo_impl s, ca_callback = False, ca_delivered = []\<rparr>"

lemma demo_host_simps [simp]: "ca_impl (demo_host s) = demo_impl s" "ca_delivered (demo_host s) = []"
  by (simp_all add: demo_host_def)

lemma ref_dump_has_no_nul: "dump_has_no_nul ref_json"
proof -
  have "CHR 0x00 \<notin> set (ref_text j)" for j
    using set_takeWhileD [of "CHR 0x00" is_digit "ref_text j"] by (auto simp: is_digit_def)
  then show ?thesis by (simp add: dump_has_no_nul_def)
qed

theorem c_export_import_witness:
  "\<exists>t b'. wirebone_export_state demo_libs True (Some (demo_host demo_store)) = Inr (Some t) \<and>
    wirebone_import_state demo_libs (Some t) (Some (demo_host demo_store2)) = (0, Some b') \<and>
    wirebone_list_nodes True (\<lambda>_. True) True (Some b') = (None, Some 0) \<and>
    wirebone_bootstrap_key True (Some b') = Some ''wbkey-1''"
proof -
  have e: "wirebone_export_state demo_libs True (Some (demo_host demo_store)) = Inr (Some (c_str (ref_text (snapshot_locked demo_store))))"
    by (simp add: wirebone_export_state_def export_state_def dump_json_def dup_str_def)
  have f: "snapshot_fits (im_store (ca_impl (demo_host demo_store)))"
    by (simp add: snapshot_fits_def demo_store_def demo_key_def int32_range_def)
  have l: "list_preauth_keys (demo_impl demo_store) = [\<lparr>pi_key = ''wbkey-1'', pi_reusable = False, pi_ephemeral = False, pi_used = False,
      pi_token = ''alpha'', pi_shared = False\<rparr>]" "list_nodes (demo_impl demo_store) = []" "c_str ''wbkey-1'' = ''wbkey-1''"
    by (simp_all add: list_preauth_keys_def list_nodes_def demo_store_def demo_key_def c_str_def)
  have J: "nl_laws (lib_json demo_libs)" "snapshot_text_laws (lib_json demo_libs)" "dump_has_no_nul (lib_json demo_libs)"
    by (simp_all add: ref_json_laws ref_snapshot_text_laws ref_dump_has_no_nul)
  show ?thesis
    using c_export_import [OF J f e, of "demo_host demo_store2" True "\<lambda>_. True" True] e
    by (auto simp: l wirebone_list_nodes_def)
qed

theorem created_key_is_reported_witness:
  "\<exists>key a w' t. wirebone_create_preauth_key_ex demo_libs (Some (replicate 32 0)) demo_clock True 0 0 (Some ''beta'') (-1)
      (wirebone_set_persist_callback True (Some (demo_host demo_store))) demo_world = (Some key, Some a, w') \<and>
    ca_delivered a = [t] \<and> wirebone_export_state demo_libs True (Some a) = Inr (Some t)"
proof -
  let ?c = "wirebone_set_persist_callback True (Some (demo_host demo_store))"
  obtain key a w' where c: "wirebone_create_preauth_key_ex demo_libs (Some (replicate 32 0)) demo_clock True 0 0 (Some ''beta'') (-1)
      ?c demo_world = (Some key, Some a, w')"
    by (auto simp: wirebone_create_preauth_key_ex_def wirebone_set_persist_callback_def Impl_create_preauth_key_def create_preauth_key_def
        random_token_def random_bytes_def save_and_return_def save_locked_def write_state_eq Let_def Impl_set_persist_hook_def
        set_persist_hook_def demo_store_def demo_world_def dup_str_def)
  show ?thesis using created_key_is_reported [OF c] c by auto
qed

text \<open>A JSON library that refuses one group name, as the real one refuses octets that are not UTF-8.\<close>

definition strict_dump :: "json \<Rightarrow> string option" where
  "strict_dump j =
     (case json_find j ''preauth_keys'' of
        Some (JArr ks) \<Rightarrow> if \<exists>k\<in>set ks. json_find k ''token'' = Some (JStr [CHR 0xFF]) then None else Some (ref_text j)
      | _ \<Rightarrow> Some (ref_text j))"

definition strict_libs :: libs where
  "strict_libs = demo_libs\<lparr>lib_json := ref_json\<lparr>nl_dump := strict_dump, nl_dump2 := strict_dump\<rparr>\<rparr>"

theorem invalid_token_poisons_state_witness:
  "\<exists>a' w'. wirebone_create_preauth_key_ex strict_libs (Some (replicate 32 0)) demo_clock True 1 0 (Some [CHR 0xFF]) (-1)
      (Some (demo_host demo_store)) demo_world = (None, Some a', w') \<and>
    wirebone_export_state strict_libs True (Some a') = Inl Json_type_error \<and>
    fst (wirebone_create_preauth_key_ex strict_libs (Some (replicate 32 1)) demo_clock True 1 0 None (-1) (Some a') demo_world) = None"
proof -
  have "strict_dump (snapshot_locked s) = None" if "\<exists>k\<in>set (st_keys s). pk_token k = [CHR 0xFF]" for s
    using that by (auto simp: strict_dump_def snapshot_locked_def key_to_json_def)
  then have bad: "\<forall>s. (\<exists>k\<in>set (st_keys s). pk_token k = [CHR 0xFF]) \<longrightarrow>
      nl_dump (lib_json strict_libs) (snapshot_locked s) = None \<and> nl_dump2 (lib_json strict_libs) (snapshot_locked s) = None"
    by (simp add: strict_libs_def)
  have laws: "nl_laws (lib_json strict_libs)"
    using ref_json_laws by (simp add: nl_laws_def strict_libs_def)
  have r: "random_token (Some (replicate 32 0)) = Inr (''wbkey-'' @ hex_encode (replicate 32 0))"
    by (simp add: random_token_def random_bytes_def)
  have p: "st_path (im_store (ca_impl (demo_host demo_store))) \<noteq> []" by (simp add: demo_store_def)
  obtain a' w' where "wirebone_create_preauth_key_ex strict_libs (Some (replicate 32 0)) demo_clock True 1 0 (Some [CHR 0xFF]) (-1)
      (Some (demo_host demo_store)) demo_world = (None, Some a', w')"
    "wirebone_export_state strict_libs True (Some a') = Inl Json_type_error"
    "\<And>d K r e t sh w. fst (wirebone_create_preauth_key_ex strict_libs d K True r e t sh (Some a') w) = None"
    using invalid_token_poisons_state [OF laws bad _ p r, of demo_clock True 1 0 "-1" demo_world True] by auto
  then show ?thesis by blast
qed

end
