(* ===== verification/Cli.thy ===== *)
theory Cli
  imports Api
begin

text \<open>
  Model of \<^verbatim>\<open>src/src/main.cpp\<close>: the command line tool. An argument list is \<^verbatim>\<open>argv\<close> with the
  program name; the outcome is the exit code, an exception that leaves \<^verbatim>\<open>main\<close>, or a server that
  is accepting connections, with what was written to the standard output and to the error output
  and the files afterwards.
\<close>

section \<open>Options\<close>

fun opt :: "string list \<Rightarrow> string \<Rightarrow> string \<Rightarrow> string" where
  "opt (a # b # r) name d = (if a = name then b else opt (b # r) name d)"
| "opt args name d = d"

definition flag :: "string list \<Rightarrow> string \<Rightarrow> bool" where
  "flag args name = list_ex (\<lambda>a. a = name) args"

definition cfg_from_args :: "string list \<Rightarrow> Config" where
  "cfg_from_args args = default_Config
     \<lparr>cf_listen := opt args ''--listen'' ''0.0.0.0:8080'',
      cf_server_url := opt args ''--url'' ''http://127.0.0.1:8080'',
      cf_state_path := opt args ''--state'' ''wirebone.state.json'',
      cf_domain := opt args ''--domain'' ''wirebone.local'',
      cf_dns_listen := opt args ''--dns'' ''0.0.0.0:5353''\<rparr>"

abbreviation line :: "string \<Rightarrow> string" where
  "line s \<equiv> s @ [CHR 0x0A]"

abbreviation tab :: string where
  "tab \<equiv> [CHR 0x09]"

definition usage :: string where
  "usage =
     line (''wirebone '' @ [CHR 0xE2, CHR 0x80, CHR 0x94] @ '' embeddable Tailscale/Headscale-compatible coordinator'') @
     line [] @
     line ''Usage:'' @
     line ''  wirebone serve [--listen HOST:PORT] [--url URL] [--state PATH]'' @
     line ''                 [--domain NAME] [--dns HOST:PORT]'' @
     line ''  wirebone preauth create [--state PATH] [--one-shot] [--ephemeral]'' @
     line ''                          [--token ID] [--shared|--no-shared]'' @
     line ''  wirebone nodes list [--state PATH]''"

section \<open>Commands\<close>

datatype outcome = Exit int | Uncaught exn | Serving Impl

type_synonym cli_result = "outcome \<times> string \<times> string \<times> world"

text \<open>\<^verbatim>\<open>Impl::run\<close>: after \<^verbatim>\<open>start_listen\<close> the accept loop runs until somebody sets \<^verbatim>\<open>stop_\<close>, which nothing in this program does.\<close>

definition serve_banner :: "Config \<Rightarrow> string \<Rightarrow> Impl \<Rightarrow> string" where
  "serve_banner cfg noise I =
     line (''wirebone listening on http://'' @ cf_listen cfg) @
     line (''control_url  '' @ cf_server_url cfg) @
     line (''magicdns     '' @ cf_domain cfg @ '' via udp '' @ cf_dns_listen cfg) @
     line (''noise key    '' @ noise) @
     (if im_bootstrap_key I \<noteq> [] then line (''preauth key  '' @ im_bootstrap_key I)
      else case list_preauth_keys I of [] \<Rightarrow> [] | k # _ \<Rightarrow> line (''preauth key  '' @ pi_key k)) @
     line ''QuackScale:'' @
     line ''  CALL quackscale_serve(...)  -- coordinator + client in one process'' @
     line (''  CALL tailscale_up(control_url => '' @ [CHR 0x27] @ cf_server_url cfg @ [CHR 0x27] @ '', authkey => '' @ [CHR 0x27] @
       ''<preauth>'' @ [CHR 0x27] @ '', hostname => '' @ [CHR 0x27] @ ''node-a'' @ [CHR 0x27] @ '');'')"

definition cmd_serve :: "libs \<Rightarrow> (nat \<Rightarrow> bytes option) \<Rightarrow> clock \<Rightarrow> listen_os \<Rightarrow> string list \<Rightarrow> world \<Rightarrow> cli_result" where
  "cmd_serve E draws K Q args w =
     (let cfg = cfg_from_args args in
      case new_Impl E (draws 0) (draws 1) K cfg w of
        (Inl e, w1) \<Rightarrow> (Uncaught e, [], [], w1)
      | (Inr I, w1) \<Rightarrow>
          (case noise_public_key E I of
             Inl e \<Rightarrow>
               (Uncaught e,
                line (''wirebone listening on http://'' @ cf_listen cfg) @ line (''control_url  '' @ cf_server_url cfg) @
                line (''magicdns     '' @ cf_domain cfg @ '' via udp '' @ cf_dns_listen cfg) @ ''noise key    '', [], w1)
           | Inr noise \<Rightarrow>
               (case start_listen Q I of
                  (Inl e, I1) \<Rightarrow> (Uncaught e, serve_banner cfg noise I, [], w1)
                | (Inr _, I1) \<Rightarrow> (Serving I1, serve_banner cfg noise I, [], w1))))"

definition preauth_options :: "string list \<Rightarrow> PreauthOptions" where
  "preauth_options args =
     \<lparr>po_reusable = \<not> flag args ''--one-shot'', po_ephemeral = flag args ''--ephemeral'', po_expiration = 0,
      po_token = opt args ''--token'' [],
      po_shared = (if flag args ''--shared'' then Some True else if flag args ''--no-shared'' then Some False else None)\<rparr>"

definition cmd_preauth_create :: "libs \<Rightarrow> (nat \<Rightarrow> bytes option) \<Rightarrow> clock \<Rightarrow> string list \<Rightarrow> world \<Rightarrow> cli_result" where
  "cmd_preauth_create E draws K args w =
     (case new_Impl E (draws 0) (draws 1) K (cfg_from_args args) w of
        (Inl e, w1) \<Rightarrow> (Uncaught e, [], [], w1)
      | (Inr I, w1) \<Rightarrow>
          (case Impl_create_preauth_key E (draws 2) K (preauth_options args) I w1 of
             (Inl e, I2, w2) \<Rightarrow> (Uncaught e, [], [], w2)
           | (Inr key, I2, w2) \<Rightarrow> (Exit 0, line key, [], w2)))"

definition node_line :: "NodeInfo \<Rightarrow> string" where
  "node_line n = to_string (unat (ni_id n)) @ tab @ ni_hostname n @ tab @ ni_ipv4 n @ tab @ ni_ipv6 n @ tab @
     ni_node_key n @ tab @ ni_token n @ tab @ (if ni_shared n then ''shared'' else []) @ [CHR 0x0A]"

definition cmd_nodes_list :: "libs \<Rightarrow> (nat \<Rightarrow> bytes option) \<Rightarrow> clock \<Rightarrow> string list \<Rightarrow> world \<Rightarrow> cli_result" where
  "cmd_nodes_list E draws K args w =
     (case new_Impl E (draws 0) (draws 1) K (cfg_from_args args) w of
        (Inl e, w1) \<Rightarrow> (Uncaught e, [], [], w1)
      | (Inr I, w1) \<Rightarrow> (Exit 0, concat (map node_line (list_nodes I)), [], w1))"

definition cli_main ::
  "libs \<Rightarrow> (nat \<Rightarrow> bytes option) \<Rightarrow> clock \<Rightarrow> listen_os \<Rightarrow> string list \<Rightarrow> world \<Rightarrow> cli_result" where
  "cli_main E draws K Q args w =
     (if length args < 2 then (Exit 2, [], usage, w)
      else
        let cmd = args ! 1 in
        if cmd = ''serve'' then cmd_serve E draws K Q args w
        else if cmd = ''preauth'' \<and> 3 \<le> length args \<and> args ! 2 = ''create'' then cmd_preauth_create E draws K args w
        else if cmd = ''nodes'' \<and> 3 \<le> length args \<and> args ! 2 = ''list'' then cmd_nodes_list E draws K args w
        else (Exit 2, [], usage, w))"

section \<open>Keys on disk\<close>

text \<open>Expiry times that were read from a file always fit the 32-bit \<^verbatim>\<open>int\<close> they were converted to.\<close>

abbreviation keys_in_range :: "Store \<Rightarrow> bool" where
  "keys_in_range s \<equiv> \<forall>k\<in>set (st_keys s). int32_range (pk_expires_unix k)"

lemma key_from_json_range: "key_from_json J j = Inr k \<Longrightarrow> int32_range (pk_expires_unix k)"
  using sint_range_size [where 'a = 32]
  by (auto simp: key_from_json_def int32_range_def res_bind_Inr word_size)

lemma apply_snapshot_keys:
  assumes "apply_snapshot_locked J j s = (Inr (), s')"
  shows "st_path s' = st_path s" "st_persist_hook s' = st_persist_hook s" "keys_in_range s'"
proof -
  obtain s1 where n: "import_noise J j s = Inr s1" using assms by (auto simp: apply_snapshot_locked_def split: sum.splits)
  have s1: "st_path s1 = st_path s" "st_persist_hook s1 = st_persist_hook s"
    using n by (auto simp: import_noise_def res_bind_Inr split: if_splits option.splits sum.splits prod.splits)
  obtain ks where p: "push_loop (key_from_json J) (member_items j ''preauth_keys'') [] = (Inr (), ks)"
    and s': "st_keys s' = ks" "st_path s' = st_path s1" "st_persist_hook s' = st_persist_hook s1"
    using assms n by (auto simp: apply_snapshot_locked_def Let_def split: sum.splits prod.splits)
  show "st_path s' = st_path s" "st_persist_hook s' = st_persist_hook s" using s' s1 by simp_all
  have m: "map (key_from_json J) (member_items j ''preauth_keys'') = map Inr ks" using push_loop_Inr [OF p] by auto
  have "\<exists>x. key_from_json J x = Inr k" if "k \<in> set ks" for k
  proof -
    have "Inr k \<in> set (map (key_from_json J) (member_items j ''preauth_keys''))" unfolding m using that by simp
    then show ?thesis by (auto intro: sym)
  qed
  then show "keys_in_range s'" using key_from_json_range s'(1) by blast
qed

lemma load_or_init_ok:
  assumes "load_or_init J draw s w = (Inr (), s', w')" "st_keys s = []"
  shows "st_path s' = st_path s" "st_persist_hook s' = st_persist_hook s" "keys_in_range s'"
    "readable w (st_path s) = None \<Longrightarrow> st_keys s' = [] \<and> st_nodes s' = st_nodes s"
proof -
  let ?src = "if st_path s = [] then None else readable w (st_path s)"
  let ?load = "case ?src of None \<Rightarrow> (Inr (), s) | Some text \<Rightarrow> if text = [] then (Inr (), s)
      else (case nl_read J text of None \<Rightarrow> (Inl Json_parse_error, s) | Some j \<Rightarrow> apply_snapshot_locked J j s)"
  obtain s1 where l: "?load = (Inr (), s1)"
    using assms(1) by (cases ?load) (auto simp: load_or_init_def split: sum.splits)
  have s1: "st_path s1 = st_path s \<and> st_persist_hook s1 = st_persist_hook s \<and> keys_in_range s1"
    using l assms(2) apply_snapshot_keys by (auto split: option.splits if_splits)
  have none: "s1 = s" if "readable w (st_path s) = None" using l that by (simp split: if_splits)
  have s': "s' = s1 \<or> (\<exists>p. s' = s1\<lparr>st_noise_private := p\<rparr>)"
    using assms(1) l by (auto simp: load_or_init_def save_and_return_def split: sum.splits prod.splits if_splits)
  show "st_path s' = st_path s" "st_persist_hook s' = st_persist_hook s" "keys_in_range s'" using s1 s' by auto
  show "st_keys s' = [] \<and> st_nodes s' = st_nodes s" if "readable w (st_path s) = None" using none [OF that] s' assms(2) by auto
qed

lemma new_Store_ok:
  assumes "new_Store J N path v4 v6 draw w = (Inr s, w1)"
  shows "st_path s = path" "\<not> st_persist_hook s" "keys_in_range s" "readable w path = None \<Longrightarrow> st_keys s = [] \<and> st_nodes s = []"
proof -
  obtain A where "load_or_init J draw \<lparr>st_path = path, st_alloc = A, st_noise_private = replicate 32 0, st_next_node_id = 1,
      st_next_ip_index = 1, st_keys = [], st_nodes = [], st_persist_hook = False\<rparr> w = (Inr (), s, w1)"
    using assms by (auto simp: new_Store_def split: sum.splits prod.splits)
  from load_or_init_ok [OF this] show "st_path s = path" "\<not> st_persist_hook s" "keys_in_range s"
    "readable w path = None \<Longrightarrow> st_keys s = [] \<and> st_nodes s = []" by simp_all
qed

text \<open>Creating a key writes the keys the process knows, with the new one at the end.\<close>

lemma create_preauth_key_saved:
  assumes "create_preauth_key J draw now reusable ephemeral 0 token shared s w = (Inr key, s', w')"
  shows "\<exists>k. s' = s\<lparr>st_keys := st_keys s @ [k]\<rparr> \<and> save_locked J s' w = (Inr (), w') \<and> pk_key k = key \<and> \<not> pk_used k \<and>
    pk_expires_unix k = 0 \<and> pk_reusable k = reusable \<and> pk_ephemeral k = ephemeral \<and> pk_token k = token \<and>
    pk_shared k = resolve_shared token shared"
  using assms by (auto simp: create_preauth_key_def save_and_return_Inr Let_def split: sum.splits)

lemma new_Impl_ok:
  assumes "new_Impl E d1 d2 K cfg w = (Inr I, w1)"
  shows "st_path (im_store I) = cf_state_path cfg" "\<not> st_persist_hook (im_store I)" "keys_in_range (im_store I)"
proof -
  obtain s w0 where s: "new_Store (lib_json E) (lib_inet6 E) (cf_state_path cfg) (cf_ip_prefix cfg) (cf_ipv6_prefix cfg) d1 w = (Inr s, w0)"
    using assms by (auto simp: new_Impl_def split: sum.splits prod.splits)
  have I: "im_store I = s \<or> (\<exists>k. im_store I = s\<lparr>st_keys := st_keys s @ [k]\<rparr> \<and> pk_expires_unix k = 0)"
    using assms unfolding new_Impl_def s by (auto simp: Let_def dest!: create_preauth_key_saved split: sum.splits prod.splits if_splits)
  show "st_path (im_store I) = cf_state_path cfg" "\<not> st_persist_hook (im_store I)" "keys_in_range (im_store I)"
    using new_Store_ok(1-3) [OF s] I by (auto simp: int32_range_def)
qed

lemma new_Impl_room:
  assumes "new_Impl E d1 d2 K cfg w = (r, w1)"
  shows "w_room w1 = w_room w" "w_can_read w1 = w_can_read w"
  using assms
  by (auto simp: new_Impl_def Let_def create_preauth_key_def dest!: room_and_read
      split: sum.splits prod.splits if_splits)

text \<open>A running coordinator picks up whatever keys another process saved under its path.\<close>

lemma reload_foreign_save:
  assumes "nl_laws J" "snapshot_text_laws J" "save_locked J s w = (Inr (), w')" "keys_in_range s" "st_path s \<noteq> []" "st_path r = st_path s"
    and "has_room w s" "w_can_read w (st_path s)"
  shows "reload_keys_from_disk J r w' = (Inr (), r\<lparr>st_keys := st_keys s\<rparr>)"
proof -
  have "reload_read J r w' = reload_read J s w'" using assms(6) by (simp add: reload_read_def)
  then show ?thesis
    using reload_read_after_save [OF assms(2,3,7)] reload_install_keys [OF assms(1,4)] assms(5,8)
    by (simp add: reload_keys_from_disk_def)
qed

section \<open>Commands across processes\<close>

text \<open>
  C24: A key printed by \<^verbatim>\<open>wirebone preauth create\<close> works at once in a coordinator that is
  already running on the same state file, whatever keys that process had in memory: using it
  reloads the file and finds the new key, which admits with the group given on the command line
  (when the drawn token is new, the device has room for the file and the file can be read).
\<close>

theorem created_key_is_honoured:
  assumes "nl_laws (lib_json E)" "snapshot_text_laws (lib_json E)"
    and "args ! 1 = ''preauth''" "args ! 2 = ''create''" "3 \<le> length args"
    and "new_Impl E (draws 0) (draws 1) K (cfg_from_args args) w = (Inr I, w1)"
    and "cli_main E draws K Q args w = (Exit 0, key @ [CHR 0x0A], err, w2)"
    and "key \<notin> pk_key ` set (st_keys (im_store I))"
    and "st_path r = opt args ''--state'' ''wirebone.state.json''" "st_path r \<noteq> []" "has_room w r" "w_can_read w (st_path r)"
  shows "\<exists>s0 k. reload_keys_from_disk (lib_json E) r w2 = (Inr (), s0) \<and> find_key key s0 = Some k \<and>
    consume_preauth (lib_json E) now key r w2 = save_and_return (lib_json E) (Some (claim_of k)) (mark_used key s0) w2 \<and>
    pc_token (claim_of k) = opt args ''--token'' [] \<and> pc_ephemeral (claim_of k) = flag args ''--ephemeral'' \<and>
    (pk_reusable k \<longleftrightarrow> \<not> flag args ''--one-shot'')"
proof -
  let ?J = "lib_json E" and ?o = "preauth_options args"
  obtain s2 k where s2: "s2 = (im_store I)\<lparr>st_keys := st_keys (im_store I) @ [k]\<rparr>" "save_locked ?J s2 w1 = (Inr (), w2)"
    and k: "pk_key k = key" "\<not> pk_used k" "pk_expires_unix k = 0" "pk_reusable k = po_reusable ?o" "pk_ephemeral k = po_ephemeral ?o"
      "pk_token k = po_token ?o"
  proof -
    have "cmd_preauth_create E draws K args w = (Exit 0, key @ [CHR 0x0A], err, w2)"
      using assms(3-5,7) by (simp add: cli_main_def)
    then obtain I2 where "Impl_create_preauth_key E (draws 2) K ?o I w1 = (Inr key, I2, w2)"
      unfolding cmd_preauth_create_def assms(6) by (auto split: prod.splits sum.splits)
    then obtain s2 where "create_preauth_key ?J (draws 2) (ck_unix K) (po_reusable ?o) (po_ephemeral ?o) (po_expiration ?o) (po_token ?o)
        (po_shared ?o) (im_store I) w1 = (Inr key, s2, w2)"
      unfolding Impl_create_preauth_key_def by (auto split: prod.splits)
    moreover have "po_expiration ?o = 0" by (simp add: preauth_options_def)
    ultimately have c: "create_preauth_key ?J (draws 2) (ck_unix K) (po_reusable ?o) (po_ephemeral ?o) 0 (po_token ?o) (po_shared ?o)
        (im_store I) w1 = (Inr key, s2, w2)" by simp
    show thesis using create_preauth_key_saved [OF c] that by auto
  qed
  note I = new_Impl_ok [OF assms(6)]
  have path: "st_path s2 = st_path r" using I(1) assms(9) by (simp add: s2(1) cfg_from_args_def)
  have range: "keys_in_range s2" using I(3) k(3) by (auto simp: s2(1) int32_range_def)
  have reload: "reload_keys_from_disk ?J r w2 = (Inr (), r\<lparr>st_keys := st_keys s2\<rparr>)"
    using reload_foreign_save [OF assms(1,2) s2(2) range] path assms(10-12) new_Impl_room [OF assms(6)] by simp
  have "find (\<lambda>k. pk_key k = key) (st_keys (im_store I)) = None" using assms(8) by (auto simp: find_None_iff)
  then have "find_key key (r\<lparr>st_keys := st_keys s2\<rparr>) = Some k" using k(1) by (simp add: s2(1) find_append)
  moreover have "usable now k" using k by (simp add: usable_def)
  ultimately show ?thesis
    using reload k
    by (intro exI [of _ "r\<lparr>st_keys := st_keys s2\<rparr>"] exI [of _ k])
      (simp add: consume_preauth_def consume_locked_eq claim_of_def preauth_options_def)
qed

text \<open>
  Listing the nodes of a state file that does not exist is not a read-only command: it
  writes the file, with a new reusable key that never expires and whose nodes are visible to
  every group, and prints nothing.
\<close>

theorem nodes_list_creates_key:
  assumes "nl_laws (lib_json E)" "snapshot_text_laws (lib_json E)"
    and "args ! 1 = ''nodes''" "args ! 2 = ''list''" "3 \<le> length args"
    and "path = opt args ''--state'' ''wirebone.state.json''" "path \<noteq> []" "w_files w path = None" "w_room w (path @ ''.tmp'') = None"
    and "w_can_read w path" "cli_main E draws K Q args w = (Exit n, out, err, w')"
  shows "out = [] \<and> n = 0 \<and> (\<exists>k. \<forall>r. st_path r = path \<longrightarrow>
    reload_keys_from_disk (lib_json E) r w' = (Inr (), r\<lparr>st_keys := [k]\<rparr>) \<and>
    pk_reusable k \<and> pk_expires_unix k = 0 \<and> pk_shared k \<and> \<not> pk_used k)"
proof -
  let ?J = "lib_json E" and ?cfg = "cfg_from_args args"
  obtain I where I: "new_Impl E (draws 0) (draws 1) K ?cfg w = (Inr I, w')" and o: "out = concat (map node_line (list_nodes I))" "n = 0"
  proof -
    have "cmd_nodes_list E draws K args w = (Exit n, out, err, w')" using assms(3-5,11) by (simp add: cli_main_def)
    then show thesis using that unfolding cmd_nodes_list_def by (auto split: prod.splits sum.splits)
  qed
  have path: "cf_state_path ?cfg = path" by (simp add: cfg_from_args_def assms(6))
  obtain s w0 where s: "new_Store ?J (lib_inet6 E) path (cf_ip_prefix ?cfg) (cf_ipv6_prefix ?cfg) (draws 0) w = (Inr s, w0)"
    using I by (auto simp: new_Impl_def path split: sum.splits prod.splits)
  note s_ok = new_Store_ok [OF s]
  have empty: "st_keys s = []" "st_nodes s = []" using s_ok(4) assms(8) by (simp_all add: readable_def)
  obtain key s2 where c: "create_preauth_key ?J (draws 1) (ck_unix K) True False 0 [] None s w0 = (Inr key, s2, w')" "im_store I = s2"
    using I s empty by (auto simp: new_Impl_def path Let_def split: sum.splits prod.splits)
  obtain k where k: "s2 = s\<lparr>st_keys := [k]\<rparr>" "save_locked ?J s2 w0 = (Inr (), w')" "\<not> pk_used k" "pk_expires_unix k = 0"
      "pk_reusable k" "pk_shared k"
    using create_preauth_key_saved [OF c(1)] empty(1) by (auto simp: resolve_shared_def)
  have "reload_keys_from_disk ?J r w' = (Inr (), r\<lparr>st_keys := [k]\<rparr>)" if "st_path r = path" for r
    using reload_foreign_save [OF assms(1,2) k(2), of r] that s_ok(1) assms(7,9,10) k(4) new_Store_room [OF s] by (simp add: k(1) int32_range_def)
  moreover have "list_nodes I = []" using c(2) k(1) empty(2) by (simp add: list_nodes_def)
  ultimately show ?thesis using o k(3-6) by auto
qed

section \<open>A first run\<close>

text \<open>The commands in an empty directory; every draw of random octets delivers zeros and ones.\<close>

definition empty_world :: world where
  "empty_world = \<lparr>w_files = (\<lambda>_. None), w_can_read = (\<lambda>_. True), w_can_open = (\<lambda>_. True), w_can_rename = (\<lambda>_. True),
     w_room = (\<lambda>_. None), w_hook_calls = [], w_hook_throws = (\<lambda>_. None)\<rparr>"

definition demo_draws :: "nat \<Rightarrow> bytes option" where
  "demo_draws i = Some (replicate 32 (word_of_nat i))"

lemma ref_save_open:
  assumes "w_can_open w = (\<lambda>_. True)" "w_can_rename w = (\<lambda>_. True)" "\<not> st_persist_hook s"
  obtains w' where "save_locked ref_json s w = (Inr (), w')" "w_can_open w' = (\<lambda>_. True)" "w_can_rename w' = (\<lambda>_. True)"
  using that [of "snd (save_locked ref_json s w)"] ref_save [of w s] assms by (simp add: prod_eq_iff)

lemma demo_new_Impl:
  obtains I w1 where "new_Impl demo_libs (demo_draws 0) (demo_draws 1) demo_clock (cfg_from_args args) empty_world = (Inr I, w1)"
    "w_can_open w1 = (\<lambda>_. True)" "w_can_rename w1 = (\<lambda>_. True)" "pk_key ` set (st_keys (im_store I)) = {''wbkey-'' @ hex_encode (replicate 32 1)}"
proof -
  let ?cfg = "cfg_from_args args"
  have c: "cf_ip_prefix ?cfg = ''100.64.0.0/16''" "cf_ipv6_prefix ?cfg = ''fd7a:115c:a1e0::/48''" by (simp_all add: cfg_from_args_def default_Config_def)
  obtain priv where g: "generate_x25519_private (demo_draws 0) = Inr priv"
    by (simp add: demo_draws_def generate_x25519_private_def random_bytes_def)
  define s where "s = \<lparr>st_path = cf_state_path ?cfg, st_alloc = cgnat, st_noise_private = priv, st_next_node_id = 1,
    st_next_ip_index = 1, st_keys = [], st_nodes = [], st_persist_hook = False\<rparr>"
  obtain w0 where w0: "save_locked ref_json s empty_world = (Inr (), w0)" "w_can_open w0 = (\<lambda>_. True)" "w_can_rename w0 = (\<lambda>_. True)"
    by (rule ref_save_open [of empty_world s]) (simp_all add: s_def empty_world_def)
  have st: "new_Store ref_json hex_inet6 (cf_state_path ?cfg) ''100.64.0.0/16'' ''fd7a:115c:a1e0::/48'' (demo_draws 0) empty_world = (Inr s, w0)"
    using w0(1) g by (cases "cf_state_path ?cfg = []") (simp_all add: new_Store_def new_cgnat load_or_init_def readable_def empty_world_def save_and_return_def s_def)
  define k where "k = \<lparr>pk_key = ''wbkey-'' @ hex_encode (replicate 32 1), pk_reusable = True, pk_ephemeral = False, pk_used = False,
    pk_expires_unix = 0, pk_token = [], pk_shared = True\<rparr>"
  obtain w1 where w1: "save_locked ref_json (s\<lparr>st_keys := [k]\<rparr>) w0 = (Inr (), w1)" "w_can_open w1 = (\<lambda>_. True)" "w_can_rename w1 = (\<lambda>_. True)"
    by (rule ref_save_open [of w0 "s\<lparr>st_keys := [k]\<rparr>"]) (simp_all add: w0 s_def)
  have keys: "st_keys s = []" by (simp add: s_def)
  have "create_preauth_key ref_json (demo_draws 1) 100 True False 0 [] None s w0 = (Inr (pk_key k), s\<lparr>st_keys := [k]\<rparr>, w1)"
    using w1(1) by (simp add: create_preauth_key_def random_token_def random_bytes_def demo_draws_def keys save_and_return_def k_def
        resolve_shared_def)
  then show thesis
    by (intro that [OF _ w1(2,3)]) (simp_all add: new_Impl_def c st keys k_def, simp)
qed

theorem created_key_is_honoured_witness:
  "\<exists>w2 k s0. cli_main demo_libs demo_draws demo_clock no_socket
      [''wirebone'', ''preauth'', ''create'', ''--state'', ''state.json'', ''--token'', ''alpha''] empty_world =
      (Exit 0, (''wbkey-'' @ hex_encode (replicate 32 2)) @ [CHR 0x0A], [], w2) \<and>
    reload_keys_from_disk ref_json demo_store w2 = (Inr (), s0) \<and>
    find_key (''wbkey-'' @ hex_encode (replicate 32 2)) s0 = Some k \<and> pc_token (claim_of k) = ''alpha'' \<and> pk_reusable k"
proof -
  let ?args = "[''wirebone'', ''preauth'', ''create'', ''--state'', ''state.json'', ''--token'', ''alpha'']"
  let ?key = "''wbkey-'' @ hex_encode (replicate 32 2)"
  obtain I w1 where I: "new_Impl demo_libs (demo_draws 0) (demo_draws 1) demo_clock (cfg_from_args ?args) empty_world = (Inr I, w1)"
    and w1: "w_can_open w1 = (\<lambda>_. True)" "w_can_rename w1 = (\<lambda>_. True)" and
    keys: "pk_key ` set (st_keys (im_store I)) = {''wbkey-'' @ hex_encode (replicate 32 1)}" by (rule demo_new_Impl)
  obtain w2 where c: "create_preauth_key ref_json (demo_draws 2) 100 True False 0 ''alpha'' None (im_store I) w1 =
      (Inr ?key, (im_store I)\<lparr>st_keys := st_keys (im_store I) @ [\<lparr>pk_key = ?key, pk_reusable = True, pk_ephemeral = False, pk_used = False,
         pk_expires_unix = 0, pk_token = ''alpha'', pk_shared = False\<rparr>]\<rparr>, w2)"
  proof -
    let ?s = "(im_store I)\<lparr>st_keys := st_keys (im_store I) @ [\<lparr>pk_key = ?key, pk_reusable = True, pk_ephemeral = False, pk_used = False,
         pk_expires_unix = 0, pk_token = ''alpha'', pk_shared = False\<rparr>]\<rparr>"
    obtain w2 where "save_locked ref_json ?s w1 = (Inr (), w2)"
      by (rule ref_save_open [OF w1, of ?s]) (simp add: new_Impl_ok(2) [OF I])
    then show thesis
      by (intro that) (simp add: create_preauth_key_def random_token_def random_bytes_def demo_draws_def save_and_return_def resolve_shared_def)
  qed
  have o: "preauth_options ?args = \<lparr>po_reusable = True, po_ephemeral = False, po_expiration = 0, po_token = ''alpha'', po_shared = None\<rparr>"
    by (simp add: preauth_options_def flag_def)
  have m: "cli_main demo_libs demo_draws demo_clock no_socket ?args empty_world = (Exit 0, ?key @ [CHR 0x0A], [], w2)"
    unfolding cli_main_def cmd_preauth_create_def I Impl_create_preauth_key_def o by (simp add: c)
  have "hex_encode (replicate 32 2) \<noteq> hex_encode (replicate 32 1)" by code_simp
  then have "\<exists>s0 k. reload_keys_from_disk (lib_json demo_libs) demo_store w2 = (Inr (), s0) \<and> find_key ?key s0 = Some k \<and>
    consume_preauth (lib_json demo_libs) 5 ?key demo_store w2 = save_and_return (lib_json demo_libs) (Some (claim_of k)) (mark_used ?key s0) w2 \<and>
    pc_token (claim_of k) = opt ?args ''--token'' [] \<and> pc_ephemeral (claim_of k) = flag ?args ''--ephemeral'' \<and>
    (pk_reusable k \<longleftrightarrow> \<not> flag ?args ''--one-shot'')"
    by (intro created_key_is_honoured [OF _ _ _ _ _ I m])
      (simp_all add: ref_json_laws ref_snapshot_text_laws keys demo_store_def empty_world_def)
  then show ?thesis using m by (simp add: flag_def) blast
qed

theorem nodes_list_creates_key_witness:
  "\<exists>w' k. cli_main demo_libs demo_draws demo_clock no_socket [''wirebone'', ''nodes'', ''list''] empty_world = (Exit 0, [], [], w') \<and>
    reload_keys_from_disk ref_json (demo_store\<lparr>st_path := ''wirebone.state.json''\<rparr>) w' =
      (Inr (), demo_store\<lparr>st_path := ''wirebone.state.json'', st_keys := [k]\<rparr>) \<and> pk_reusable k \<and> pk_shared k"
proof -
  let ?args = "[''wirebone'', ''nodes'', ''list'']"
  obtain I w1 where I: "new_Impl demo_libs (demo_draws 0) (demo_draws 1) demo_clock (cfg_from_args ?args) empty_world = (Inr I, w1)"
    by (rule demo_new_Impl)
  have m: "cli_main demo_libs demo_draws demo_clock no_socket ?args empty_world = (Exit 0, concat (map node_line (list_nodes I)), [], w1)"
    unfolding cli_main_def cmd_nodes_list_def I by simp
  have J: "nl_laws (lib_json demo_libs)" "snapshot_text_laws (lib_json demo_libs)" by (simp_all add: ref_json_laws ref_snapshot_text_laws)
  have "concat (map node_line (list_nodes I)) = [] \<and> (0::int) = 0 \<and> (\<exists>k. \<forall>r. st_path r = ''wirebone.state.json'' \<longrightarrow>
    reload_keys_from_disk (lib_json demo_libs) r w1 = (Inr (), r\<lparr>st_keys := [k]\<rparr>) \<and>
    pk_reusable k \<and> pk_expires_unix k = 0 \<and> pk_shared k \<and> \<not> pk_used k)"
    by (rule nodes_list_creates_key [OF J _ _ _ _ _ _ _ _ m]) (simp_all add: empty_world_def)
  then obtain k where o: "concat (map node_line (list_nodes I)) = []"
    and k: "\<And>r. st_path r = ''wirebone.state.json'' \<Longrightarrow> reload_keys_from_disk (lib_json demo_libs) r w1 = (Inr (), r\<lparr>st_keys := [k]\<rparr>) \<and>
    pk_reusable k \<and> pk_expires_unix k = 0 \<and> pk_shared k \<and> \<not> pk_used k" by blast
  show ?thesis using k [of "demo_store\<lparr>st_path := ''wirebone.state.json''\<rparr>"] m unfolding o by simp blast
qed

end
