(* ===== verification/Service.thy ===== *)
theory Service
  imports Api
begin

text \<open>
  The coordinator as a whole, at work for many connections and a host program at once. A step is
  one handler call, fan-out, disconnection or host call, in any order and with any outcome,
  exceptions included, or a change another process makes to the files and devices. The host call
  that imports a state is a step too, but of its own kind: it replaces the registry by whatever
  the text says. The specification is the mesh membership: which machine belongs to which group.
  The theory shows that the coordinator implements that specification between imports and that
  the maps it serves follow from it as long as the imported states are sound, which exported ones
  are.
\<close>

section \<open>The running coordinator\<close>

type_synonym service = "Impl \<times> world"

inductive call_step :: "libs \<Rightarrow> clock \<Rightarrow> service \<Rightarrow> service \<Rightarrow> bool" for E K where
  register: "on_register E K sid m body (h, I, w, live) = (r, h', I', w', live') \<Longrightarrow> call_step E K (I, w) (I', w')"
| map: "on_map E K sid m body (h, I, w, live) = (r, h', I', w', live') \<Longrightarrow> call_step E K (I, w) (I', w')"
| tick: "on_tick E K (h, I, w, live) = (r, h', I', w', live') \<Longrightarrow> call_step E K (I, w) (I', w')"
| leave: "call_step E K (I, w) (bump_map (I\<lparr>im_store := set_online m False (im_store I)\<rparr>), w)"
| create_key: "Impl_create_preauth_key E draw K opts I w = (r, I', w') \<Longrightarrow> call_step E K (I, w) (I', w')"
| save: "Impl_persist E I w = (r, I', w') \<Longrightarrow> call_step E K (I, w) (I', w')"
| hook: "call_step E K (I, w) (Impl_set_persist_hook I, w)"
| start: "run_async Q I = (r, I') \<Longrightarrow> call_step E K (I, w) (I', w)"
| run: "Impl_run Q es I = (r, I') \<Longrightarrow> call_step E K (I, w) (I', w)"
| stop: "call_step E K (I, w) (Impl_stop I, w)"
| outside: "call_step E K (I, w) (I, w')"

inductive service_step :: "libs \<Rightarrow> clock \<Rightarrow> service \<Rightarrow> service \<Rightarrow> bool" for E K where
  call: "call_step E K x y \<Longrightarrow> service_step E K x y"
| imported: "import_state E text I = (r, I') \<Longrightarrow> service_step E K (I, w) (I', w)"

text \<open>
  A sound registry: nodes with pairwise distinct machine keys, ids and addresses that the
  allocator gave them, and both counters beyond them and below \<open>c\<close>. A run of \<open>n\<close> steps in which
  every import, complete or broken off, leaves such a registry.
\<close>

definition sound :: "libs \<Rightarrow> nat \<Rightarrow> Impl \<Rightarrow> bool" where
  "sound E c I \<longleftrightarrow> store_inv (lib_inet6 E) (im_store I) \<and> below c (im_store I)"

inductive service_steps :: "libs \<Rightarrow> nat \<Rightarrow> nat \<Rightarrow> service \<Rightarrow> service \<Rightarrow> bool" for E c where
  none: "service_steps E c 0 x x"
| more: "service_steps E c n x y \<Longrightarrow> call_step E K y z \<Longrightarrow> service_steps E c (Suc n) x z"
| imported: "service_steps E c n x (I, w) \<Longrightarrow> import_state E text I = (r, I') \<Longrightarrow> sound E c I' \<Longrightarrow>
    service_steps E c (Suc n) x (I', w)"

section \<open>Every step is a few store calls\<close>

lemma run_calls_append: "run_calls J N (cs @ ds) x = run_calls J N ds (run_calls J N cs x)"
  by (induction cs arbitrary: x) auto

lemma admit_calls:
  assumes "admit J now m q s w = (r, s', w')"
  shows "\<exists>cs. length cs \<le> 1 \<and> run_calls J N cs (s, w) = (s', w')"
proof (cases "find_by_machine m s = None \<and> rr_auth q \<noteq> []")
  case True
  then have "run_calls J N [Consume now (rr_auth q)] (s, w) = (s', w')"
    using assms by (auto simp: admit_def split: prod.splits sum.splits option.splits)
  then show ?thesis by (intro exI [of _ "[Consume now (rr_auth q)]"]) simp
next
  case False
  with assms have "run_calls J N [] (s, w) = (s', w')" by (auto simp: admit_def split: if_splits)
  then show ?thesis by (intro exI [of _ "[]"]) simp
qed

lemma on_register_calls:
  assumes "on_register E K sid m body (h, I, w, live) = (r, h', I', w', live')"
  shows "\<exists>cs. length cs \<le> 2 \<and> run_calls (lib_json E) (lib_inet6 E) cs (im_store I, w) = (im_store I', w')"
proof -
  let ?J = "lib_json E" and ?N = "lib_inet6 E"
  show ?thesis
  proof (cases "\<exists>req q. parse_body ?J body = Some req \<and> register_fields ?J req = Inr q")
    case True
    then obtain req q where q: "parse_body ?J body = Some req" "register_fields ?J req = Inr q" by blast
    obtain a s1 w1 where a: "admit ?J (ck_unix K) m q (im_store I) w = (a, s1, w1)" by (metis prod_cases3)
    obtain cs where cs: "length cs \<le> 1" "run_calls ?J ?N cs (im_store I, w) = (s1, w1)" using admit_calls [OF a] by blast
    show ?thesis
    proof (cases "\<exists>e t sh. a = Inr (Some (e, t, sh))")
      case True
      then obtain e t sh where ets: "a = Inr (Some (e, t, sh))" by blast
      obtain r2 s2 w2 where reg: "register_node ?J ?N m (rr_node_key q) (rr_host q) e t sh s1 w1 = (r2, s2, w2)" by (metis prod_cases3)
      have "im_store I' = s2 \<and> w' = w2"
        using assms q a ets reg by (cases r2) (auto simp: on_register_def Let_def bump_map_def dest!: json_reply_state)
      then show ?thesis
        using cs reg by (intro exI [of _ "cs @ [Register m (rr_node_key q) (rr_host q) e t sh]"]) (simp add: run_calls_append)
    next
      case False
      then have "im_store I' = s1" "w' = w1"
        using assms q a by (auto simp: on_register_def Let_def dest!: json_reply_state split: sum.splits option.splits)
      then show ?thesis using cs by (intro exI [of _ cs]) simp
    qed
  next
    case False
    then have "im_store I' = im_store I" "w' = w"
      using assms by (auto simp: on_register_def Let_def split: option.splits sum.splits)
    then show ?thesis by (intro exI [of _ "[]"]) simp
  qed
qed

lemma on_map_state:
  "on_map E K sid m body (h, I, w, live) = (r, h', I', w', live') \<Longrightarrow>
   \<exists>r1. on_map_answer E K sid m body (h, I, w) = (r1, h', I', w')"
  by (auto simp: on_map_def split: prod.splits sum.splits option.splits)

fun is_registration :: "store_call \<Rightarrow> bool" where
  "is_registration (Register m nk h e t sh) = True"
| "is_registration c = False"

lemma run_calls_registry:
  "list_all (\<lambda>c. \<not> is_registration c) cs \<Longrightarrow> run_calls J N cs (s, w) = (s', w') \<Longrightarrow> same_registry s s'"
proof (induction cs arbitrary: s w)
  case (Cons c cs)
  obtain s1 w1 where 1: "store_call_step J N c (s, w) = (s1, w1)" by fastforce
  have "same_registry s s1"
    using Cons.prems(1) 1
    by (cases c)
      (auto simp: prod_eq_iff persist_def set_online_registry set_persist_hook_registry
        intro: create_preauth_key_registry consume_preauth_registry update_map_info_registry)
  moreover have "same_registry s1 s'" using Cons 1 by simp
  ultimately show ?case by (simp add: same_registry_def)
qed simp

lemma on_map_calls:
  assumes "on_map E K sid m body (h, I, w, live) = (r, h', I', w', live')"
  shows "\<exists>cs. length cs \<le> 2 \<and> list_all (\<lambda>c. \<not> is_registration c) cs \<and> run_calls (lib_json E) (lib_inet6 E) cs (im_store I, w) = (im_store I', w')"
proof -
  let ?J = "lib_json E" and ?N = "lib_inet6 E"
  obtain r1 where ans: "on_map_answer E K sid m body (h, I, w) = (r1, h', I', w')" using on_map_state [OF assms] by blast
  show ?thesis
  proof (cases "\<exists>req q. parse_body ?J body = Some req \<and> map_fields ?J req = Inr q")
    case True
    then obtain req q where q: "parse_body ?J body = Some req" "map_fields ?J req = Inr q" by blast
    let ?u = "[Update_map m (mr_node_key q) (mr_disco_key q) (mr_host q) (endpoints_from_req req)]"
    let ?cs = "if mr_readonly q then [] else ?u"
    obtain r2 s1 w1 where u: "(if mr_readonly q then (Inr (), im_store I, w)
        else update_map_info ?J m (mr_node_key q) (mr_disco_key q) (mr_host q) (endpoints_from_req req) (im_store I) w) = (r2, s1, w1)"
      by (metis prod_cases3)
    have c: "run_calls ?J ?N ?cs (im_store I, w) = (s1, w1)" "mr_readonly q \<Longrightarrow> r2 = Inr () \<and> s1 = im_store I"
      using u by (auto split: if_splits)
    show ?thesis
    proof (cases r2)
      case (Inl e)
      then have "im_store I' = s1" "w' = w1" using ans q u by (auto simp: on_map_answer_def Let_def)
      then show ?thesis using c by (intro exI [of _ ?cs]) simp
    next
      case (Inr x)
      have "im_store I' = set_online m True s1" "w' = w1"
        using ans q u Inr c(2)
        by (auto simp: on_map_answer_def Let_def bump_map_def split: sum.splits prod.splits if_splits)
      then show ?thesis using c by (intro exI [of _ "?cs @ [Online m True]"]) (simp add: run_calls_append)
    qed
  next
    case False
    then have "im_store I' = im_store I" "w' = w"
      using ans by (auto simp: on_map_answer_def Let_def split: option.splits sum.splits)
    then show ?thesis by (intro exI [of _ "[]"]) simp
  qed
qed

text \<open>Starting and stopping leave the store alone.\<close>

lemma start_listen_store: "start_listen Q I = (r, I') \<Longrightarrow> im_store I' = im_store I"
  by (auto simp: start_listen_def Let_def split: sum.splits prod.splits if_splits)

lemma life_cycle_store:
  "run_async Q I = (r, I') \<Longrightarrow> im_store I' = im_store I"
  "Impl_run Q es I = (r2, I') \<Longrightarrow> im_store I' = im_store I"
  "im_store (Impl_stop I) = im_store I"
  by (auto simp: run_async_def Impl_run_def Impl_stop_def Let_def dest: start_listen_store
      split: sum.splits prod.splits option.splits)

lemma call_step_calls:
  assumes "call_step E K (I, w) (I', w')"
  shows "\<exists>cs. length cs \<le> 2 \<and> run_calls (lib_json E) (lib_inet6 E) cs (im_store I, w) = (im_store I', w')"
  using assms
proof cases
  case (leave m)
  then show ?thesis by (intro exI [of _ "[Online m False]"]) (simp add: bump_map_def)
next
  case (create_key draw opts r)
  then show ?thesis
    by (intro exI [of _ "[Create draw (ck_unix K) (po_reusable opts) (po_ephemeral opts) (po_expiration opts) (po_token opts) (po_shared opts)]"])
      (auto simp: Impl_create_preauth_key_def split: prod.splits)
next
  case (save r)
  then show ?thesis by (intro exI [of _ "[Persist]"]) (auto simp: Impl_persist_def split: prod.splits)
next
  case outside
  then show ?thesis by (intro exI [of _ "[Outside w']"]) simp
next
  case hook
  then show ?thesis by (intro exI [of _ "[Hook True]"]) (simp add: Impl_set_persist_hook_def)
next
  case (start Q r)
  then show ?thesis by (intro exI [of _ "[]"]) (simp add: life_cycle_store(1))
next
  case (run Q es r)
  then show ?thesis by (intro exI [of _ "[]"]) (simp add: life_cycle_store(2))
next
  case stop
  then show ?thesis by (intro exI [of _ "[]"]) (simp add: life_cycle_store(3))
next
  case (tick h live r h' live')
  then show ?thesis by (intro exI [of _ "[]"]) (auto simp: on_tick_def split: prod.splits)
next
  case (register sid m body h live r h' live')
  then show ?thesis by (rule on_register_calls)
next
  case (map sid m body h live r h' live')
  then show ?thesis using on_map_calls by blast
qed

lemma call_step_registry:
  assumes "call_step E K (I, w) (I', w')"
  shows "same_registry (im_store I) (im_store I') \<or>
    (\<exists>sid m body h live r h' live'. on_register E K sid m body (h, I, w, live) = (r, h', I', w', live'))"
  using assms
proof cases
  case (map sid m body h live r h' live')
  then obtain cs where "list_all (\<lambda>c. \<not> is_registration c) cs"
      "run_calls (lib_json E) (lib_inet6 E) cs (im_store I, w) = (im_store I', w')"
    using on_map_calls by blast
  then show ?thesis using run_calls_registry by blast
next
  case (tick h live r h' live')
  then show ?thesis by (auto simp: on_tick_def split: prod.splits)
next
  case (leave m)
  then show ?thesis by (simp add: bump_map_def set_online_registry)
next
  case (create_key draw opts r)
  then show ?thesis
    by (auto simp: Impl_create_preauth_key_def dest!: create_preauth_key_registry split: prod.splits)
next
  case (save r)
  then show ?thesis by (auto simp: Impl_persist_def persist_def dest!: save_and_return_cases(1) split: prod.splits)
next
  case outside
  then show ?thesis by simp
next
  case hook
  then show ?thesis by (simp add: Impl_set_persist_hook_def set_persist_hook_def same_registry_def)
next
  case (start Q r)
  then show ?thesis by (simp add: life_cycle_store(1))
next
  case (run Q es r)
  then show ?thesis by (simp add: life_cycle_store(2))
next
  case stop
  then show ?thesis by (simp add: life_cycle_store(3))
qed blast

section \<open>Specification: mesh membership\<close>

type_synonym membership = "string \<Rightarrow> (string \<times> bool) option"

text \<open>
  \<open>grants key\<close> is the group, and whether it is shared, that a preauth key gives at the moment.
  Machines join once, with the group of a key; nobody leaves and nobody changes group.
\<close>

inductive join_step :: "(string \<Rightarrow> (string \<times> bool) option) \<Rightarrow> membership \<Rightarrow> membership \<Rightarrow> bool" for grants where
  stay: "join_step grants M M"
| join: "M m = None \<Longrightarrow> grants key = Some g \<Longrightarrow> join_step grants M (M(m \<mapsto> g))"

definition may_see :: "membership \<Rightarrow> string \<Rightarrow> string \<Rightarrow> bool" where
  "may_see M a b \<longleftrightarrow>
     a \<noteq> b \<and> (case (M a, M b) of (Some (ga, sa), Some (gb, sb)) \<Rightarrow> sa \<or> sb \<or> ga = gb | _ \<Rightarrow> False)"

definition membership_of :: "Impl \<Rightarrow> membership" where
  "membership_of I = (\<lambda>m. map_option (\<lambda>n. (nd_token n, nd_shared n)) (find_by_machine m (im_store I)))"

definition grants_of :: "nlohmann \<Rightarrow> int \<Rightarrow> service \<Rightarrow> string \<Rightarrow> (string \<times> bool) option" where
  "grants_of J now x key =
     (case reload_keys_from_disk J (im_store (fst x)) (snd x) of
        (Inl e, s) \<Rightarrow> None
      | (Inr _, s) \<Rightarrow>
          (case find_key key s of
             Some k \<Rightarrow> if usable now k then Some (pk_token k, pk_shared k) else None
           | None \<Rightarrow> None))"

text \<open>A program that moves in step with its specification stays within its runs.\<close>

locale simulation =
  fixes step :: "'s \<Rightarrow> 's \<Rightarrow> bool" and astep :: "'a \<Rightarrow> 'a \<Rightarrow> bool" and abst :: "'s \<Rightarrow> 'a"
  assumes sim: "step s t \<Longrightarrow> astep (abst s) (abst t)"
begin

lemma sim_runs: "step\<^sup>*\<^sup>* s t \<Longrightarrow> astep\<^sup>*\<^sup>* (abst s) (abst t)"
  by (induction rule: rtranclp_induct) (auto intro: rtranclp.rtrancl_into_rtrancl sim)

lemma sim_invariant:
  assumes "\<And>a b. P a \<Longrightarrow> astep a b \<Longrightarrow> P b" "step\<^sup>*\<^sup>* s t" "P (abst s)"
  shows "P (abst t)"
proof -
  have "P b" if "astep\<^sup>*\<^sup>* a b" "P a" for a b
    using that by (induction rule: rtranclp_induct) (auto intro: assms(1))
  then show ?thesis using sim_runs [OF assms(2)] assms(3) by blast
qed

end

section \<open>Refinement\<close>

lemma same_identities_membership:
  assumes "map identity (st_nodes (im_store I')) = map identity (st_nodes (im_store I))"
  shows "membership_of I' = membership_of I"
proof -
  have "map_option (\<lambda>n. (nd_token n, nd_shared n)) (find (\<lambda>n. nd_machine_key n = m) ns) =
      map_option (\<lambda>n. (nd_token n, nd_shared n)) (find (\<lambda>n. nd_machine_key n = m) ns')"
    if "map identity ns = map identity ns'" for m ns ns'
    using that
  proof (induction ns arbitrary: ns')
    case (Cons n ns)
    then obtain n' ms where "ns' = n' # ms" "identity n = identity n'" "map identity ns = map identity ms" by auto
    then show ?case using Cons.IH [of ms] identity_fields [of n n'] by simp
  qed simp
  from this [OF assms] show ?thesis by (simp add: membership_of_def find_by_machine_def fun_eq_iff)
qed

lemma register_node_membership:
  assumes "register_node J N m nk h e t sh s w = (r, im_store I', w')" "im_store I1 = s"
  shows "membership_of I' = membership_of I1 \<or> (find_by_machine m s = None \<and> membership_of I' = (membership_of I1)(m \<mapsto> (t, sh)))"
proof -
  have other: "membership_of I' m' = membership_of I1 m'" if "m' \<noteq> m" for m'
    using registry.register_other [OF assms(1) that] assms(2) by (simp add: membership_of_def)
  have self: "membership_of I' m = membership_of I1 m \<or> (find_by_machine m s = None \<and> membership_of I' m = Some (t, sh))"
  proof (cases "find_by_machine m s")
    case (Some n0)
    then show ?thesis
      using registry.register_known [OF Some assms(1)] assms(2) by (auto simp: membership_of_def identity_def)
  next
    case None
    then show ?thesis
      using register_node_fresh [OF assms(1) None] assms(2) by (cases "find_by_machine m (im_store I')") (auto simp: membership_of_def)
  qed
  from self show ?thesis
  proof (elim disjE conjE)
    assume "membership_of I' m = membership_of I1 m"
    with other have "membership_of I' = membership_of I1" by (metis ext)
    then show ?thesis ..
  next
    assume "find_by_machine m s = None" "membership_of I' m = Some (t, sh)"
    moreover from this(2) other have "membership_of I' = (membership_of I1)(m \<mapsto> (t, sh))" by (auto simp: fun_eq_iff)
    ultimately show ?thesis by blast
  qed
qed

lemma call_step_join:
  assumes "call_step E K (I, w) (I', w')"
  shows "join_step (grants_of (lib_json E) (ck_unix K) (I, w)) (membership_of I) (membership_of I')"
  using call_step_registry [OF assms]
proof (elim disjE exE)
  assume "same_registry (im_store I) (im_store I')"
  then have "membership_of I' = membership_of I" by (intro same_identities_membership) (simp add: same_registry_def)
  then show ?thesis by (simp add: join_step.stay)
next
  fix sid m body h live r h' live'
  assume reg: "on_register E K sid m body (h, I, w, live) = (r, h', I', w', live')"
  show ?thesis
    using on_register_outcome [OF reg]
  proof (elim disjE exE conjE)
    assume "st_nodes (im_store I') = st_nodes (im_store I)"
    then have "membership_of I' = membership_of I" by (intro same_identities_membership) simp
    then show ?thesis by (simp add: join_step.stay)
  next
    fix req q e t sh s1 w1 r2
    assume a: "admit (lib_json E) (ck_unix K) m q (im_store I) w = (Inr (Some (e, t, sh)), s1, w1)"
      and rn: "register_node (lib_json E) (lib_inet6 E) m (rr_node_key q) (rr_host q) e t sh s1 w1 = (r2, im_store I', w')"
    let ?I1 = "I\<lparr>im_store := s1\<rparr>"
    have M1: "membership_of ?I1 = membership_of I" by (rule same_identities_membership) (simp add: admit_nodes [OF a])
    have "membership_of I' = membership_of ?I1 \<or> (find_by_machine m s1 = None \<and> membership_of I' = (membership_of ?I1)(m \<mapsto> (t, sh)))"
      using register_node_membership [OF rn, of ?I1] by simp
    then show ?thesis
    proof (elim disjE conjE)
      assume "membership_of I' = membership_of ?I1" then show ?thesis by (simp add: M1 join_step.stay)
    next
      assume new: "find_by_machine m s1 = None" "membership_of I' = (membership_of ?I1)(m \<mapsto> (t, sh))"
      then have un: "find_by_machine m (im_store I) = None" using admit_lookup [OF a] by simp
      obtain c where c: "consume_preauth (lib_json E) (ck_unix K) (rr_auth q) (im_store I) w = (Inr (Some c), s1, w1)"
        "t = pc_token c" "sh = pc_shared c" using admit_unknown [OF a un] by blast
      obtain s0 k where "reload_keys_from_disk (lib_json E) (im_store I) w = (Inr (), s0)" "find_key (rr_auth q) s0 = Some k"
        "usable (ck_unix K) k" "c = claim_of k" using consume_preauth_success [OF c(1)] by blast
      then have "grants_of (lib_json E) (ck_unix K) (I, w) (rr_auth q) = Some (t, sh)"
        using c by (simp add: grants_of_def claim_of_def)
      moreover have "membership_of I m = None" using un by (simp add: membership_of_def)
      ultimately show ?thesis using new(2) M1 by (simp add: join_step.join)
    qed
  qed
qed

interpretation service: simulation "\<lambda>x y. \<exists>K. call_step E K x y" "\<lambda>M M'. \<exists>grants. join_step grants M M'" "\<lambda>x. membership_of (fst x)" for E
  by unfold_locales (use call_step_join in fastforce)

text \<open>
  C2: The coordinator implements the membership specification. Whatever it does, for whatever
  connection or host call and with whatever outcome, either the membership stays as it is, or
  one machine that had no group joins the group that some preauth key grants at that moment. The
  one exception is the host's import of a state, which replaces the membership.
\<close>

theorem coordinator_refines_membership:
  assumes "service_step E K (I, w) (I', w')"
  shows "membership_of I' = membership_of I \<or>
    (\<exists>m key g. membership_of I m = None \<and> grants_of (lib_json E) (ck_unix K) (I, w) key = Some g \<and>
       membership_of I' = (membership_of I)(m \<mapsto> g)) \<or>
    (\<exists>text r. import_state E text I = (r, I') \<and> w' = w)"
  using assms
proof cases
  case call
  from call_step_join [OF this] show ?thesis
  proof cases
    case (join m key g)
    then show ?thesis by blast
  qed simp
next
  case (imported t r)
  then show ?thesis by blast
qed

lemma call_step_sound:
  assumes "call_step E K (I, w) (I', w')" "sound E c I" "c + 2 \<le> 2 ^ 32"
  shows "sound E (c + 2) I'"
proof -
  obtain cs where "length cs \<le> 2" "run_calls (lib_json E) (lib_inet6 E) cs (im_store I, w) = (im_store I', w')"
    using call_step_calls [OF assms(1)] by blast
  then show ?thesis
    using run_calls_inv [of "lib_inet6 E" "im_store I" c cs "lib_json E" w] assms(2,3)
    by (auto simp: sound_def intro: below_mono)
qed

lemma service_steps_sound:
  assumes "service_steps E c n x y" "sound E c (fst x)" "c + 2 * n \<le> 2 ^ 32"
  shows "sound E (c + 2 * n) (fst y)"
  using assms
proof (induction rule: service_steps.induct)
  case (more n x y K z)
  then show ?case using call_step_sound [of E K "fst y" "snd y" "fst z" "snd z" "c + 2 * n"] by simp
next
  case (imported n x I w t r I')
  then show ?case by (auto simp: sound_def intro: below_mono)
qed simp

text \<open>
  Importing what a coordinator in a sound state on the same address ranges exported is sound: the
  case for which the call is meant.
\<close>

lemma exported_state_sound:
  assumes "nl_laws (lib_json E)" "snapshot_text_laws (lib_json E)" "snapshot_fits (im_store I0)"
    and "sound E c I0" "st_alloc (im_store I) = st_alloc (im_store I0)" "export_state E I0 = Inr t"
  shows "\<exists>I'. import_state E t I = (Inr (), I') \<and> sound E c I'"
  using dump_load_json [OF assms(1-3), of t "im_store I"] assms(4-6)
  by (auto simp: export_state_def import_state_def sound_def store_inv_def below_def)

text \<open>
  A machine's group is for life. However long the coordinator runs without an import, whatever
  requests it serves and whatever keys are created meanwhile, a machine that belongs to a group
  keeps that group and its visibility.
\<close>

theorem groups_are_permanent:
  assumes "(\<lambda>x y. \<exists>K. call_step E K x y)\<^sup>*\<^sup>* (I, w) (I', w')" "membership_of I m = Some g"
  shows "membership_of I' m = Some g"
proof -
  have keep: "\<And>a b. a m = Some g \<Longrightarrow> \<exists>grants. join_step grants a b \<Longrightarrow> b m = Some g"
    by (auto elim!: join_step.cases)
  have "(membership_of (fst (I', w'))) m = Some g"
    by (rule service.sim_invariant [where P = "\<lambda>M. M m = Some g" and s = "(I, w)" and E = E])
      (use keep assms in auto)
  then show ?thesis by simp
qed

text \<open>
  A map built from the registry and a copy of the caller's node, taken now or earlier, lists the
  machines that the membership lets the caller see.
\<close>

lemma full_map_exact:
  assumes "store_inv N (im_store I)" "find_by_machine a (im_store I) = Some n0" "identity self = identity n0"
  shows "JStr b \<in> map_machines (build_full_map created now self (st_nodes (im_store I)) domain) \<longleftrightarrow> may_see (membership_of I) a b"
proof -
  let ?ns = "st_nodes (im_store I)"
  have inv: "distinct (map nd_machine_key ?ns)" "distinct (map nd_id ?ns)" using assms(1) by (simp_all add: store_inv_def)
  have find: "find_by_machine b (im_store I) = Some n \<longleftrightarrow> n \<in> set ?ns \<and> nd_machine_key n = b" for b n
    using inv(1) by (auto simp: find_by_machine_def dest: find_Some_in intro: find_distinct)
  have "JStr b \<in> map_machines (build_full_map created now self ?ns domain) \<longleftrightarrow>
      (\<exists>n. find_by_machine b (im_store I) = Some n \<and> node_visible_to n0 n \<and> nd_id n \<noteq> nd_id n0)"
    using visible_identity [OF assms(3)] identity_fields(1) [OF assms(3)] by (auto simp: map_machines_full find)
  also have "\<dots> \<longleftrightarrow> may_see (membership_of I) a b"
  proof (cases "find_by_machine b (im_store I)")
    case (Some n)
    have "nd_id n = nd_id n0 \<longleftrightarrow> n = n0" using inv(2) Some assms(2) find by (auto simp: distinct_map inj_on_def)
    moreover have "n = n0 \<longleftrightarrow> a = b" using Some assms(2) find [of a n0] find [of b n] by (metis option.inject)
    ultimately show ?thesis using Some assms(2) by (auto simp: may_see_def membership_of_def node_visible_iff)
  qed (simp add: may_see_def membership_of_def split: option.splits)
  finally show ?thesis .
qed

text \<open>
  C1: In every state a coordinator can reach from a sound registry, such as the empty one, by
  handler calls, disconnections and host calls in any order, imports included, machine keys, node
  ids and IPv4 addresses are pairwise distinct, and the map it builds for a machine lists exactly
  the other machines that the membership lets it see: those of the same group, the shared ones
  and, for a shared machine, all. The imports have to leave a sound registry, because the code
  does not check what it imports; the text exported by such a coordinator does. The number of
  steps is bounded so that the 32-bit counters cannot wrap: \<open>2\<^sup>31 - 1\<close> from the empty registry.
\<close>

theorem maps_follow_membership:
  assumes "sound E c I0" "service_steps E c n (I0, w0) (I, w)" "c + 2 * n \<le> 2 ^ 32"
    and "find_by_machine a (im_store I) = Some self"
  shows "distinct (map nd_machine_key (st_nodes (im_store I))) \<and> distinct (map nd_id (st_nodes (im_store I))) \<and>
    distinct (map nd_ipv4 (st_nodes (im_store I))) \<and>
    (\<forall>b. JStr b \<in> map_machines (build_full_map created now self (st_nodes (im_store I)) domain) \<longleftrightarrow> may_see (membership_of I) a b)"
proof -
  have "store_inv (lib_inet6 E) (im_store I)" using service_steps_sound [OF assms(2) _ assms(3)] assms(1) by (simp add: sound_def)
  with full_map_exact [OF this assms(4) refl] show ?thesis by (simp add: store_inv_def)
qed

section \<open>A concrete run\<close>

text \<open>One machine joins the empty coordinator with the demonstration key.\<close>

lemma demo_join:
  obtains I w n where "call_step demo_libs demo_clock (demo_impl demo_store, demo_world) (I, w)"
    "find_by_machine ''mkey:bb'' (im_store I) = Some n" "im_map_gen I = 2" "snapshot_fits (im_store I)"
proof -
  obtain n s2 w2 where r: "on_register demo_libs demo_clock 1 ''mkey:bb'' demo_register_body (new_H2, demo_impl demo_store, demo_world, []) =
      (Inr (), reply 1 200 ''application/json'' (bytes_of_string (ref_text build_register_response)) new_H2, bump_map (demo_impl s2), w2, [])"
    "find_by_machine ''mkey:bb'' s2 = Some n" "snapshot_fits s2"
    using demo_on_register [of demo_store 1 new_H2 "[]"] demo_store_ready by (auto simp: demo_store_def)
  show thesis
    by (rule that [OF call_step.register [OF r(1)], of n]) (use r(2,3) in \<open>simp_all add: bump_map_def demo_impl_def\<close>)
qed

lemma demo_sound: "sound demo_libs 2 (demo_impl demo_store)"
  by (simp add: sound_def store_inv_def below_def demo_store_def)

text \<open>A coordinator that imports its own export has the same registry again.\<close>

lemma demo_reimport:
  assumes "snapshot_fits (im_store I)" "sound demo_libs c I"
  obtains t I' where "export_state demo_libs I = Inr t" "import_state demo_libs t I = (Inr (), I')"
    "sound demo_libs c I'" "im_store I' = im_store I"
proof -
  let ?t = "ref_text (snapshot_locked (im_store I))"
  have e: "export_state demo_libs I = Inr ?t" by (simp add: export_state_def dump_json_def)
  obtain I' where I': "import_state demo_libs ?t I = (Inr (), I')" "sound demo_libs c I'"
    using exported_state_sound [OF _ _ assms(1,2) refl e] ref_json_laws ref_snapshot_text_laws by auto
  have "load_json ref_json ?t (im_store I) = (Inr (), im_store I)"
    using dump_load_json [OF ref_json_laws ref_snapshot_text_laws assms(1), of ?t "im_store I"] by (simp add: dump_json_def)
  then have "im_store I' = im_store I" using I'(1) by (auto simp: import_state_def)
  then show thesis using that e I' by blast
qed

lemma demo_nobody: "membership_of (demo_impl demo_store) m = None"
  by (simp add: membership_of_def demo_store_ready)

lemma import_state_generation: "import_state E text I = (r, I') \<Longrightarrow> im_map_gen I' = im_map_gen I"
  by (auto simp: import_state_def split: prod.splits sum.splits)

theorem coordinator_refines_membership_witness:
  "\<exists>I w m key g. service_step demo_libs demo_clock (demo_impl demo_store, demo_world) (I, w) \<and>
    grants_of ref_json 100 (demo_impl demo_store, demo_world) key = Some g \<and>
    membership_of I = (membership_of (demo_impl demo_store))(m \<mapsto> g)"
proof -
  obtain I w n where j: "call_step demo_libs demo_clock (demo_impl demo_store, demo_world) (I, w)"
    "find_by_machine ''mkey:bb'' (im_store I) = Some n" "im_map_gen I = 2" by (rule demo_join)
  have "membership_of I ''mkey:bb'' \<noteq> membership_of (demo_impl demo_store) ''mkey:bb''"
    using j(2) demo_nobody by (simp add: membership_of_def)
  then have "membership_of I \<noteq> membership_of (demo_impl demo_store)" by auto
  moreover have "import_state demo_libs t (demo_impl demo_store) \<noteq> (r, I)" for t r
    using import_state_generation [of demo_libs t "demo_impl demo_store" r I] j(3) by (auto simp: demo_impl_def)
  ultimately obtain m key g where
    "grants_of (lib_json demo_libs) (ck_unix demo_clock) (demo_impl demo_store, demo_world) key = Some g"
    "membership_of I = (membership_of (demo_impl demo_store))(m \<mapsto> g)"
    using coordinator_refines_membership [OF service_step.call [OF j(1)]] by blast
  with service_step.call [OF j(1)] show ?thesis unfolding demo_libs_simps by blast
qed

theorem groups_are_permanent_witness:
  "\<exists>I w g. (\<lambda>x y. \<exists>K. call_step demo_libs K x y)\<^sup>*\<^sup>* (demo_impl demo_store2, demo_world) (I, w) \<and>
    membership_of (demo_impl demo_store2) ''mkey:aa'' = Some g \<and> membership_of I ''mkey:aa'' = Some g"
proof -
  let ?I = "bump_map ((demo_impl demo_store2)\<lparr>im_store := set_online ''mkey:aa'' False (im_store (demo_impl demo_store2))\<rparr>)"
  have st: "(\<lambda>x y. \<exists>K. call_step demo_libs K x y)\<^sup>*\<^sup>* (demo_impl demo_store2, demo_world) (?I, demo_world)"
    using call_step.leave by (intro r_into_rtranclp) blast
  have "membership_of (demo_impl demo_store2) ''mkey:aa'' = Some (''alpha'', False)"
    by (simp add: membership_of_def find_by_machine_def demo_store2_def demo_node_simps)
  with groups_are_permanent [OF st this] st show ?thesis by blast
qed

theorem maps_follow_membership_witness:
  "\<exists>I1 w t I self. call_step demo_libs demo_clock (demo_impl demo_store, demo_world) (I1, w) \<and>
    export_state demo_libs I1 = Inr t \<and> import_state demo_libs t I1 = (Inr (), I) \<and>
    service_steps demo_libs 4 2 (demo_impl demo_store, demo_world) (I, w) \<and>
    find_by_machine ''mkey:bb'' (im_store I) = Some self \<and> distinct (map nd_ipv4 (st_nodes (im_store I))) \<and>
    JStr ''mkey:bb'' \<notin> map_machines (build_full_map (\<lambda>_. 7) 7 self (st_nodes (im_store I)) ''wirebone.local'')"
proof -
  obtain I1 w n where j: "call_step demo_libs demo_clock (demo_impl demo_store, demo_world) (I1, w)"
    "find_by_machine ''mkey:bb'' (im_store I1) = Some n" "snapshot_fits (im_store I1)" by (rule demo_join)
  have "sound demo_libs (2 + 2) I1" by (rule call_step_sound [OF j(1) demo_sound]) simp
  then have s1: "sound demo_libs 4 I1" by simp
  obtain t I where i: "export_state demo_libs I1 = Inr t" "import_state demo_libs t I1 = (Inr (), I)"
    "sound demo_libs 4 I" "im_store I = im_store I1" by (rule demo_reimport [OF j(3) s1])
  have st: "service_steps demo_libs 4 2 (demo_impl demo_store, demo_world) (I, w)"
    using service_steps.imported [OF service_steps.more [OF service_steps.none j(1)] i(2,3)] by (simp add: numeral_2_eq_2)
  have s0: "sound demo_libs 4 (demo_impl demo_store)" using demo_sound by (auto simp: sound_def intro: below_mono)
  have f: "find_by_machine ''mkey:bb'' (im_store I) = Some n" by (simp add: i(4) j(2))
  have "4 + 2 * 2 \<le> (2::nat) ^ 32" by simp
  from maps_follow_membership [OF s0 st this f, of "\<lambda>_. 7" 7 "''wirebone.local''"] st i(1,2) j(1) f
  show ?thesis by (auto simp: may_see_def)
qed

end
