(* ===== verification/Threads.thy ===== *)
theory Threads
  imports Service
begin

text \<open>
  The handlers of \<^verbatim>\<open>src/src/coordinator.cpp\<close> as threads. Every connection runs in a thread of
  its own, and the store's mutex is taken and released anew for every store method: between two
  critical sections of a handler, other threads run theirs. A handler is a sequence of jobs, one
  for each critical section; \<open>thread_step\<close> runs one of them. Without interference the jobs are
  the handler (\<open>register_threads\<close>, \<open>map_threads\<close>, \<open>tick_threads\<close>). With interference by any number
  of connections, the host and other processes, admission and the isolation of maps still hold.
  An import of a state by the host is a step of the larger relation \<open>full_step\<close>: it replaces the
  membership, and one guard of a registration can be invalidated by it.
\<close>

section \<open>Critical sections of the handlers\<close>

datatype answer =
    Denied | Registered | Unauthorized | Empty | Framed bytes | Polling bytes u64 | Ticked | Left | Raised exn

datatype job =
    Answer answer
  | Reg_check register_req
  | Reg_read register_req
  | Reg_install register_req "json option"
  | Reg_consume register_req
  | Reg_node register_req bool string bool
  | Reg_bump
  | Map_update map_req "string list"
  | Map_bump map_req
  | Map_online map_req
  | Map_find map_req
  | Map_nodes map_req NodeState
  | Map_enlist bytes
  | Tick_gen "LiveMap list"
  | Tick_poll u64 "LiveMap list"
  | Tick_nodes u64 LiveMap NodeState "LiveMap list"
  | Leave_online
  | Leave_bump

text \<open>Building a frame from a node and a list of nodes read before; the map is what a client sees.\<close>

definition frame_of :: "libs \<Rightarrow> clock \<Rightarrow> NodeState \<Rightarrow> bool \<Rightarrow> Impl \<Rightarrow> (bytes \<times> json) res" where
  "frame_of E K self zstd I =
     (let j = build_full_map (ck_created K) (ck_now K) self (st_nodes (im_store I)) (cf_domain (im_cfg I))
      in res_bind (encode_map_frame (lib_json E) (lib_zstd E) j zstd) (\<lambda>f. Inr (f, j)))"

text \<open>
  One critical section of the thread that serves machine \<open>m\<close>: the next job, the map sent if any,
  and the new coordinator and world.
\<close>

fun thread_step :: "libs \<Rightarrow> clock \<Rightarrow> string \<Rightarrow> job \<Rightarrow> service \<Rightarrow> job \<times> json option \<times> service" where
  "thread_step E K m (Answer a) (I, w) = (Answer a, None, I, w)"
| "thread_step E K m (Reg_check q) (I, w) =
     ((if find_by_machine m (im_store I) \<noteq> None then Reg_node q (rr_ephemeral q) [] False
       else if rr_auth q = [] then Answer Denied else Reg_read q), None, I, w)"
| "thread_step E K m (Reg_read q) (I, w) = (Reg_install q (reload_read (lib_json E) (im_store I) w), None, I, w)"
| "thread_step E K m (Reg_install q ks) (I, w) =
     (case reload_install (lib_json E) ks (im_store I) of
        (Inl e, s) \<Rightarrow> (Answer (Raised e), None, I\<lparr>im_store := s\<rparr>, w)
      | (Inr _, s) \<Rightarrow> (Reg_consume q, None, I\<lparr>im_store := s\<rparr>, w))"
| "thread_step E K m (Reg_consume q) (I, w) =
     (case consume_locked (lib_json E) (ck_unix K) (rr_auth q) (im_store I) w of
        (Inl e, s, w') \<Rightarrow> (Answer (Raised e), None, I\<lparr>im_store := s\<rparr>, w')
      | (Inr None, s, w') \<Rightarrow> (Answer Denied, None, I\<lparr>im_store := s\<rparr>, w')
      | (Inr (Some c), s, w') \<Rightarrow>
          (Reg_node q (pc_ephemeral c) (pc_token c) (pc_shared c), None, I\<lparr>im_store := s\<rparr>, w'))"
| "thread_step E K m (Reg_node q e t sh) (I, w) =
     (case register_node (lib_json E) (lib_inet6 E) m (rr_node_key q) (rr_host q) e t sh (im_store I) w of
        (Inl x, s, w') \<Rightarrow> (Answer (Raised x), None, I\<lparr>im_store := s\<rparr>, w')
      | (Inr n, s, w') \<Rightarrow> (Reg_bump, None, I\<lparr>im_store := s\<rparr>, w'))"
| "thread_step E K m Reg_bump (I, w) = (Answer Registered, None, bump_map I, w)"
| "thread_step E K m (Map_update q eps) (I, w) =
     (case update_map_info (lib_json E) m (mr_node_key q) (mr_disco_key q) (mr_host q) eps (im_store I) w of
        (Inl e, s, w') \<Rightarrow> (Answer (Raised e), None, I\<lparr>im_store := s\<rparr>, w')
      | (Inr _, s, w') \<Rightarrow> (Map_bump q, None, I\<lparr>im_store := s\<rparr>, w'))"
| "thread_step E K m (Map_bump q) (I, w) = (Map_online q, None, bump_map I, w)"
| "thread_step E K m (Map_online q) (I, w) =
     ((if mr_omit_peers q \<and> \<not> mr_stream q then Answer Empty else Map_find q), None,
      I\<lparr>im_store := set_online m True (im_store I)\<rparr>, w)"
| "thread_step E K m (Map_find q) (I, w) =
     ((case find_by_machine m (im_store I) of None \<Rightarrow> Answer Unauthorized | Some self \<Rightarrow> Map_nodes q self), None, I, w)"
| "thread_step E K m (Map_nodes q self) (I, w) =
     (case frame_of E K self (mr_zstd q) I of
        Inl e \<Rightarrow> (Answer (Raised e), None, I, w)
      | Inr (f, j) \<Rightarrow> ((if mr_stream q then Map_enlist f else Answer (Framed f)), Some j, I, w))"
| "thread_step E K m (Map_enlist f) (I, w) = (Answer (Polling f (im_map_gen I)), None, I, w)"
| "thread_step E K m (Tick_gen live) (I, w) = (Tick_poll (im_map_gen I) live, None, I, w)"
| "thread_step E K m (Tick_poll gen []) (I, w) = (Answer Ticked, None, I, w)"
| "thread_step E K m (Tick_poll gen (p # ps)) (I, w) =
     ((if gen \<noteq> lm_last_gen p then
         (case find_by_machine (lm_machine p) (im_store I) of
            None \<Rightarrow> Tick_poll gen ps
          | Some self \<Rightarrow> Tick_nodes gen p self ps)
       else if cf_keepalive (im_cfg I) * 1000000000 \<le> ck_steady K - lm_last_send p then
         (case encode_map_frame (lib_json E) (lib_zstd E) (build_keepalive (ck_now K)) (lm_zstd p) of
            Inl e \<Rightarrow> Answer (Raised e)
          | Inr f \<Rightarrow> Tick_poll gen ps)
       else Tick_poll gen ps), None, I, w)"
| "thread_step E K m (Tick_nodes gen p self ps) (I, w) =
     (case frame_of E K self (lm_zstd p) I of
        Inl e \<Rightarrow> (Answer (Raised e), None, I, w)
      | Inr (f, j) \<Rightarrow> (Tick_poll gen ps, Some j, I, w))"
| "thread_step E K m Leave_online (I, w) = (Leave_bump, None, I\<lparr>im_store := set_online m False (im_store I)\<rparr>, w)"
| "thread_step E K m Leave_bump (I, w) = (Answer Left, None, bump_map I, w)"

text \<open>The first job of a handler; the long polls of a connection are those of its own machine.\<close>

fun starts :: "string \<Rightarrow> job \<Rightarrow> bool" where
  "starts m (Reg_check q) = True"
| "starts m (Map_update q eps) = (\<not> mr_readonly q)"
| "starts m (Map_online q) = mr_readonly q"
| "starts m (Tick_gen live) = list_all (\<lambda>p. lm_machine p = m) live"
| "starts m Leave_online = True"
| "starts m j = False"

definition map_start :: "map_req \<Rightarrow> string list \<Rightarrow> job" where
  "map_start q eps = (if mr_readonly q then Map_online q else Map_update q eps)"

fun idle :: "job \<Rightarrow> bool" where
  "idle (Answer a) = True"
| "idle j = False"

section \<open>A handler that is not interrupted\<close>

fun run_job :: "libs \<Rightarrow> clock \<Rightarrow> string \<Rightarrow> nat \<Rightarrow> job \<Rightarrow> service \<Rightarrow> job \<times> service" where
  "run_job E K m 0 j x = (j, x)"
| "run_job E K m (Suc n) j x = (case thread_step E K m j x of (j', out, x') \<Rightarrow> run_job E K m n j' x')"

text \<open>What the handler sends for an answer.\<close>

definition register_answer :: "nlohmann \<Rightarrow> int \<Rightarrow> answer \<Rightarrow> H2 \<times> conn_state \<Rightarrow> unit res \<times> H2 \<times> conn_state" where
  "register_answer J sid a st =
     (case a of
        Denied \<Rightarrow> json_reply J sid denied_response st
      | Registered \<Rightarrow> json_reply J sid build_register_response st
      | Raised e \<Rightarrow> (Inl e, st)
      | _ \<Rightarrow> (Inr (), st))"

definition map_answer ::
  "clock \<Rightarrow> int \<Rightarrow> string \<Rightarrow> bool \<Rightarrow> answer \<Rightarrow> H2 \<times> conn_state \<Rightarrow> unit res \<times> H2 \<times> conn_state" where
  "map_answer K sid m zstd a st =
     (case st of (h, I, w, live) \<Rightarrow>
      case a of
        Empty \<Rightarrow> (Inr (), reply sid 200 ''application/json'' [] h, I, w, live)
      | Unauthorized \<Rightarrow> (Inr (), reply sid 401 ''text/plain'' (bytes_of_string ''unauthorized'') h, I, w, live)
      | Framed f \<Rightarrow> (Inr (), reply sid 200 ''application/json'' f h, I, w, live)
      | Polling f gen \<Rightarrow>
          (Inr (), reply_stream_start sid 200 f h, I, w,
           live @ [\<lparr>lm_stream_id = sid, lm_machine = m, lm_zstd = zstd, lm_last_gen = gen, lm_last_send = ck_steady K\<rparr>])
      | Raised e \<Rightarrow> (Inl e, h, I, w, live)
      | _ \<Rightarrow> (Inr (), h, I, w, live))"

lemma run_job_answer [simp]: "run_job E K m n (Answer a) x = (Answer a, x)"
  by (induction n arbitrary: x) (auto split: prod.splits)

lemma run_job_6: "run_job E K m 6 j x = run_job E K m (Suc (Suc (Suc (Suc (Suc (Suc 0)))))) j x"
  by (simp add: eval_nat_numeral)

lemma register_threads:
  assumes "parse_body (lib_json E) body = Some req" "register_fields (lib_json E) req = Inr q"
  shows "\<exists>a I' w'. run_job E K m 6 (Reg_check q) (I, w) = (Answer a, I', w') \<and>
    on_register E K sid m body (h, I, w, live) = register_answer (lib_json E) sid a (h, I', w', live)"
  using assms unfolding run_job_6
  by (auto simp: on_register_def Let_def admit_def consume_preauth_def reload_keys_from_disk_def register_answer_def
      split: prod.split sum.split option.split)

lemma map_online_threads:
  fixes I :: Impl and m :: string
  defines "I' \<equiv> I\<lparr>im_store := set_online m True (im_store I)\<rparr>"
  shows "\<exists>a. run_job E K m (Suc (Suc (Suc (Suc n)))) (Map_online q) (I, w) = (Answer a, I', w) \<and>
    map_answer K sid m (mr_zstd q) a (h, I', w, live) =
      (case map_response E K sid m q I' h of
         Inl e \<Rightarrow> (Inl e, h, I', w, live)
       | Inr (None, h') \<Rightarrow> (Inr (), h', I', w, live)
       | Inr (Some z, h') \<Rightarrow> (Inr (), h', I', w, on_map_enlist K sid m z I' live))"
  unfolding I'_def
  by (cases "find_by_machine m (set_online m True (im_store I))")
    (auto simp: map_response_def map_answer_def map_frame_for_def frame_of_def Let_def res_bind_def on_map_enlist_def split: sum.split)

text \<open>
  The update, the generation, the online flag, the caller's node, the list of nodes and the entry
  of the long poll are six critical sections, which in a row are the handler of a map request.
\<close>

lemma map_threads:
  assumes "parse_body (lib_json E) body = Some req" "map_fields (lib_json E) req = Inr q"
  shows "\<exists>a I' w'. run_job E K m 6 (map_start q (endpoints_from_req req)) (I, w) = (Answer a, I', w') \<and>
    on_map E K sid m body (h, I, w, live) = map_answer K sid m (mr_zstd q) a (h, I', w', live)"
proof (cases "mr_readonly q")
  case True
  then show ?thesis
    using assms map_online_threads [of E K m "Suc (Suc 0)" q I w sid h live] unfolding run_job_6
    by (auto simp: map_start_def on_map_def on_map_answer_def Let_def simp del: run_job.simps split: sum.splits option.splits)
next
  case False
  obtain u s w1 where u: "update_map_info (lib_json E) m (mr_node_key q) (mr_disco_key q) (mr_host q) (endpoints_from_req req) (im_store I) w = (u, s, w1)"
    by (metis prod_cases3)
  show ?thesis
  proof (cases u)
    case (Inl e)
    then show ?thesis
      using False assms u unfolding run_job_6
      by (intro exI [of _ "Raised e"]) (simp add: map_start_def on_map_def on_map_answer_def map_answer_def Let_def)
  next
    case (Inr x)
    let ?I = "bump_map (I\<lparr>im_store := s\<rparr>)"
    have "run_job E K m 6 (map_start q (endpoints_from_req req)) (I, w) =
        run_job E K m (Suc (Suc (Suc (Suc 0)))) (Map_online q) (?I, w1)"
      using False u Inr unfolding run_job_6 by (simp add: map_start_def)
    then show ?thesis
      using False assms u Inr map_online_threads [of E K m 0 q ?I w1 sid h live]
      by (auto simp: on_map_def on_map_answer_def Let_def simp del: run_job.simps split: sum.splits option.splits)
  qed
qed

text \<open>
  The fan-out: two critical sections at most for each long poll, and one for the generation. It
  changes nothing shared, and ends as the loop does.
\<close>

lemma run_job_add: "run_job E K m (n + k) j x = (case run_job E K m n j x of (j', x') \<Rightarrow> run_job E K m k j' x')"
  by (induction n arbitrary: j x) (auto split: prod.splits)

lemma tick_poll_threads:
  assumes "tick_all E K gen I ps h = (r, ps', h')"
  shows "run_job E K m (2 * length ps + 1) (Tick_poll gen ps) (I, w) = (Answer (case r of Inl e \<Rightarrow> Raised e | Inr _ \<Rightarrow> Ticked), I, w)"
  using assms
proof (induction ps arbitrary: h r ps' h')
  case (Cons p ps)
  obtain r1 p1 h1 where 1: "tick_one E K gen I p h = (r1, p1, h1)" by (metis prod_cases3)
  have "run_job E K m 2 (Tick_poll gen (p # ps)) (I, w) =
      (case r1 of Inl e \<Rightarrow> (Answer (Raised e), I, w) | Inr _ \<Rightarrow> run_job E K m (if gen \<noteq> lm_last_gen p \<and> find_by_machine (lm_machine p) (im_store I) \<noteq> None then 0 else 1) (Tick_poll gen ps) (I, w))"
    using 1 by (auto simp: numeral_2_eq_2 tick_one_def Let_def map_frame_for_def frame_of_def res_bind_def split: if_splits option.splits sum.splits)
  moreover have "r1 = Inl e \<Longrightarrow> r = Inl e" for e using Cons.prems 1 by simp
  moreover have "run_job E K m (2 * length ps + 1) (Tick_poll gen ps) (I, w) = (Answer (case r of Inl e \<Rightarrow> Raised e | Inr _ \<Rightarrow> Ticked), I, w)"
    if "r1 = Inr ()" using Cons.prems Cons.IH [of h1] 1 that by (auto split: prod.splits)
  ultimately show ?case
    using run_job_add [of E K m 2 "2 * length ps + 1" "Tick_poll gen (p # ps)" "(I, w)"]
      run_job_add [of E K m "2 * length ps + 1" 1 "Tick_poll gen ps" "(I, w)"]
      run_job_add [of E K m 1 "2 * length ps + 1" "Tick_poll gen ps" "(I, w)"]
    by (cases r1) (auto split: if_splits)
qed auto

lemma tick_threads:
  assumes "on_tick E K (h, I, w, live) = (r, h', I', w', live')"
  shows "run_job E K m (2 * length live + 2) (Tick_gen live) (I, w) = (Answer (case r of Inl e \<Rightarrow> Raised e | Inr _ \<Rightarrow> Ticked), I', w')"
proof -
  have "tick_all E K (im_map_gen I) I live h = (r, live', h')" "I' = I" "w' = w"
    using assms by (auto simp: on_tick_def split: prod.splits)
  from tick_poll_threads [OF this(1), of m w] this(2,3) show ?thesis by simp
qed

section \<open>Interleaving\<close>

text \<open>
  The state of all threads: the job of each, and three records of the past: the maps sent to each
  connection, the preauth keys that were honoured, with the machine and the time, and the
  memberships that imports by the host installed.
\<close>

record system =
  sy_jobs :: "nat \<Rightarrow> job"
  sy_sent :: "(nat \<times> json) set"
  sy_honoured :: "(string \<times> PreauthKey \<times> int) set"
  sy_imports :: "membership list"
  sy_impl :: Impl
  sy_world :: world

fun honours :: "clock \<Rightarrow> string \<Rightarrow> job \<Rightarrow> job \<Rightarrow> Store \<Rightarrow> (string \<times> PreauthKey \<times> int) set" where
  "honours K m (Reg_consume q) (Reg_node q' e t sh) s =
     (case find_key (rr_auth q) s of Some k \<Rightarrow> {(m, k, ck_unix K)} | None \<Rightarrow> {})"
| "honours K m j j' s = {}"

text \<open>
  \<open>who i\<close> is the machine key that thread \<open>i\<close> authenticated in its handshake. The steps are those of
  the threads, the calls of the host other than imports, and changes of the files.
\<close>

inductive system_step :: "libs \<Rightarrow> (nat \<Rightarrow> string) \<Rightarrow> system \<Rightarrow> system \<Rightarrow> bool" for E who where
  thread: "thread_step E K (who i) (sy_jobs S i) (sy_impl S, sy_world S) = (j, out, I, w) \<Longrightarrow>
    system_step E who S
      (S\<lparr>sy_jobs := (sy_jobs S)(i := j), sy_sent := sy_sent S \<union> Pair i ` set_option out,
         sy_honoured := sy_honoured S \<union> honours K (who i) (sy_jobs S i) j (im_store (sy_impl S)),
         sy_impl := I, sy_world := w\<rparr>)"
| request: "idle (sy_jobs S i) \<Longrightarrow> starts (who i) j \<Longrightarrow> system_step E who S (S\<lparr>sy_jobs := (sy_jobs S)(i := j)\<rparr>)"
| create_key: "Impl_create_preauth_key E draw K opts (sy_impl S) (sy_world S) = (r, I, w) \<Longrightarrow>
    system_step E who S (S\<lparr>sy_impl := I, sy_world := w\<rparr>)"
| save: "Impl_persist E (sy_impl S) (sy_world S) = (r, I, w) \<Longrightarrow> system_step E who S (S\<lparr>sy_impl := I, sy_world := w\<rparr>)"
| hook: "system_step E who S (S\<lparr>sy_impl := Impl_set_persist_hook (sy_impl S)\<rparr>)"
| start: "run_async Q (sy_impl S) = (r, I) \<Longrightarrow> system_step E who S (S\<lparr>sy_impl := I\<rparr>)"
| run: "Impl_run Q es (sy_impl S) = (r, I) \<Longrightarrow> system_step E who S (S\<lparr>sy_impl := I\<rparr>)"
| stop: "system_step E who S (S\<lparr>sy_impl := Impl_stop (sy_impl S)\<rparr>)"
| outside: "system_step E who S (S\<lparr>sy_world := w\<rparr>)"

inductive system_steps :: "libs \<Rightarrow> (nat \<Rightarrow> string) \<Rightarrow> nat \<Rightarrow> system \<Rightarrow> system \<Rightarrow> bool" for E who where
  none: "system_steps E who 0 S S"
| more: "system_steps E who n S T \<Longrightarrow> system_step E who T U \<Longrightarrow> system_steps E who (Suc n) S U"

text \<open>With imports, which take the store's mutex once to install what was parsed before.\<close>

inductive full_step :: "libs \<Rightarrow> (nat \<Rightarrow> string) \<Rightarrow> system \<Rightarrow> system \<Rightarrow> bool" for E who where
  step: "system_step E who S T \<Longrightarrow> full_step E who S T"
| imported: "import_state E text (sy_impl S) = (r, I) \<Longrightarrow>
    full_step E who S (S\<lparr>sy_impl := I, sy_imports := sy_imports S @ [membership_of I]\<rparr>)"

abbreviation members :: "system \<Rightarrow> membership" where
  "members S \<equiv> membership_of (sy_impl S)"

text \<open>A key that gives the group was honoured for the machine.\<close>

definition honoured_for :: "system \<Rightarrow> string \<Rightarrow> string \<times> bool \<Rightarrow> bool" where
  "honoured_for S m g \<longleftrightarrow> (\<exists>k now. (m, k, now) \<in> sy_honoured S \<and> usable now k \<and> g = (pk_token k, pk_shared k))"

text \<open>Only the registration of a node changes who is registered.\<close>

lemma thread_step_registry:
  assumes "thread_step E K m j (I, w) = (j', out, I', w')"
  shows "same_registry (im_store I) (im_store I') \<or>
    (\<exists>q e t sh r. j = Reg_node q e t sh \<and>
       register_node (lib_json E) (lib_inet6 E) m (rr_node_key q) (rr_host q) e t sh (im_store I) w = (r, im_store I', w'))"
proof (cases j)
  case (Tick_poll gen ps)
  then show ?thesis using assms by (cases ps) auto
qed (use assms in \<open>auto simp: bump_map_def set_online_registry dest: reload_install_registry consume_locked_registry update_map_info_registry
    split: prod.splits sum.splits option.splits\<close>)

lemma system_step_registry:
  assumes "system_step E who S T"
  shows "same_registry (im_store (sy_impl S)) (im_store (sy_impl T)) \<or>
    (\<exists>i q e t sh r. sy_jobs S i = Reg_node q e t sh \<and>
       register_node (lib_json E) (lib_inet6 E) (who i) (rr_node_key q) (rr_host q) e t sh (im_store (sy_impl S)) (sy_world S) =
         (r, im_store (sy_impl T), sy_world T))"
  using assms
proof cases
  case (thread K i j out I w)
  then show ?thesis using thread_step_registry [OF thread(2)] by auto
next
  case (create_key draw K opts r I w)
  then show ?thesis
    by (auto simp: Impl_create_preauth_key_def dest!: create_preauth_key_registry split: prod.splits)
next
  case (save r I w)
  then show ?thesis by (auto simp: Impl_persist_def persist_def dest!: save_and_return_cases(1) split: prod.splits)
qed (simp_all add: life_cycle_store Impl_set_persist_hook_def set_persist_hook_registry)

lemma membership_None: "membership_of I m = None \<longleftrightarrow> find_by_machine m (im_store I) = None"
  by (simp add: membership_of_def)

lemma system_step_members:
  assumes "system_step E who S T"
  shows "members T = members S \<or>
    (\<exists>i q e t sh. sy_jobs S i = Reg_node q e t sh \<and> members S (who i) = None \<and> members T = (members S)(who i \<mapsto> (t, sh)))"
  using system_step_registry [OF assms]
proof (elim disjE exE conjE)
  assume "same_registry (im_store (sy_impl S)) (im_store (sy_impl T))"
  then have "members T = members S" by (intro same_identities_membership) (simp add: same_registry_def)
  then show ?thesis ..
next
  fix i q e t sh r
  assume j: "sy_jobs S i = Reg_node q e t sh"
    and "register_node (lib_json E) (lib_inet6 E) (who i) (rr_node_key q) (rr_host q) e t sh (im_store (sy_impl S)) (sy_world S) =
      (r, im_store (sy_impl T), sy_world T)"
  from register_node_membership [OF this(2) refl] j show ?thesis unfolding membership_None [symmetric] by blast
qed

lemma members_keep: "system_step E who S T \<Longrightarrow> members S m = Some g \<Longrightarrow> members T m = Some g"
  using system_step_members by fastforce

lemma honoured_keep: "system_step E who S T \<Longrightarrow> honoured_for S m g \<Longrightarrow> honoured_for T m g"
  by (erule system_step.cases) (fastforce simp: honoured_for_def)+

lemma imports_keep: "system_step E who S T \<Longrightarrow> sy_imports T = sy_imports S"
  by (erule system_step.cases) simp_all

text \<open>
  A machine was admitted at some time: it was a member at the start, had a key honoured, or came
  with an import. A membership has a source: the start, a key, or an import; or the machine was
  admitted before an import dropped it and came back without a key.
\<close>

definition admitted :: "membership \<Rightarrow> system \<Rightarrow> string \<Rightarrow> bool" where
  "admitted M S m \<longleftrightarrow> M m \<noteq> None \<or> (\<exists>g. honoured_for S m g) \<or> (\<exists>M' \<in> set (sy_imports S). M' m \<noteq> None)"

definition came_back :: "membership \<Rightarrow> system \<Rightarrow> string \<Rightarrow> string \<times> bool \<Rightarrow> bool" where
  "came_back M S m g \<longleftrightarrow> sy_imports S \<noteq> [] \<and> g = ([], False) \<and> admitted M S m"

definition has_source :: "membership \<Rightarrow> system \<Rightarrow> string \<Rightarrow> string \<times> bool \<Rightarrow> bool" where
  "has_source M S m g \<longleftrightarrow>
     M m = Some g \<or> honoured_for S m g \<or> (\<exists>M' \<in> set (sy_imports S). M' m = Some g) \<or> came_back M S m g"

text \<open>
  A thread that is about to register a node has had a key honoured, or found its machine
  registered and asks for no group.
\<close>

definition admission_inv :: "(nat \<Rightarrow> string) \<Rightarrow> membership \<Rightarrow> system \<Rightarrow> bool" where
  "admission_inv who M S \<longleftrightarrow>
     (\<forall>i q e t sh. sy_jobs S i = Reg_node q e t sh \<longrightarrow>
        honoured_for S (who i) (t, sh) \<or> (members S (who i) \<noteq> None \<and> (t, sh) = ([], False)) \<or> came_back M S (who i) (t, sh)) \<and>
     (\<forall>m g. sy_imports S = [] \<longrightarrow> M m = Some g \<longrightarrow> members S m = Some g) \<and>
     (\<forall>m g. members S m = Some g \<longrightarrow> has_source M S m g)"

lemma admitted_keep:
  assumes "\<And>m g. honoured_for S m g \<Longrightarrow> honoured_for T m g" "\<exists>Ms. sy_imports T = sy_imports S @ Ms"
  shows "came_back M S m g \<Longrightarrow> came_back M T m g" "has_source M S m g \<Longrightarrow> has_source M T m g"
  using assms unfolding came_back_def has_source_def admitted_def by (auto, blast+)

lemma source_admitted: "has_source M S m g \<Longrightarrow> admitted M S m"
  unfolding has_source_def came_back_def admitted_def by (metis option.discI)

lemma thread_step_to_register:
  assumes "thread_step E K m j (I, w) = (Reg_node q e t sh, out, I', w')"
  shows "(membership_of I' m \<noteq> None \<and> (t, sh) = ([], False)) \<or> (\<exists>k. honours K m j (Reg_node q e t sh) (im_store I) = {(m, k, ck_unix K)} \<and>
    usable (ck_unix K) k \<and> (t, sh) = (pk_token k, pk_shared k))"
proof (cases j)
  case (Tick_poll gen ps)
  then show ?thesis using assms by (cases ps) (auto split: if_splits option.splits sum.splits)
next
  case (Reg_check q')
  then show ?thesis using assms by (auto simp: membership_of_def split: if_splits)
next
  case (Reg_consume q')
  then show ?thesis
    using assms
    by (auto dest!: consume_locked_success simp: claim_of_def split: prod.splits sum.splits option.splits)
qed (use assms in \<open>auto split: prod.splits sum.splits option.splits if_splits\<close>)

lemma system_step_job:
  assumes "system_step E who S T"
  shows "sy_jobs T i = sy_jobs S i \<or> (idle (sy_jobs S i) \<and> starts (who i) (sy_jobs T i)) \<or>
    (\<exists>K out. thread_step E K (who i) (sy_jobs S i) (sy_impl S, sy_world S) = (sy_jobs T i, out, sy_impl T, sy_world T) \<and>
       sy_sent T = sy_sent S \<union> Pair i ` set_option out \<and>
       sy_honoured T = sy_honoured S \<union> honours K (who i) (sy_jobs S i) (sy_jobs T i) (im_store (sy_impl S)))"
  using assms
proof cases
  case (thread K i' j out I w)
  then show ?thesis by (cases "i' = i") auto
next
  case (request i' j)
  then show ?thesis by (cases "i' = i") auto
qed simp_all

lemma admission_inv_step:
  assumes "admission_inv who M S" "system_step E who S T"
  shows "admission_inv who M T"
  unfolding admission_inv_def
proof (intro conjI allI impI)
  have imp: "sy_imports T = sy_imports S" by (rule imports_keep [OF assms(2)])
  have "honoured_for S m g \<Longrightarrow> honoured_for T m g" for m g by (rule honoured_keep [OF assms(2)])
  note keep = admitted_keep [of S T M, OF this, unfolded imp, simplified]
  {
    fix i q e t sh assume j: "sy_jobs T i = Reg_node q e t sh"
    from system_step_job [OF assms(2), of i]
    show "honoured_for T (who i) (t, sh) \<or> (members T (who i) \<noteq> None \<and> (t, sh) = ([], False)) \<or> came_back M T (who i) (t, sh)"
    proof (elim disjE exE conjE)
      assume "sy_jobs T i = sy_jobs S i"
      then have "sy_jobs S i = Reg_node q e t sh" using j by simp
      then have "honoured_for S (who i) (t, sh) \<or> (members S (who i) \<noteq> None \<and> (t, sh) = ([], False)) \<or> came_back M S (who i) (t, sh)"
        using assms(1) unfolding admission_inv_def by blast
      then show ?thesis using members_keep [OF assms(2)] honoured_keep [OF assms(2)] keep(1) by blast
    next
      fix K out
      assume st: "thread_step E K (who i) (sy_jobs S i) (sy_impl S, sy_world S) = (sy_jobs T i, out, sy_impl T, sy_world T)"
        and h: "sy_honoured T = sy_honoured S \<union> honours K (who i) (sy_jobs S i) (sy_jobs T i) (im_store (sy_impl S))"
      from thread_step_to_register [OF st [unfolded j]] show ?thesis
      proof (elim disjE exE)
        fix k assume "honours K (who i) (sy_jobs S i) (Reg_node q e t sh) (im_store (sy_impl S)) = {(who i, k, ck_unix K)} \<and>
          usable (ck_unix K) k \<and> (t, sh) = (pk_token k, pk_shared k)"
        then have "(who i, k, ck_unix K) \<in> sy_honoured T \<and> usable (ck_unix K) k \<and> (t, sh) = (pk_token k, pk_shared k)"
          unfolding h j by blast
        then show ?thesis unfolding honoured_for_def by blast
      qed simp
    qed (use j in simp)
  next
    fix m g assume "sy_imports T = []" "M m = Some g"
    then show "members T m = Some g"
      using assms(1) members_keep [OF assms(2)] imp unfolding admission_inv_def by metis
  next
    fix m g assume g: "members T m = Some g"
    show "has_source M T m g"
    proof (cases "members S m")
      case (Some g')
      then have "members S m = Some g" using members_keep [OF assms(2) Some] g by simp
      then show ?thesis using assms(1) keep(2) unfolding admission_inv_def by blast
    next
      case None
      with g obtain i q e t sh where i: "sy_jobs S i = Reg_node q e t sh" "members S (who i) = None" "who i = m" "g = (t, sh)"
        using system_step_members [OF assms(2)] by (auto split: if_splits)
      then have "honoured_for S m g \<or> came_back M S m g" using assms(1) unfolding admission_inv_def by blast
      then have "has_source M S m g" unfolding has_source_def by blast
      then show ?thesis by (rule keep(2))
    qed
  }
qed

lemma admission_inv_import:
  assumes "admission_inv who M S" "T = S\<lparr>sy_impl := I, sy_imports := sy_imports S @ [membership_of I]\<rparr>"
  shows "admission_inv who M T"
  unfolding admission_inv_def
proof (intro conjI allI impI)
  have h: "honoured_for T m g = honoured_for S m g" for m g by (simp add: assms(2) honoured_for_def)
  have "\<exists>Ms. sy_imports T = sy_imports S @ Ms" by (simp add: assms(2))
  note keep = admitted_keep [of S T M, OF _ this, unfolded h]
  {
    fix i q e t sh assume "sy_jobs T i = Reg_node q e t sh"
    then have "sy_jobs S i = Reg_node q e t sh" by (simp add: assms(2))
    then consider "honoured_for S (who i) (t, sh)" | g where "members S (who i) = Some g" "(t, sh) = ([], False)" | "came_back M S (who i) (t, sh)"
      using assms(1) unfolding admission_inv_def by blast
    then show "honoured_for T (who i) (t, sh) \<or> (members T (who i) \<noteq> None \<and> (t, sh) = ([], False)) \<or> came_back M T (who i) (t, sh)"
    proof cases
      case 2
      then have "has_source M S (who i) g" using assms(1) unfolding admission_inv_def by blast
      then have "admitted M T (who i)" using keep(2) source_admitted h by blast
      then show ?thesis using 2(2) by (simp add: came_back_def assms(2))
    qed (use h keep(1) in blast)+
  next
    fix m g assume "members T m = Some g"
    then have "membership_of I m = Some g" "membership_of I \<in> set (sy_imports T)" by (simp_all add: assms(2))
    then show "has_source M T m g" unfolding has_source_def by blast
  }
qed (simp add: assms(2))

text \<open>
  C4: Admission under concurrency. However the threads of any number of connections interleave,
  with each other, with the calls of the host and with other processes that rewrite the state
  file, every member has its group from one of these sources: it had it at the start; a preauth
  key that gives this group was honoured for that very machine when it was not expired and, if
  one-shot, not used; or the host imported a state in which the machine has it. Without an import
  there is no other way, and a member keeps its group. After an import a machine may also be in
  the group with the empty token, unshared, but only if it was admitted before in one of these
  ways.
\<close>

theorem interleaved_admission:
  assumes "(full_step E who)\<^sup>*\<^sup>* S T" "\<forall>i. idle (sy_jobs S i)" "sy_imports S = []"
  shows "(\<forall>m g. sy_imports T = [] \<longrightarrow> members S m = Some g \<longrightarrow> members T m = Some g) \<and>
    (\<forall>m g. members T m = Some g \<longrightarrow>
       members S m = Some g \<or>
       (\<exists>k now. (m, k, now) \<in> sy_honoured T \<and> usable now k \<and> g = (pk_token k, pk_shared k)) \<or>
       (\<exists>M \<in> set (sy_imports T). M m = Some g) \<or>
       (sy_imports T \<noteq> [] \<and> g = ([], False) \<and>
         (members S m \<noteq> None \<or> (\<exists>k now. (m, k, now) \<in> sy_honoured T \<and> usable now k) \<or> (\<exists>M \<in> set (sy_imports T). M m \<noteq> None))))"
proof -
  have "admission_inv who (members S) T"
    using assms(1)
  proof (induction rule: rtranclp_induct)
    case base
    have "sy_jobs S i \<noteq> Reg_node q e t sh" for i q e t sh using assms(2) [rule_format, of i] by auto
    then show ?case by (simp add: admission_inv_def has_source_def)
  next
    case (step T U)
    from step.hyps(2) show ?case
    proof cases
      case step
      then show ?thesis using admission_inv_step [OF \<open>admission_inv who (members S) T\<close>] by blast
    next
      case (imported t r I)
      show ?thesis by (rule admission_inv_import [OF \<open>admission_inv who (members S) T\<close> imported(1)])
    qed
  qed
  then show ?thesis unfolding admission_inv_def has_source_def came_back_def admitted_def honoured_for_def by blast
qed

text \<open>
  The maps. A thread reads its own node and the list of nodes in two critical sections, so the
  copy of its node may be old; what the map depends on does not change.
\<close>

fun held :: "job \<Rightarrow> NodeState option" where
  "held (Map_nodes q self) = Some self"
| "held (Tick_nodes gen p self ps) = Some self"
| "held j = None"

fun polled :: "job \<Rightarrow> LiveMap list" where
  "polled (Tick_gen live) = live"
| "polled (Tick_poll gen ps) = ps"
| "polled (Tick_nodes gen p self ps) = ps"
| "polled j = []"

definition own_node :: "string \<Rightarrow> Store \<Rightarrow> NodeState \<Rightarrow> bool" where
  "own_node m s self \<longleftrightarrow> (\<exists>n. find_by_machine m s = Some n \<and> identity self = identity n)"

definition map_inv :: "inet6 \<Rightarrow> (nat \<Rightarrow> string) \<Rightarrow> system \<Rightarrow> bool" where
  "map_inv N who S \<longleftrightarrow>
     store_inv N (im_store (sy_impl S)) \<and>
     (\<forall>i. list_all (\<lambda>p. lm_machine p = who i) (polled (sy_jobs S i))) \<and>
     (\<forall>i self. held (sy_jobs S i) = Some self \<longrightarrow> own_node (who i) (im_store (sy_impl S)) self) \<and>
     (\<forall>i j b. (i, j) \<in> sy_sent S \<longrightarrow> JStr b \<in> map_machines j \<longrightarrow> may_see (members S) (who i) b)"

lemma may_see_mono: "(\<And>m g. M m = Some g \<Longrightarrow> M' m = Some g) \<Longrightarrow> may_see M a b \<Longrightarrow> may_see M' a b"
  by (fastforce simp: may_see_def split: option.splits)

lemma find_same_identities:
  assumes "map identity ns' = map identity ns" "find (\<lambda>n. nd_machine_key n = m) ns = Some n"
  shows "\<exists>n'. find (\<lambda>n. nd_machine_key n = m) ns' = Some n' \<and> identity n' = identity n"
  using assms
proof (induction ns arbitrary: ns')
  case (Cons x ns)
  then obtain y ms where y: "ns' = y # ms" "identity y = identity x" "map identity ms = map identity ns" by auto
  then show ?case using Cons identity_fields(2) [OF y(2)] by (auto split: if_splits)
qed simp

lemma own_node_keep:
  assumes "system_step E who S T" "own_node m (im_store (sy_impl S)) self"
  shows "own_node m (im_store (sy_impl T)) self"
proof -
  obtain n where n: "find_by_machine m (im_store (sy_impl S)) = Some n" "identity self = identity n"
    using assms(2) by (auto simp: own_node_def)
  have "\<exists>n'. find_by_machine m (im_store (sy_impl T)) = Some n' \<and> identity n' = identity n"
    using system_step_registry [OF assms(1)]
  proof (elim disjE exE conjE)
    assume "same_registry (im_store (sy_impl S)) (im_store (sy_impl T))"
    then show ?thesis using find_same_identities n(1) by (simp add: same_registry_def find_by_machine_def)
  qed (use registry.register_keeps_identity n(1) in blast)
  then show ?thesis using n(2) by (auto simp: own_node_def)
qed

lemma thread_step_polled:
  assumes "thread_step E K m j (I, w) = (j', out, I', w')" "list_all (\<lambda>p. lm_machine p = m) (polled j)"
  shows "list_all (\<lambda>p. lm_machine p = m) (polled j')"
proof (cases j)
  case (Tick_poll gen ps)
  then show ?thesis using assms by (cases ps) (auto split: if_splits option.splits sum.splits)
qed (use assms in \<open>auto split: prod.splits sum.splits option.splits if_splits\<close>)

lemma thread_step_held:
  assumes "thread_step E K m j (I, w) = (j', out, I', w')" "list_all (\<lambda>p. lm_machine p = m) (polled j)" "held j' = Some self"
  shows "own_node m (im_store I') self"
proof (cases j)
  case (Tick_poll gen ps)
  then show ?thesis using assms by (cases ps) (auto simp: own_node_def split: if_splits option.splits sum.splits)
qed (use assms in \<open>auto simp: own_node_def split: prod.splits sum.splits option.splits if_splits\<close>)

lemma thread_step_sent:
  assumes "thread_step E K m j (I, w) = (j', Some x, I', w')"
  shows "\<exists>self. held j = Some self \<and> I' = I \<and>
    x = build_full_map (ck_created K) (ck_now K) self (st_nodes (im_store I)) (cf_domain (im_cfg I))"
proof (cases j)
  case (Tick_poll gen ps)
  then show ?thesis using assms by (cases ps) auto
qed (use assms in \<open>auto simp: frame_of_def Let_def res_bind_Inr split: prod.splits sum.splits option.splits if_splits\<close>)

lemma system_step_inv:
  assumes "system_step E who S T" "store_inv (lib_inet6 E) (im_store (sy_impl S))" "below k (im_store (sy_impl S))" "k < 2 ^ 32"
  shows "store_inv (lib_inet6 E) (im_store (sy_impl T)) \<and> below (Suc k) (im_store (sy_impl T))"
  using system_step_registry [OF assms(1)]
  by (intro registry_change_inv [OF _ assms(2-4), of _ "lib_json E" "sy_world S" "sy_world T"]) blast

lemma system_step_sent:
  assumes "system_step E who S T" "(i, x) \<in> sy_sent T"
  shows "(i, x) \<in> sy_sent S \<or> (\<exists>(K :: clock) self. held (sy_jobs S i) = Some self \<and> sy_impl T = sy_impl S \<and>
    x = build_full_map (ck_created K) (ck_now K) self (st_nodes (im_store (sy_impl S))) (cf_domain (im_cfg (sy_impl S))))"
  using assms(1)
proof cases
  case (thread K i' j out I w)
  show ?thesis
  proof (cases "(i, x) \<in> sy_sent S")
    case False
    then have "i' = i" "out = Some x" using thread(1) assms(2) by auto
    with thread(2) have st: "thread_step E K (who i) (sy_jobs S i) (sy_impl S, sy_world S) = (j, Some x, I, w)" by simp
    have "sy_impl T = I" using thread(1) by simp
    with thread_step_sent [OF st] show ?thesis by metis
  qed simp
qed (use assms(2) in auto)

lemma map_inv_step:
  assumes "map_inv (lib_inet6 E) who S" "system_step E who S T"
    and "below k (im_store (sy_impl S))" "k < 2 ^ 32"
  shows "map_inv (lib_inet6 E) who T"
proof -
  have inv: "store_inv (lib_inet6 E) (im_store (sy_impl S))" using assms(1) by (simp add: map_inv_def)
  have polls: "list_all (\<lambda>p. lm_machine p = who i) (polled (sy_jobs S i))" for i using assms(1) by (simp add: map_inv_def)
  have own: "own_node (who i) (im_store (sy_impl S)) self" if "held (sy_jobs S i) = Some self" for i self
    using assms(1) that by (simp add: map_inv_def)
  have "list_all (\<lambda>p. lm_machine p = who i) (polled (sy_jobs T i))" for i
    using system_step_job [OF assms(2), of i] polls [of i] thread_step_polled
    by (elim disjE exE conjE) (auto elim: starts.elims)
  moreover have "own_node (who i) (im_store (sy_impl T)) self" if "held (sy_jobs T i) = Some self" for i self
    using system_step_job [OF assms(2), of i] that thread_step_held [OF _ polls] own_node_keep [OF assms(2) own]
    by (elim disjE exE conjE) (auto elim: starts.elims)
  moreover have "may_see (members T) (who i) b" if x: "(i, x) \<in> sy_sent T" and b: "JStr b \<in> map_machines x" for i x b
    using system_step_sent [OF assms(2) x]
  proof (elim disjE exE conjE)
    assume "(i, x) \<in> sy_sent S"
    then have "may_see (members S) (who i) b" using assms(1) b unfolding map_inv_def by blast
    then show ?thesis by (rule may_see_mono [rotated]) (rule members_keep [OF assms(2)])
  next
    fix K :: clock and self
    assume *: "held (sy_jobs S i) = Some self" "sy_impl T = sy_impl S"
      "x = build_full_map (ck_created K) (ck_now K) self (st_nodes (im_store (sy_impl S))) (cf_domain (im_cfg (sy_impl S)))"
    obtain n where "find_by_machine (who i) (im_store (sy_impl S)) = Some n" "identity self = identity n"
      using own [OF *(1)] by (auto simp: own_node_def)
    from full_map_exact [OF inv this] b * show ?thesis by simp
  qed
  ultimately show ?thesis using system_step_inv [OF assms(2) inv assms(3,4)] unfolding map_inv_def by blast
qed

lemma system_steps_map_inv:
  assumes "system_steps E who n S T" "map_inv (lib_inet6 E) who S" "below 2 (im_store (sy_impl S))" "n \<le> 2 ^ 32 - 2"
  shows "map_inv (lib_inet6 E) who T \<and> below (n + 2) (im_store (sy_impl T))"
  using assms
proof (induction rule: system_steps.induct)
  case (more n S T U)
  then have T: "map_inv (lib_inet6 E) who T" "below (n + 2) (im_store (sy_impl T))" "n + 2 < 2 ^ 32" by simp_all
  then have "store_inv (lib_inet6 E) (im_store (sy_impl T))" by (simp add: map_inv_def)
  then show ?case
    using map_inv_step [OF T(1) more.hyps(2) T(2,3)] system_step_inv [OF more.hyps(2) _ T(2,3)] by simp
qed (simp add: numeral_2_eq_2)

text \<open>
  C3: Isolation under concurrency. Start from an empty registry and let the threads interleave in any
  way, with each other, with the calls of the host other than an import and with other processes,
  for at most \<open>2\<^sup>32 - 2\<close> critical sections, so that the counters cannot wrap. No two nodes
  share a machine key, a node id or an IPv4 address, even when two connections of one machine
  register at the same time. Every map that was ever sent to a connection lists only machines
  that its own machine may see; and at the moment a thread reads the list of nodes, the map it
  builds from it, together with the copy of its own node that it took before, lists all of them.
\<close>

theorem interleaved_maps:
  assumes "system_steps E who n S T" "n \<le> 2 ^ 32 - 2" "\<forall>i. idle (sy_jobs S i)" "sy_sent S = {}"
    and "st_nodes (im_store (sy_impl S)) = []" "st_next_node_id (im_store (sy_impl S)) = 1" "st_next_ip_index (im_store (sy_impl S)) = 1"
  shows "distinct (map nd_machine_key (st_nodes (im_store (sy_impl T)))) \<and>
    distinct (map nd_id (st_nodes (im_store (sy_impl T)))) \<and> distinct (map nd_ipv4 (st_nodes (im_store (sy_impl T)))) \<and>
    (\<forall>i x b. (i, x) \<in> sy_sent T \<longrightarrow> JStr b \<in> map_machines x \<longrightarrow> may_see (members T) (who i) b) \<and>
    (\<forall>i self K j x I w. held (sy_jobs T i) = Some self \<longrightarrow>
       thread_step E K (who i) (sy_jobs T i) (sy_impl T, sy_world T) = (j, Some x, I, w) \<longrightarrow>
       (\<forall>b. JStr b \<in> map_machines x \<longleftrightarrow> may_see (members T) (who i) b))"
proof -
  have quiet: "polled (sy_jobs S i) = []" "held (sy_jobs S i) = None" for i
    using assms(3) [rule_format, of i] by (auto elim: idle.elims)
  have "map_inv (lib_inet6 E) who S" "below 2 (im_store (sy_impl S))"
    using assms(4-7) quiet by (simp_all add: map_inv_def store_inv_def below_def)
  then have inv: "map_inv (lib_inet6 E) who T" using system_steps_map_inv [OF assms(1)] assms(2) by blast
  have "JStr b \<in> map_machines x \<longleftrightarrow> may_see (members T) (who i) b"
    if h: "held (sy_jobs T i) = Some self" and st: "thread_step E K (who i) (sy_jobs T i) (sy_impl T, sy_world T) = (j, Some x, I, w)"
    for i self K j x I w b
  proof -
    have "x = build_full_map (ck_created K) (ck_now K) self (st_nodes (im_store (sy_impl T))) (cf_domain (im_cfg (sy_impl T)))"
      using thread_step_sent [OF st] h by auto
    moreover obtain n where "find_by_machine (who i) (im_store (sy_impl T)) = Some n" "identity self = identity n"
      using inv h unfolding map_inv_def own_node_def by blast
    moreover have "store_inv (lib_inet6 E) (im_store (sy_impl T))" using inv by (simp add: map_inv_def)
    ultimately show ?thesis using full_map_exact by blast
  qed
  then show ?thesis using inv by (simp add: map_inv_def store_inv_def)
qed

section \<open>A guard that an import invalidates\<close>

text \<open>
  C35: A machine that is found registered needs no key. The check and the registration are two
  critical sections: if the host imports a state without that machine in between, the machine is
  registered anew although no key was presented, in the group with the empty token.
\<close>

theorem import_race_admits_without_key:
  assumes "find_by_machine m (im_store I) \<noteq> None"
    and "thread_step E K m (Reg_check q) (I, w) = (j, None, I0, w0)"
    and "import_state E text I0 = (Inr (), I1)" "find_by_machine m (im_store I1) = None"
    and "thread_step E K' m j (I1, w0) = (Reg_bump, None, I2, w2)"
  shows "\<exists>n. find_by_machine m (im_store I2) = Some n \<and> nd_token n = [] \<and> \<not> nd_shared n \<and>
    st_keys (im_store I2) = st_keys (im_store I1)"
proof -
  have j: "j = Reg_node q (rr_ephemeral q) [] False" using assms(1,2) by simp
  obtain n where reg: "register_node (lib_json E) (lib_inet6 E) m (rr_node_key q) (rr_host q) (rr_ephemeral q) [] False (im_store I1) w0 =
      (Inr n, im_store I2, w2)"
    using assms(5) by (auto simp: j split: prod.splits sum.splits)
  have "st_keys (im_store I2) = st_keys (im_store I1)"
    using reg assms(4)
    by (auto simp: register_node_new bump_counters_def dest!: save_and_return_cases(1) split: sum.splits)
  then show ?thesis
    using registry.register_lookup [OF reg] registry.register_new [OF assms(4) reg] by auto
qed

section \<open>Concrete runs\<close>

lemma system_steps_trans: "system_steps E who k T U \<Longrightarrow> system_steps E who n S T \<Longrightarrow> system_steps E who (n + k) S U"
  by (induction rule: system_steps.induct) (auto intro: system_steps.more)

lemma run_job_steps:
  "run_job E K (who i) n (sy_jobs S i) (sy_impl S, sy_world S) = (j, I, w) \<Longrightarrow>
   \<exists>T. system_steps E who n S T \<and> sy_jobs T i = j \<and> sy_impl T = I \<and> sy_world T = w"
proof (induction n arbitrary: S)
  case 0
  then show ?case using system_steps.none by fastforce
next
  case (Suc n)
  obtain j1 out I1 w1 where st: "thread_step E K (who i) (sy_jobs S i) (sy_impl S, sy_world S) = (j1, out, I1, w1)"
    by (metis prod.exhaust)
  note step = system_step.thread [of E K who i S j1 out I1 w1, OF st]
  from Suc.IH [of "S\<lparr>sy_jobs := (sy_jobs S)(i := j1), sy_sent := sy_sent S \<union> Pair i ` set_option out,
         sy_honoured := sy_honoured S \<union> honours K (who i) (sy_jobs S i) j1 (im_store (sy_impl S)),
         sy_impl := I1, sy_world := w1\<rparr>"] Suc.prems st
  show ?case using system_steps_trans [OF _ system_steps.more [OF system_steps.none step]] by fastforce
qed

lemma handler_steps:
  assumes "idle (sy_jobs S i)" "starts (who i) j0" "run_job E K (who i) n j0 (sy_impl S, sy_world S) = (j, I, w)"
  shows "\<exists>T. system_steps E who (Suc n) S T \<and> sy_jobs T i = j \<and> sy_impl T = I \<and> sy_world T = w"
proof -
  let ?S = "S\<lparr>sy_jobs := (sy_jobs S)(i := j0)\<rparr>"
  have "system_steps E who (Suc 0) S ?S"
    by (rule system_steps.more [OF system_steps.none system_step.request [of S i who j0, OF assms(1,2)]])
  moreover obtain T where "system_steps E who n ?S T" "sy_jobs T i = j" "sy_impl T = I" "sy_world T = w"
    using run_job_steps [of E K who i n ?S j I w] assms(3) by auto
  ultimately show ?thesis using system_steps_trans by fastforce
qed

definition demo_system :: system where
  "demo_system = \<lparr>sy_jobs = (\<lambda>_. Answer Left), sy_sent = {}, sy_honoured = {}, sy_imports = [], sy_impl = demo_impl demo_store, sy_world = demo_world\<rparr>"

lemma demo_system_start:
  "\<forall>i. idle (sy_jobs demo_system i)" "sy_sent demo_system = {}" "st_nodes (im_store (sy_impl demo_system)) = []"
  "st_next_node_id (im_store (sy_impl demo_system)) = 1" "st_next_ip_index (im_store (sy_impl demo_system)) = 1"
  "members demo_system m = None"
  by (simp_all add: demo_system_def demo_store_def membership_of_def find_by_machine_def)

lemma register_answer_state: "register_answer J sid a (h, x) = (r, h', x') \<Longrightarrow> x' = x"
  by (auto simp: register_answer_def dest: json_reply_state split: answer.splits)

lemma demo_member:
  obtains T n s where "system_steps demo_libs (\<lambda>_. ''mkey:bb'') 7 demo_system T" "idle (sy_jobs T 0)"
    "sy_impl T = bump_map (demo_impl s)" "find_by_machine ''mkey:bb'' s = Some n" "nd_token n = ''alpha''"
proof -
  let ?q = "\<lparr>rr_node_key = ''nodekey:bb'', rr_host = [], rr_auth = ''wbkey-1'', rr_ephemeral = False\<rparr>"
  obtain h n s w where r: "on_register demo_libs demo_clock 1 ''mkey:bb'' demo_register_body (new_H2, demo_impl demo_store, demo_world, []) =
      (Inr (), h, bump_map (demo_impl s), w, [])" "find_by_machine ''mkey:bb'' s = Some n" "nd_token n = ''alpha''"
    using demo_on_register [of demo_store 1 new_H2 "[]"] demo_store_ready by auto
  obtain a I' w' where a: "run_job demo_libs demo_clock ''mkey:bb'' 6 (Reg_check ?q) (demo_impl demo_store, demo_world) = (Answer a, I', w')"
    "on_register demo_libs demo_clock 1 ''mkey:bb'' demo_register_body (new_H2, demo_impl demo_store, demo_world, []) =
      register_answer (lib_json demo_libs) 1 a (new_H2, I', w', [])"
    using register_threads [where q = ?q and E = demo_libs] demo_register_fields by (metis demo_libs_simps(1))
  have "I' = bump_map (demo_impl s)" using register_answer_state [OF a(2) [symmetric, unfolded r(1)]] by simp
  moreover obtain T where "system_steps demo_libs (\<lambda>_. ''mkey:bb'') (Suc 6) demo_system T" "sy_jobs T 0 = Answer a" "sy_impl T = I'"
    using handler_steps [of demo_system 0 "\<lambda>_. ''mkey:bb''" "Reg_check ?q" demo_libs demo_clock 6] a(1) by (auto simp: demo_system_def)
  ultimately show thesis using that [of T s n] r(2,3) by simp
qed

lemma system_steps_full: "system_steps E who n S T \<Longrightarrow> (full_step E who)\<^sup>*\<^sup>* S T \<and> sy_imports T = sy_imports S"
  by (induction rule: system_steps.induct) (auto intro: rtranclp.rtrancl_into_rtrancl full_step.step dest: imports_keep)

theorem interleaved_admission_witness:
  "\<exists>T g k now. (full_step demo_libs (\<lambda>_. ''mkey:bb''))\<^sup>*\<^sup>* demo_system T \<and> sy_imports T = [] \<and> members T ''mkey:bb'' = Some g \<and>
    (''mkey:bb'', k, now) \<in> sy_honoured T \<and> usable now k \<and> g = (pk_token k, pk_shared k)"
proof -
  obtain T n s where T: "system_steps demo_libs (\<lambda>_. ''mkey:bb'') 7 demo_system T"
    "sy_impl T = bump_map (demo_impl s)" "find_by_machine ''mkey:bb'' s = Some n" by (rule demo_member)
  then have m: "members T ''mkey:bb'' = Some (nd_token n, nd_shared n)" by (simp add: membership_of_def bump_map_def)
  have none: "sy_imports demo_system = []" by (simp add: demo_system_def)
  have full: "(full_step demo_libs (\<lambda>_. ''mkey:bb''))\<^sup>*\<^sup>* demo_system T" "sy_imports T = []"
    using system_steps_full [OF T(1)] none by simp_all
  have "members demo_system ''mkey:bb'' = None" by (rule demo_system_start(6))
  then obtain k now where "(''mkey:bb'', k, now) \<in> sy_honoured T" "usable now k" "(nd_token n, nd_shared n) = (pk_token k, pk_shared k)"
    using conjunct2 [OF interleaved_admission [OF full(1) demo_system_start(1) none], rule_format, OF m] full(2) by auto
  with full m show ?thesis by blast
qed

theorem interleaved_maps_witness:
  "\<exists>T self j x I w. system_steps demo_libs (\<lambda>_. ''mkey:bb'') 10 demo_system T \<and> held (sy_jobs T 0) = Some self \<and>
    thread_step demo_libs demo_clock ''mkey:bb'' (sy_jobs T 0) (sy_impl T, sy_world T) = (j, Some x, I, w) \<and>
    (\<forall>b. JStr b \<in> map_machines x \<longleftrightarrow> may_see (members T) ''mkey:bb'' b)"
proof -
  let ?q = "\<lparr>mr_version = 68, mr_stream = True, mr_omit_peers = False, mr_zstd = False, mr_node_key = [], mr_disco_key = [], mr_host = []\<rparr>"
  obtain T n s where T: "system_steps demo_libs (\<lambda>_. ''mkey:bb'') 7 demo_system T" "idle (sy_jobs T 0)"
    "sy_impl T = bump_map (demo_impl s)" "find_by_machine ''mkey:bb'' s = Some n" by (rule demo_member)
  let ?s = "set_online ''mkey:bb'' True s" and ?n = "n\<lparr>nd_online := True\<rparr>"
  have n: "find_by_machine ''mkey:bb'' ?s = Some ?n" using T(4) by (simp add: set_online_def find_by_machine_update)
  have run: "run_job demo_libs demo_clock ''mkey:bb'' (Suc (Suc 0)) (Map_online ?q) (sy_impl T, sy_world T) =
      (Map_nodes ?q ?n, (bump_map (demo_impl s))\<lparr>im_store := ?s\<rparr>, sy_world T)"
    using T(3) n by (simp add: bump_map_def)
  have "starts ''mkey:bb'' (Map_online ?q)" by (simp add: mr_readonly_def)
  then obtain U where U: "system_steps demo_libs (\<lambda>_. ''mkey:bb'') (Suc (Suc (Suc 0))) T U" "sy_jobs U 0 = Map_nodes ?q ?n"
    using handler_steps [of T 0 "\<lambda>_. ''mkey:bb''", OF T(2) _ run] by blast
  have S: "system_steps demo_libs (\<lambda>_. ''mkey:bb'') 10 demo_system U" using system_steps_trans [OF U(1) T(1)] by simp
  obtain f x where f: "frame_of demo_libs demo_clock ?n False (sy_impl U) = Inr (f, x)"
    by (simp add: frame_of_def encode_map_frame_def Let_def)
  have st: "thread_step demo_libs demo_clock ''mkey:bb'' (sy_jobs U 0) (sy_impl U, sy_world U) = (Map_enlist f, Some x, sy_impl U, sy_world U)"
    using U(2) f by simp
  have h: "held (sy_jobs U 0) = Some ?n" using U(2) by simp
  have "(10::nat) \<le> 2 ^ 32 - 2" by simp
  from interleaved_maps [OF S this demo_system_start(1-5)] h st
  have "\<forall>b. JStr b \<in> map_machines x \<longleftrightarrow> may_see (members U) ''mkey:bb'' b" by (elim conjE) metis
  with S h st show ?thesis by metis
qed

theorem import_race_admits_without_key_witness:
  "\<exists>j I0 w0 I1 I2 w2 n. thread_step demo_libs demo_clock ''mkey:aa''
      (Reg_check \<lparr>rr_node_key = ''nodekey:aa'', rr_host = [], rr_auth = [], rr_ephemeral = False\<rparr>) (demo_impl demo_store2, demo_world) = (j, None, I0, w0) \<and>
    import_state demo_libs (ref_text (obj [])) I0 = (Inr (), I1) \<and>
    thread_step demo_libs demo_clock ''mkey:aa'' j (I1, w0) = (Reg_bump, None, I2, w2) \<and>
    find_by_machine ''mkey:aa'' (im_store I2) = Some n \<and> nd_token n = []"
proof -
  let ?q = "\<lparr>rr_node_key = ''nodekey:aa'', rr_host = [], rr_auth = [], rr_ephemeral = False\<rparr>"
  let ?s = "demo_store2\<lparr>st_next_node_id := 1, st_next_ip_index := 1, st_keys := [], st_nodes := []\<rparr>"
  let ?I = "demo_impl demo_store2" and ?I1 = "(demo_impl demo_store2)\<lparr>im_store := ?s, im_bootstrap_key := []\<rparr>"
  have known: "find_by_machine ''mkey:aa'' (im_store ?I) \<noteq> None" using demo_store2_ready by simp
  then have 1: "thread_step demo_libs demo_clock ''mkey:aa'' (Reg_check ?q) (?I, demo_world) =
      (Reg_node ?q False [] False, None, ?I, demo_world)" by simp
  have "ref_text (obj []) \<noteq> []" using ref_snapshot_text_laws by (auto simp: snapshot_text_laws_def)
  then have 2: "import_state demo_libs (ref_text (obj [])) ?I = (Inr (), ?I1)"
    by (simp add: import_state_def load_json_def apply_snapshot_locked_def import_noise_def member_items_def json_value_obj Let_def)
  have 3: "find_by_machine ''mkey:aa'' (im_store ?I1) = None" by (simp add: find_by_machine_def)
  obtain p where p: "address_for hex_inet6 cgnat 1 = Inr p"
    using pool.addr_defined [of 1 cgnat hex_inet6] by (auto simp: cgnat_def)
  let ?n = "fresh_node ''mkey:aa'' ''nodekey:aa'' [] False [] False p ?s"
  let ?s2 = "(bump_counters ?s)\<lparr>st_nodes := [?n]\<rparr>"
  have "save_locked ref_json ?s2 demo_world = (Inr (), snd (save_locked ref_json ?s2 demo_world))"
    by (rule demo_save) (simp_all add: bump_counters_def demo_store2_def demo_store_def)
  then have "register_node ref_json hex_inet6 ''mkey:aa'' ''nodekey:aa'' [] False [] False ?s demo_world =
      (Inr ?n, ?s2, snd (save_locked ref_json ?s2 demo_world))"
    using 3 p demo_store2_ready(3) by (simp add: register_node_new save_and_return_Inr)
  then have 4: "thread_step demo_libs demo_clock ''mkey:aa'' (Reg_node ?q False [] False) (?I1, demo_world) =
      (Reg_bump, None, ?I1\<lparr>im_store := ?s2\<rparr>, snd (save_locked ref_json ?s2 demo_world))" by simp
  from import_race_admits_without_key [OF known 1 2 3 4] 1 2 4 show ?thesis by blast
qed

end
