(* ===== verification/Noise_Attacker.thy ===== *)
theory Noise_Attacker
  imports Noise
begin

text \<open>
  The record layer of \<^verbatim>\<open>src/src/noise.cpp\<close> against an attacker who controls the network: the
  octets that arrive are arbitrary. What the cipher promises is that nothing opens under a nonce
  but what the peer sealed under that nonce; what the code adds is the order, by counting the
  records it has accepted.
\<close>

text \<open>Whatever \<^verbatim>\<open>read_full\<close> returns, it has taken the next octets of the stream.\<close>

lemma read_full_split:
  "read_full need cs got = (r, cs') \<Longrightarrow> \<exists>x. concat cs = x @ concat cs' \<and> (\<forall>b. r = Some b \<longrightarrow> b = got @ x)"
proof (induction need cs got rule: read_full.induct)
  case (1 need cs got)
  obtain x cs1 where x: "recv need cs = (x, cs1)" by fastforce
  note cat = recv_concat [OF x]
  show ?case
  proof (cases "need = 0 \<or> x = []")
    case True
    then show ?thesis using "1.prems" x cat by (auto simp: read_full.simps [of need cs got] split: if_splits)
  next
    case False
    then have "read_full (need - length x) cs1 (got @ x) = (r, cs')"
      using "1.prems" x by (simp add: read_full.simps [of need cs got])
    from "1.IH" [OF _ x [symmetric] _ this] False obtain y where
      "concat cs1 = y @ concat cs'" "\<forall>b. r = Some b \<longrightarrow> b = (got @ x) @ y" by auto
    then show ?thesis using cat by (intro exI [of _ "x @ y"]) simp
  qed
qed

text \<open>A record that is accepted opened under the next nonce, and was in the stream.\<close>

lemma decrypt_one_split:
  assumes "decrypt_one L c cs = (ok, c', cs')"
  shows "\<exists>x. concat cs = x @ concat cs' \<and>
    (if ok then \<exists>ct pt. sublist ct x \<and> aead_open L (nc_rx_key c) (record_nonce (nc_rx_nonce c)) [] ct = Some pt \<and>
          c' = c\<lparr>nc_rx_nonce := nc_rx_nonce c + 1, nc_plaintext := nc_plaintext c @ pt\<rparr>
     else c' = c)"
proof -
  obtain r1 cs1 where 1: "read_full kHeaderLen cs [] = (r1, cs1)" by fastforce
  obtain x1 where x1: "concat cs = x1 @ concat cs1" using read_full_split [OF 1] by blast
  consider (early) "(ok, c', cs') = (False, c, cs1)"
    | (body) n r2 where "read_full n cs1 [] = (r2, cs')"
      "(ok, c') = (case r2 of None \<Rightarrow> (False, c) | Some ct \<Rightarrow>
         (case aead_open L (nc_rx_key c) (record_nonce (nc_rx_nonce c)) [] ct of None \<Rightarrow> (False, c)
          | Some pt \<Rightarrow> (True, c\<lparr>nc_rx_nonce := nc_rx_nonce c + 1, nc_plaintext := nc_plaintext c @ pt\<rparr>)))"
    using assms 1 by (force simp: decrypt_one_def Let_def split: option.splits if_splits prod.splits)
  then show ?thesis
  proof cases
    case early
    then show ?thesis using x1 by auto
  next
    case (body n r2)
    obtain x2 where x2: "concat cs1 = x2 @ concat cs'" "\<forall>b. r2 = Some b \<longrightarrow> b = x2"
      using read_full_split [OF body(1)] by auto
    have "sublist x2 (x1 @ x2)" by simp
    then show ?thesis
      using x1 x2 body(2) by (intro exI [of _ "x1 @ x2"]) (auto split: option.splits)
  qed
qed

text \<open>
  Ciphertext integrity: of all the octet strings an attacker can present within \<open>stream\<close>, only
  those open that the peer made, and only under the nonce the peer made them with. The peer
  sealed the pieces \<open>ps\<close> under the nonces from \<open>v\<^sub>0\<close> on.
\<close>

definition no_forgery :: "openssl \<Rightarrow> bytes \<Rightarrow> u64 \<Rightarrow> bytes list \<Rightarrow> bytes \<Rightarrow> bool" where
  "no_forgery L k v\<^sub>0 ps stream \<longleftrightarrow>
     (\<forall>v ct pt. sublist ct stream \<longrightarrow> aead_open L k (record_nonce v) [] ct = Some pt \<longrightarrow>
        (\<exists>i < length ps. v = v\<^sub>0 + word_of_nat i \<and> aead_seal L k (record_nonce v) [] (ps ! i) = Inr ct))"

text \<open>A receiver that has delivered \<open>got\<close> has accepted the first records, in order and once each.\<close>

definition in_order :: "bytes \<Rightarrow> u64 \<Rightarrow> bytes list \<Rightarrow> bytes \<Rightarrow> NoiseConn \<Rightarrow> bytes list \<Rightarrow> bytes \<Rightarrow> bool" where
  "in_order k v\<^sub>0 ps stream c cs got \<longleftrightarrow>
     nc_rx_key c = k \<and> suffix (concat cs) stream \<and>
     (\<exists>n \<le> length ps. nc_rx_nonce c = v\<^sub>0 + word_of_nat n \<and> got @ nc_plaintext c = concat (take n ps))"

lemma in_order_suffix: "in_order k v\<^sub>0 ps stream c cs got \<Longrightarrow> concat cs = x @ concat cs' \<Longrightarrow> in_order k v\<^sub>0 ps stream c cs' got"
  by (auto simp: in_order_def suffix_def)

lemma decrypt_one_in_order:
  assumes laws: "openssl_laws L" "length k = 32" and ps: "length ps < 2 ^ 64" "no_forgery L k v\<^sub>0 ps stream"
    and "in_order k v\<^sub>0 ps stream c cs got" "decrypt_one L c cs = (ok, c', cs')"
  shows "in_order k v\<^sub>0 ps stream c' cs' got"
proof -
  obtain x where x: "concat cs = x @ concat cs'"
    and split: "if ok then \<exists>ct pt. sublist ct x \<and> aead_open L (nc_rx_key c) (record_nonce (nc_rx_nonce c)) [] ct = Some pt \<and>
          c' = c\<lparr>nc_rx_nonce := nc_rx_nonce c + 1, nc_plaintext := nc_plaintext c @ pt\<rparr> else c' = c"
    using decrypt_one_split [OF assms(6)] by blast
  show ?thesis
  proof (cases ok)
    case True
    obtain n where n: "nc_rx_key c = k" "suffix (concat cs) stream" "n \<le> length ps"
      "nc_rx_nonce c = v\<^sub>0 + word_of_nat n" "got @ nc_plaintext c = concat (take n ps)"
      using assms(5) by (auto simp: in_order_def)
    obtain ct pt where ct: "sublist ct x" "aead_open L k (record_nonce (v\<^sub>0 + word_of_nat n)) [] ct = Some pt"
      and c': "c' = c\<lparr>nc_rx_nonce := nc_rx_nonce c + 1, nc_plaintext := nc_plaintext c @ pt\<rparr>"
      using split True n(1,4) by auto
    obtain a b d where "x = a @ ct @ b" "stream = d @ concat cs" using ct(1) n(2) by (auto simp: sublist_def suffix_def)
    then have "stream = (d @ a) @ ct @ (b @ concat cs')" using x by simp
    then have "sublist ct stream" unfolding sublist_def by blast
    then obtain i where i: "i < length ps" "v\<^sub>0 + word_of_nat n = v\<^sub>0 + word_of_nat i"
      "aead_seal L k (record_nonce (v\<^sub>0 + word_of_nat n)) [] (ps ! i) = Inr ct"
      using ps(2) ct(2) unfolding no_forgery_def by blast
    have "(word_of_nat n :: u64) = word_of_nat i" using i(2) by simp
    moreover have "unat (word_of_nat n :: u64) = n" "unat (word_of_nat i :: u64) = i"
      using n(3) i(1) ps(1) by (simp_all add: unat_of_nat_below)
    ultimately have "n = i" by metis
    moreover have "pt = ps ! i"
      using aead_seal_open [OF laws, of "record_nonce (v\<^sub>0 + word_of_nat n)" "[]" "ps ! i"] i(3) ct(2) by auto
    ultimately have "n < length ps" "pt = ps ! n" using i(1) by simp_all
    then show ?thesis
      using in_order_suffix [OF assms(5) x] n c'
      by (auto simp: in_order_def take_Suc_conv_app_nth add.assoc intro!: exI [of _ "Suc n"])
  qed (use in_order_suffix [OF assms(5) x] split in simp)
qed

lemma noise_fill_in_order:
  assumes "openssl_laws L" "length k = 32" "length ps < 2 ^ 64" "no_forgery L k v\<^sub>0 ps stream"
    and "in_order k v\<^sub>0 ps stream c cs got" "noise_fill L c cs = (ok, c', cs')"
  shows "in_order k v\<^sub>0 ps stream c' cs' got"
  using assms(5,6)
proof (induction "length (concat cs)" arbitrary: c cs rule: less_induct)
  case less
  show ?case
  proof (cases "nc_plaintext c = []")
    case True
    obtain b c1 cs1 where d: "decrypt_one L c cs = (b, c1, cs1)" by (metis prod_cases3)
    note ord = decrypt_one_in_order [OF assms(1-4) less.prems(1) d]
    show ?thesis
    proof (cases b)
      case b: True
      then have "noise_fill L c1 cs1 = (ok, c', cs')" using less.prems(2) True d by (simp add: noise_fill.simps [of L c])
      then show ?thesis using less.hyps [OF _ ord] decrypt_one_consumes [of L c cs c1 cs1] d b by simp
    qed (use less.prems(2) True d ord in \<open>simp add: noise_fill.simps [of L c]\<close>)
  qed (use less.prems in \<open>simp add: noise_fill.simps\<close>)
qed

lemma noise_read_in_order:
  assumes "openssl_laws L" "length k = 32" "length ps < 2 ^ 64" "no_forgery L k v\<^sub>0 ps stream"
    and "in_order k v\<^sub>0 ps stream c cs got" "noise_read L n c cs = (d, c', cs')"
  shows "in_order k v\<^sub>0 ps stream c' cs' (got @ d)"
proof (cases "n \<le> 0")
  case False
  obtain ok c1 cs1 where f: "noise_fill L c cs = (ok, c1, cs1)" by (metis prod_cases3)
  with noise_fill_in_order [OF assms(1-5) f] assms(6) False show ?thesis
    by (cases ok) (auto simp: noise_read_def Let_def in_order_def)
qed (use assms(5,6) in \<open>simp add: noise_read_def\<close>)

lemma noise_reads_in_order:
  assumes "openssl_laws L" "length k = 32" "length ps < 2 ^ 64" "no_forgery L k v\<^sub>0 ps stream"
    and "in_order k v\<^sub>0 ps stream c cs got" "noise_reads L ns c cs = (d, c', cs')"
  shows "in_order k v\<^sub>0 ps stream c' cs' (got @ d)"
  using assms(5,6)
proof (induction ns arbitrary: c cs got d)
  case (Cons n ns)
  obtain d1 c1 cs1 where 1: "noise_read L n c cs = (d1, c1, cs1)" by (metis prod_cases3)
  obtain d2 c2 cs2 where 2: "noise_reads L ns c1 cs1 = (d2, c2, cs2)" by (metis prod_cases3)
  have res: "d = d1 @ d2" "c' = c2" "cs' = cs2" using Cons.prems(2) 1 2 by auto
  from Cons.IH [OF noise_read_in_order [OF assms(1-4) Cons.prems(1) 1]] 2 res show ?case by simp
qed auto

text \<open>
  C9: The record layer resists an attacker on the network. Whatever octets arrive, forged, replayed,
  reordered, dropped or cut, and however often the reader calls, the data it is given is a prefix
  of what the peer sent: the pieces in their order, none twice and none skipped. The cipher is
  assumed to keep its integrity promise, and fewer than \<open>2\<^sup>64\<close> records are sent.
\<close>

theorem attacker_cannot_alter_stream:
  assumes "openssl_laws L" "length (nc_rx_key c) = 32" "nc_plaintext c = []" "length ps < 2 ^ 64"
    and "no_forgery L (nc_rx_key c) (nc_rx_nonce c) ps (concat cs)"
    and "noise_reads L ns c cs = (d, c', cs')"
  shows "prefix d (concat ps) \<and> (\<exists>n \<le> length ps. nc_rx_nonce c' = nc_rx_nonce c + word_of_nat n \<and> d @ nc_plaintext c' = concat (take n ps))"
proof -
  have "in_order (nc_rx_key c) (nc_rx_nonce c) ps (concat cs) c cs []" 
    using assms(3) by (auto simp: in_order_def intro!: exI [of _ 0])
  from noise_reads_in_order [OF assms(1,2,4,5) this assms(6)]
  obtain n where n: "n \<le> length ps" "nc_rx_nonce c' = nc_rx_nonce c + word_of_nat n" "d @ nc_plaintext c' = concat (take n ps)"
    by (auto simp: in_order_def)
  have "concat ps = concat (take n ps) @ concat (drop n ps)" by (simp flip: concat_append)
  then have "prefix d (concat ps)" using n(3) by (metis append.assoc prefix_def)
  with n show ?thesis by blast
qed

text \<open>
  A concrete case: a cipher whose tag is the nonce and the length, and an attacker who sends the
  one record of the peer twice. The second copy is not accepted.
\<close>

definition nonce_openssl :: openssl where
  "nonce_openssl = ref_openssl
     \<lparr>chacha_encrypt := (\<lambda>k n ad pt. Some (pt, n @ [7, 7, 7, word_of_nat (length pt)])),
      chacha_decrypt := (\<lambda>k n ad ct tag. if tag = n @ [7, 7, 7, word_of_nat (length ct)] then Some ct else None)\<rparr>"

lemma nonce_openssl_laws: "openssl_laws nonce_openssl"
  using ref_openssl_laws by (auto simp: openssl_laws_def nonce_openssl_def)

definition demo_sealed :: bytes where
  "demo_sealed = [5] @ replicate 12 0 @ [7, 7, 7, 1]"

definition demo_replay :: bytes where
  "demo_replay = [4, 0, 17] @ demo_sealed @ [4, 0, 17] @ demo_sealed"

lemma demo_tags: "list_all (\<lambda>i. demo_replay ! i = 7 \<and> demo_replay ! (i + 1) = 7 \<and> demo_replay ! (i + 2) = 7 \<longrightarrow> i = 16 \<or> i = 36) [0..<37]"
  by code_simp

lemma demo_sublist:
  assumes "sublist ct demo_replay" "16 \<le> length ct" "drop (length ct - 4) ct = [7, 7, 7, word_of_nat (length ct - 16)]"
  shows "ct = demo_sealed"
proof -
  obtain xs ys where R: "demo_replay = xs @ ct @ ys" using assms(1) by (auto simp: sublist_def)
  have "length demo_replay = 40" by (simp add: demo_replay_def demo_sealed_def)
  then have len: "length xs + length ct + length ys = 40" unfolding R by simp
  define b where "b = take (length ct - 4) ct"
  have ct: "ct = b @ [7, 7, 7, word_of_nat (length ct - 16)]" unfolding b_def assms(3) [symmetric] by simp
  have lb: "length b = length ct - 4" by (simp add: b_def)
  let ?k = "length xs + length b"
  have R': "demo_replay = (xs @ b) @ [7, 7, 7, word_of_nat (length ct - 16)] @ ys"
    unfolding R by (subst ct) simp
  have "demo_replay ! ?k = 7" "demo_replay ! (?k + 1) = 7" "demo_replay ! (?k + 2) = 7" and w: "demo_replay ! (?k + 3) = word_of_nat (length ct - 16)"
    unfolding R' by (simp_all add: nth_append)
  moreover have "?k < 37" using len lb assms(2) by simp
  ultimately have k: "?k = 16 \<or> ?k = 36" using demo_tags by (simp add: list_all_iff)
  moreover have "demo_replay ! 19 = 1" "demo_replay ! 39 = 1" by code_simp+
  ultimately have "(word_of_nat (length ct - 16) :: u8) = 1" using w by auto
  moreover have "unat (word_of_nat (length ct - 16) :: u8) = length ct - 16" using len by (intro unat_of_nat_below) simp
  ultimately have "length ct = 17" using assms(2) by simp
  moreover from this have "length xs = 3 \<or> length xs = 23" using k lb by simp
  moreover have "ct = take (length ct) (drop (length xs) demo_replay)" unfolding R by simp
  moreover have "take 17 (drop 3 demo_replay) = demo_sealed" "take 17 (drop 23 demo_replay) = demo_sealed" by code_simp+
  ultimately show ?thesis by auto
qed

lemma demo_no_forgery: "no_forgery nonce_openssl (replicate 32 1) 0 [[5]] demo_replay"
  unfolding no_forgery_def
proof (intro allI impI)
  fix v ct pt
  assume sub: "sublist ct demo_replay" and "aead_open nonce_openssl (replicate 32 1) (record_nonce v) [] ct = Some pt"
  then have tag: "16 \<le> length ct" "drop (length ct - 16) ct = record_nonce v @ [7, 7, 7, word_of_nat (length ct - 16)]"
    by (auto simp: aead_open_def nonce_openssl_def Let_def min_def split: if_splits)
  then have "drop 12 (drop (length ct - 16) ct) = [7, 7, 7, word_of_nat (length ct - 16)]" by simp
  then have ct: "ct = demo_sealed" using demo_sublist [OF sub tag(1)] tag(1) by simp
  have zero: "record_nonce 0 = replicate 12 0" by code_simp
  have "record_nonce v = record_nonce 0" using tag(2) by (simp add: ct zero) (simp add: demo_sealed_def)
  then have "v = 0" by (simp add: record_nonce_inject)
  then show "\<exists>i<length [[5]]. v = 0 + word_of_nat i \<and> aead_seal nonce_openssl (replicate 32 1) (record_nonce v) [] ([[5]] ! i) = Inr ct"
    using ct by (simp add: aead_seal_def nonce_openssl_def ref_openssl_def demo_sealed_def zero)
qed

theorem attacker_cannot_alter_stream_witness:
  "\<exists>d c' cs'. noise_reads nonce_openssl [9, 9] (new_NoiseConn 4 (replicate 32 2) (replicate 32 1)) [demo_replay] = (d, c', cs') \<and>
    d = [5] \<and> prefix d (concat [[5]])"
proof -
  let ?c = "new_NoiseConn 4 (replicate 32 2) (replicate 32 1)"
  obtain d c' cs' where r: "noise_reads nonce_openssl [9, 9] ?c [demo_replay] = (d, c', cs')" by (metis prod_cases3)
  have "fst (noise_reads nonce_openssl [9, 9] ?c [demo_replay]) = [5]" by code_simp
  then have d: "d = [5]" using r by simp
  have "length (nc_rx_key ?c) = 32" "nc_plaintext ?c = []" "length [[5 :: u8]] < 2 ^ 64"
    "no_forgery nonce_openssl (nc_rx_key ?c) (nc_rx_nonce ?c) [[5]] (concat [demo_replay])"
    using demo_no_forgery by (simp_all add: new_NoiseConn_def)
  from attacker_cannot_alter_stream [OF nonce_openssl_laws this r] r d show ?thesis by blast
qed

end
