(* ===== verification/Spec2Isabelle.thy ===== *)
theory Spec2Isabelle
  imports Cli Threads Noise_Attacker
begin

text \<open>
  A verification development for wirebone, an embeddable coordinator for Tailscale clients.
  Clients connect over HTTP/1.1, upgrade to a Noise-encrypted channel and speak HTTP/2 inside it;
  they register with a preauth key, and poll for a network map that lists the peers of their mesh
  group. A UDP resolver answers for the names of the nodes, the registry is kept in a JSON file,
  and a C interface and a command line tool embed and drive the coordinator.

  \<^bold>\<open>Parts, sources and theories.\<close> Each theory models the file of the same topic and keeps its names.

  \<^item> \<^verbatim>\<open>Prelude\<close>: words, octets and strings, C++ results (\<open>'a res\<close>: \<open>Inl\<close> an exception), loops that
    push to a vector, in-place updates of the first matching element, decimal text, big-endian
    fields (\<^verbatim>\<open>put_be16\<close> of \<^verbatim>\<open>noise.cpp\<close>, \<^verbatim>\<open>put32\<close> of \<^verbatim>\<open>dns.cpp\<close>), \<^verbatim>\<open>std::stoi\<close>.
  \<^item> \<^verbatim>\<open>Crypto\<close> (\<^verbatim>\<open>src/src/crypto.cpp\<close>): HMAC and HKDF over BLAKE2s, X25519 keys, AEAD wrappers, hex and
    base64, each with the checks and exceptions of the code around its OpenSSL calls.
  \<^item> \<^verbatim>\<open>Keys\<close> (\<^verbatim>\<open>keys.cpp\<close>): text form of machine, node and disco keys.
  \<^item> \<^verbatim>\<open>Ip_Alloc\<close> (\<^verbatim>\<open>ip_alloc.cpp\<close>): CIDR parsing and the address pool, on 32-bit words.
  \<^item> \<^verbatim>\<open>Json\<close>: the values the code builds and the accessors it uses of nlohmann/json.
  \<^item> \<^verbatim>\<open>State\<close>, \<^verbatim>\<open>State_Correct\<close> (\<^verbatim>\<open>state.cpp\<close>): the store as a record; the files, what may be read,
    opened and renamed, the room left on the device and the calls of the persist hook with the
    exceptions it throws are an explicit \<open>world\<close>. A method returns a result, the new store and the new world, so a failed save after a
    change is visible; a save is a sequence of file operations, so a crash can be placed in it.
  \<^item> \<^verbatim>\<open>Calendar\<close> (\<^verbatim>\<open>netmap.cpp\<close>): time stamps, with \<^verbatim>\<open>gmtime_r\<close> and \<^verbatim>\<open>strftime\<close> of the C library.
  \<^item> \<^verbatim>\<open>Netmap\<close> (\<^verbatim>\<open>netmap.cpp\<close>): visibility, map and register responses, framing.
  \<^item> \<^verbatim>\<open>Socket\<close>: blocking sockets as lists of segments to be received and of counts that successive
    \<^verbatim>\<open>send\<close> calls accept; the loops \<^verbatim>\<open>read_full\<close>, \<^verbatim>\<open>write_full\<close> and \<^verbatim>\<open>write_all\<close>.
  \<^item> \<^verbatim>\<open>Noise\<close>, \<^verbatim>\<open>Noise_Attacker\<close> (\<^verbatim>\<open>noise.cpp\<close>): the IK handshake of both sides and the record layer,
    between honest sides and against an attacker on the network.
  \<^item> \<^verbatim>\<open>Http1\<close> (\<^verbatim>\<open>http1.cpp\<close>): reading and parsing of requests, responses.
  \<^item> \<^verbatim>\<open>Http2\<close> (\<^verbatim>\<open>http2_session.cpp\<close>): streams, the nghttp2 callbacks, response queues, the serving loop.
  \<^item> \<^verbatim>\<open>Dns\<close> (\<^verbatim>\<open>dns.cpp\<close>): name parsing with compression pointers, answers, the resolver's life cycle.
  \<^item> \<^verbatim>\<open>Coordinator\<close>, \<^verbatim>\<open>Coordinator_Correct\<close> (\<^verbatim>\<open>coordinator.cpp\<close>, \<^verbatim>\<open>coordinator.hpp\<close>): the object that owns the
    store, the register and map handlers, the fan-out to long polls.
  \<^item> \<^verbatim>\<open>Server\<close> (\<^verbatim>\<open>coordinator.cpp\<close>): client threads, routes, the upgrade, sessions, listeners, start, stop.
  \<^item> \<^verbatim>\<open>Api\<close> (\<^verbatim>\<open>c_api.cpp\<close>, \<^verbatim>\<open>wirebone.h\<close>): the C interface over optional handles and strings.
  \<^item> \<^verbatim>\<open>Cli\<close> (\<^verbatim>\<open>main.cpp\<close>): options and the commands serve, preauth create and nodes list.
  \<^item> \<^verbatim>\<open>Service\<close>: the running coordinator as a step relation over handler calls, fan-out,
    disconnections, host calls (imports of a state included) and changes by other processes in any
    order, and its specification, the mesh membership.
  \<^item> \<^verbatim>\<open>Threads\<close>: the same at the granularity of critical sections. \<^const>\<open>thread_step\<close> runs one of
    the sections of a handler, \<^const>\<open>system_step\<close> interleaves those of any number of connections
    with the host calls other than imports, \<^const>\<open>full_step\<close> adds the imports.

  \<^bold>\<open>How the parts interact.\<close> A client thread (\<^const>\<open>client_thread\<close>) reads one request, serves a plain
  route or upgrades; the handshake fixes the machine key under which \<^const>\<open>h2_dispatch\<close> hands
  the requests of the session to \<^const>\<open>on_register\<close> and \<^const>\<open>on_map\<close>. Both work on the shared store;
  every change raises the map generation, which \<^const>\<open>on_tick\<close> compares with what each long poll has seen
  to push new maps. What other connections do meanwhile enters a session round by round
  (\<open>sr_others\<close>), between its requests and its tick, at the granularity of handler calls in
  \<^const>\<open>service_step\<close> and at that of critical sections in \<^const>\<open>full_step\<close>; an uninterrupted row of sections is proved to be the handler.
  Single races are stated by splitting a call at its lock (\<open>reload_read\<close> and \<open>reload_install\<close>,
  \<open>on_map_answer\<close> and \<open>on_map_enlist\<close>).

  \<^bold>\<open>What the lemmas show.\<close>
  \<^item> Isolation: a map depends only on the nodes visible to the caller (\<^verbatim>\<open>Netmap\<close>), also through a whole
    map request (\<^verbatim>\<open>Coordinator_Correct\<close>), in every state that is reached without an import of an
    unsound registry (\<^verbatim>\<open>Service\<close>) and, without imports, under every interleaving of critical
    sections (\<^verbatim>\<open>Threads\<close>).
  \<^item> Admission: keys are honoured only while valid, one-shot keys once; machines join only with a
    key or by an import and keep their group, ids and addresses, also under every interleaving; the
    one gap, an import between two sections of a registration, is part of the statement
    (\<^verbatim>\<open>State_Correct\<close>, \<^verbatim>\<open>Coordinator_Correct\<close>, \<^verbatim>\<open>Service\<close>, \<^verbatim>\<open>Threads\<close>).
  \<^item> Authentication: the handshakes agree, an honest upgrade leads to a session under the true
    machine key and the agreed record keys, whose requests the handlers get under that key, and nobody else changes the coordinator (\<^verbatim>\<open>Noise\<close>, \<^verbatim>\<open>Server\<close>); records cannot be
    replayed, reordered or left out (\<^verbatim>\<open>Noise_Attacker\<close>).
  \<^item> Transport: requests, records, replies and long polls arrive in order, completely and
    independently of segmentation; a new machine reaches the maps of its peers with the next
    tick (below); nonces do not repeat; reading a request ends (\<^verbatim>\<open>Socket\<close>, \<^verbatim>\<open>Noise\<close>,
    \<^verbatim>\<open>Http1\<close>, \<^verbatim>\<open>Http2\<close>).
  \<^item> Persistence: saves are atomic at every crash point, a registration survives a restart (below),
    exports can be imported, a key made by the command line tool works in a running coordinator,
    callbacks see the snapshot (\<^verbatim>\<open>State_Correct\<close>, \<^verbatim>\<open>Api\<close>, \<^verbatim>\<open>Cli\<close>).
  \<^item> Time: the stamps in maps read back as the second they were made (\<^verbatim>\<open>Calendar\<close>).
  \<^item> Addresses and names: the pool stays in its IPv4 network, without duplicates, and gives up when
    it is exhausted; the resolver answers with the registered addresses, whichever type is asked
    for and however the name is written (\<^verbatim>\<open>Ip_Alloc\<close>, \<^verbatim>\<open>Dns\<close>).
  \<^item> Faults: interleavings and inputs at which the code misbehaves are theorems too: a stale reload
    that honours a one-shot key twice, a long poll that misses an update, an import that lets a
    machine in without a key, a full device on which a save loses the state, an
    exception that closes a descriptor twice and leaves its node online, a start that sticks, expiry times past 2038, group names that cannot be printed, a listing
    command that creates a key.

  \<^bold>\<open>Interfaces\<close> are locales, interpreted on the model: a text codec (hex), an address pool, the node
  registry, the output queue of a stream, the owner of an HTTP/2 session (whose handlers leave the
  requests under assembly alone), and a simulation between a program and its
  specification.

  \<^bold>\<open>Parameters.\<close> Code outside the repository is a parameter: OpenSSL (\<open>openssl\<close>, with \<open>openssl_laws\<close>:
  digest sizes, Diffie-Hellman commutes, opening what was sealed, and \<open>no_forgery\<close>: nothing else
  opens), nlohmann/json (\<open>nlohmann\<close>, with
  \<open>nl_laws\<close>, \<open>snapshot_text_laws\<close>, \<open>dump_has_no_nul\<close>), \<^verbatim>\<open>inet_pton\<close> and \<^verbatim>\<open>inet_ntop\<close> for IPv6
  (\<open>inet6_laws\<close>), zstd, and nghttp2, whose callbacks and return values are inputs of the serving
  loop. Random octets, clocks, allocation results and what the operating system answers are
  arguments. Each property with such a hypothesis has a witness at a concrete instance.

  \<^bold>\<open>Bounds.\<close> No fuel is used: loops are structural or terminate by a measure (octets left to
  receive, to send or to expand; the sixteen hops of the name parser are the code's own). Counters
  are words of their width; the uniqueness results exclude wrap-around by bounding the number of
  calls, or of critical sections, together with where the counters start, by \<open>2\<^sup>32\<close>. The sum of
  the clock and an expiration that leaves 64 bits is an outcome of its own, \<open>Undefined_behaviour\<close>.

  \<^bold>\<open>Not modelled.\<close> Log output; the plain accessors and the forwarding methods of the public classes;
  the extra descriptor of \<^verbatim>\<open>H2Server::run\<close>, which the program never passes; the memory of the C heap
  beyond success and failure of allocation, so that the use of a destroyed coordinator by client
  threads that are still running is not expressed; data races on unlocked members; the signal that
  ends the process on a send to a closed peer on Linux; caches between the file operations of a save
  and the medium (a crash keeps a prefix of the operations, in order); tests, build
  files and the Go interoperability tools.
\<close>

section \<open>From a registration to the maps of the others\<close>

text \<open>
  C11: A machine that joins becomes known to its peers. When a registration adds a machine, the
  next completed tick of every connection appends one frame to each of its long polls that had
  seen the map until then, and the map in the frame of a machine that may see the new one
  lists it.
\<close>

theorem registration_reaches_peers:
  assumes "on_register E K sid b body (hb, I, w, liveb) = (Inr (), hb', I1, w1, liveb')"
    and "find_by_machine b (im_store I) = None" "find_by_machine b (im_store I1) = Some n"
    and "on_tick E K' (h, I1, w1, live) = (Inr (), h', I2, w2, live')" "distinct (map lm_stream_id live)"
    and "m \<in> set live" "lm_last_gen m = im_map_gen I" "h2_streams h (lm_stream_id m) = Some st"
    and "find_by_machine (lm_machine m) (im_store I) = Some self" "node_visible_to self n" "nd_id n \<noteq> nd_id self"
  shows "\<exists>j f. JStr b \<in> map_machines j \<and> encode_map_frame (lib_json E) (lib_zstd E) j (lm_zstd m) = Inr f \<and>
    h2_streams h' (lm_stream_id m) = Some (st\<lparr>s_out := s_out st @ f\<rparr>)"
proof -
  have t: "tick_all E K' (im_map_gen I1) I1 live h = (Inr (), live', h')"
    using assms(4) by (auto simp: on_tick_def split: prod.splits)
  have "lm_machine m \<noteq> b" using assms(2,9) by auto
  then have self: "find_by_machine (lm_machine m) (im_store I1) = Some self"
    using on_register_lookup [OF assms(1,9)] by auto
  have "im_map_gen I1 \<noteq> lm_last_gen m" using on_register_bumps [OF assms(1,2)] assms(3,7) by simp
  then obtain f where f: "map_frame_for E K' self (lm_zstd m) I1 = Inr f" "h2_streams h' (lm_stream_id m) = Some (stream_push f st)"
    using tick_all_effect [OF t assms(5)] assms(6,8) self by blast
  let ?j = "build_full_map (ck_created K') (ck_now K') self (st_nodes (im_store I1)) (cf_domain (im_cfg I1))"
  have "n \<in> set (st_nodes (im_store I1)) \<and> nd_machine_key n = b"
    using assms(3) find_Some_in by (fastforce simp: find_by_machine_def)
  then have "JStr b \<in> map_machines ?j" using assms(10,11) by (auto simp: map_machines_full)
  then show ?thesis using f by (auto simp: map_frame_for_def stream_push_def)
qed

theorem registration_reaches_peers_witness:
  "\<exists>hb' I1 w1 h' live' j f. on_register demo_libs demo_clock 1 ''mkey:bb'' demo_register_body (demo_h2, demo_impl demo_store2, demo_world, []) =
      (Inr (), hb', I1, w1, []) \<and>
    on_tick demo_libs demo_clock (demo_h2, I1, w1, [demo_live\<lparr>lm_last_gen := 1\<rparr>]) = (Inr (), h', I1, w1, live') \<and>
    JStr ''mkey:bb'' \<in> map_machines j \<and> encode_map_frame ref_json Some j False = Inr f \<and>
    h2_streams h' 1 = Some ((new_Stream 1)\<lparr>s_out := s_out (new_Stream 1) @ f\<rparr>)"
proof -
  let ?m = "demo_live\<lparr>lm_last_gen := 1\<rparr>"
  obtain n s2 w2 hb' where reg: "on_register demo_libs demo_clock 1 ''mkey:bb'' demo_register_body (demo_h2, demo_impl demo_store2, demo_world, []) =
      (Inr (), hb', bump_map (demo_impl s2), w2, [])" and n: "find_by_machine ''mkey:bb'' s2 = Some n" "nd_id n = 2" "nd_token n = ''alpha''"
    using demo_on_register [of demo_store2 1 demo_h2 "[]"] demo_store2_ready by (auto simp: demo_store2_def)
  let ?I1 = "bump_map (demo_impl s2)"
  have m: "?m \<in> set [?m]" "lm_last_gen ?m = im_map_gen (demo_impl demo_store2)" "h2_streams demo_h2 (lm_stream_id ?m) = Some (new_Stream 1)"
    "find_by_machine (lm_machine ?m) (im_store (demo_impl demo_store2)) = Some demo_node" "\<not> lm_zstd ?m" "lm_stream_id ?m = 1"
    using demo_store2_ready demo_h2_stream by (simp_all add: demo_live_def)
  have v: "node_visible_to demo_node n" "nd_id n \<noteq> nd_id demo_node" using n by (simp_all add: node_visible_iff demo_node_simps)
  have g: "find_by_machine ''mkey:bb'' (im_store (demo_impl demo_store2)) = None" "find_by_machine ''mkey:bb'' (im_store ?I1) = Some n"
    "im_map_gen ?I1 \<noteq> im_map_gen (demo_impl demo_store2)" using demo_store2_ready n(1) by (simp_all add: bump_map_def)
  obtain self where self: "find_by_machine (lm_machine ?m) (im_store ?I1) = Some self" using on_register_lookup [OF reg m(4)] by blast
  obtain f where "map_frame_for demo_libs demo_clock self (lm_zstd ?m) ?I1 = Inr f" using demo_frame by blast
  then obtain h' live' where t: "on_tick demo_libs demo_clock (demo_h2, ?I1, w2, [?m]) = (Inr (), h', ?I1, w2, live')"
    using self g(3) m(2) by (simp add: on_tick_def tick_one_def Let_def)
  have d: "distinct (map lm_stream_id [?m])" by simp
  from registration_reaches_peers [OF reg g(1,2) t d m(1-4) v] reg t m(5,6) show ?thesis by auto
qed

section \<open>A registration survives a restart\<close>

lemma consume_preauth_config:
  assumes "consume_preauth J now key s w = (r, s', w')"
  shows "st_path s' = st_path s" "st_alloc s' = st_alloc s" "st_noise_private s' = st_noise_private s" "w_room w' = w_room w"
    "w_can_read w' = w_can_read w"
  using assms
  by (auto simp: consume_preauth_def consume_locked_eq reload_keys_from_disk_def reload_install_def
      dest: save_and_return_cases(1) save_and_return_room split: prod.splits sum.splits option.splits if_splits)

lemma registered_is_saved:
  assumes reg: "on_register E K sid m body (h, I, w, live) = (Inr (), h', I1, w1, live')"
    and new: "find_by_machine m (im_store I) = None" "find_by_machine m (im_store I1) \<noteq> None"
  obtains w0 where "save_locked (lib_json E) (im_store I1) w0 = (Inr (), w1)" "w_room w0 = w_room w"
    "st_path (im_store I1) = st_path (im_store I)" "st_alloc (im_store I1) = st_alloc (im_store I)"
    "st_noise_private (im_store I1) = st_noise_private (im_store I)" "st_keys (im_store I1) \<noteq> []" "w_can_read w0 = w_can_read w"
proof -
  have "st_nodes (im_store I1) \<noteq> st_nodes (im_store I)" using new by (auto simp: find_by_machine_def)
  then obtain q e t sh s0 w0 r2 where a: "admit (lib_json E) (ck_unix K) m q (im_store I) w = (Inr (Some (e, t, sh)), s0, w0)"
    and rn: "register_node (lib_json E) (lib_inet6 E) m (rr_node_key q) (rr_host q) e t sh s0 w0 = (r2, im_store I1, w1)" "\<not> isl r2"
    using on_register_outcome [OF reg] by blast
  obtain c where c: "consume_preauth (lib_json E) (ck_unix K) (rr_auth q) (im_store I) w = (Inr (Some c), s0, w0)"
    using admit_unknown [OF a new(1)] by blast
  obtain s k where k: "find_key (rr_auth q) s = Some k" "s0 = mark_used (rr_auth q) s" using consume_preauth_success [OF c] by blast
  have "length (st_keys s0) = length (st_keys s)" "st_keys s \<noteq> []" using k by auto
  then have keys: "st_keys s0 \<noteq> []" by fastforce
  have "find_by_machine m s0 = None" using admit_lookup [OF a] new(1) by simp
  with rn obtain p where "im_store I1 = (bump_counters s0)\<lparr>st_nodes := st_nodes s0 @ [fresh_node m (rr_node_key q) (rr_host q) e t sh p s0]\<rparr>"
    "save_locked (lib_json E) (im_store I1) w0 = (Inr (), w1)"
    by (cases r2) (auto simp: register_node_new save_and_return_Inr split: sum.splits)
  then show thesis using that [of w0] consume_preauth_config [OF c] keys by (simp add: bump_counters_def)
qed

text \<open>
  C12: A machine that was told it is registered is still registered after a restart. When a
  registration of a new machine succeeds and the coordinator is then started again with the same
  file and address ranges, whatever the random draws and clocks, it has the same nodes, the same
  preauth keys and the same membership, and makes no key of its own. The device has to have room
  for the file, the file has to be readable, and counters and expiry times have to fit the 32 bits
  they are read back with.
\<close>

theorem registration_survives_restart:
  assumes "nl_laws (lib_json E)" "snapshot_text_laws (lib_json E)"
    and "on_register E K sid m body (h, I, w, live) = (Inr (), h', I1, w1, live')"
    and "find_by_machine m (im_store I) = None" "find_by_machine m (im_store I1) \<noteq> None"
    and "st_path (im_store I) \<noteq> []" "has_room w (im_store I)" "snapshot_fits (im_store I1)"
    and "w_can_read w (st_path (im_store I))"
    and "st_noise_private (im_store I) \<noteq> replicate 32 0" "cf_state_path cfg = st_path (im_store I)"
    and "new_IpAllocator (lib_inet6 E) (cf_ip_prefix cfg) (cf_ipv6_prefix cfg) = Inr (st_alloc (im_store I))"
  shows "\<exists>I2. new_Impl E d1 d2 K' cfg w1 = (Inr I2, w1) \<and> membership_of I2 = membership_of I1 \<and>
    list_nodes I2 = list_nodes I1 \<and> list_preauth_keys I2 = list_preauth_keys I1 \<and> im_bootstrap_key I2 = []"
proof -
  obtain w0 where s: "save_locked (lib_json E) (im_store I1) w0 = (Inr (), w1)" "w_room w0 = w_room w"
    "st_path (im_store I1) = st_path (im_store I)" "st_alloc (im_store I1) = st_alloc (im_store I)"
    "st_noise_private (im_store I1) = st_noise_private (im_store I)" "st_keys (im_store I1) \<noteq> []" "w_can_read w0 = w_can_read w"
    by (rule registered_is_saved [OF assms(3-5)])
  have "new_Store (lib_json E) (lib_inet6 E) (st_path (im_store I1)) (cf_ip_prefix cfg) (cf_ipv6_prefix cfg) d1 w1 =
      (Inr ((im_store I1)\<lparr>st_persist_hook := False\<rparr>), w1)"
    by (rule new_Store_after_save [OF assms(1,2,8) s(1)]) (use assms s in simp_all)
  then show ?thesis
    using s(3,6) assms(11)
    by (simp add: new_Impl_def membership_of_def find_by_machine_def list_nodes_def list_preauth_keys_def)
qed

theorem registration_survives_restart_witness:
  "\<exists>h' I1 w1 I2. on_register demo_libs demo_clock 1 ''mkey:bb'' demo_register_body (new_H2, demo_impl demo_store, demo_world, []) =
      (Inr (), h', I1, w1, []) \<and>
    new_Impl demo_libs None None demo_clock (default_Config\<lparr>cf_state_path := ''state.json''\<rparr>) w1 = (Inr I2, w1) \<and>
    membership_of I2 ''mkey:bb'' \<noteq> None"
proof -
  let ?cfg = "default_Config\<lparr>cf_state_path := ''state.json''\<rparr>" and ?I = "demo_impl demo_store"
  obtain n s2 w2 h' where r: "on_register demo_libs demo_clock 1 ''mkey:bb'' demo_register_body (new_H2, ?I, demo_world, []) =
      (Inr (), h', bump_map (demo_impl s2), w2, [])" and n: "find_by_machine ''mkey:bb'' s2 = Some n" "snapshot_fits s2"
    using demo_on_register [of demo_store 1 new_H2 "[]"] demo_store_ready by (auto simp: demo_store_def)
  let ?I1 = "bump_map (demo_impl s2)"
  have s: "im_store ?I1 = s2" "im_store ?I = demo_store" by (simp_all add: bump_map_def)
  have "find_by_machine ''mkey:bb'' (im_store ?I) = None" "find_by_machine ''mkey:bb'' (im_store ?I1) \<noteq> None"
    "st_path (im_store ?I) \<noteq> []" "has_room demo_world (im_store ?I)" "snapshot_fits (im_store ?I1)" "w_can_read demo_world (st_path (im_store ?I))"
    "st_noise_private (im_store ?I) \<noteq> replicate 32 0" "cf_state_path ?cfg = st_path (im_store ?I)"
    "new_IpAllocator (lib_inet6 demo_libs) (cf_ip_prefix ?cfg) (cf_ipv6_prefix ?cfg) = Inr (st_alloc (im_store ?I))"
    using n demo_store_ready new_cgnat unfolding s by (simp_all add: demo_store_def default_Config_def replicate_eq_replicate)
  moreover have "membership_of ?I1 ''mkey:bb'' \<noteq> None" using n(1) by (simp add: membership_of_def s)
  moreover have "nl_laws (lib_json demo_libs)" "snapshot_text_laws (lib_json demo_libs)"
    using ref_json_laws ref_snapshot_text_laws by simp_all
  ultimately show ?thesis using registration_survives_restart [OF _ _ r, of ?cfg None None demo_clock] r by metis
qed

end
